(* ===== verification/Prelude.thy ===== *)
theory Prelude
  imports Main "HOL-Library.Word"
begin

text \<open>
  Shared vocabulary of the development: the machine integers and strings of Go, the
  error values of the program with the relations \<open>errors.Is\<close> and \<open>errors.As\<close>, the
  request context, and the collections of facts the component theories fill.

  A Go string is a sequence of bytes; HOL's \<open>string\<close> is a list of 8-bit characters, so
  one HOL character is one byte and multi-byte UTF-8 sequences are several characters.
\<close>

named_theorems go_error \<open>how wrapping a Go error affects errors.Is and errors.As\<close>
named_theorems go_string \<open>facts on Go strings, their runes and their trimming\<close>
named_theorems page_order \<open>facts on the keyset order of widget rows\<close>

section \<open>Machine integers and strings\<close>

type_synonym int32 = "32 word"
type_synonym int64 = "64 word"
type_synonym gostring = string

abbreviation byte_of :: "char \<Rightarrow> nat" where
  "byte_of c \<equiv> (of_char c :: nat)"

lemma byte_of_less: "byte_of c < 256"
  by (rule nat_of_char_less_256)

lemma sint_int64_bounds: "- (2 ^ 63) \<le> sint (x :: int64)" "sint (x :: int64) < 2 ^ 63"
  using sint_ge [of x] sint_less [of x] by simp_all

lemma sint_int32_bounds: "- (2 ^ 31) \<le> sint (x :: int32)" "sint (x :: int32) < 2 ^ 31"
  using sint_ge [of x] sint_less [of x] by simp_all

lemma sint_of_int64:
  "- (2 ^ 63) \<le> i \<Longrightarrow> i < 2 ^ 63 \<Longrightarrow> sint (word_of_int i :: int64) = i"
  by (simp add: sint_sbintrunc' signed_take_bit_int_eq_self)

lemma sint_of_int32:
  "- (2 ^ 31) \<le> i \<Longrightarrow> i < 2 ^ 31 \<Longrightarrow> sint (word_of_int i :: int32) = i"
  by (simp add: sint_sbintrunc' signed_take_bit_int_eq_self)

lemma sint_inject: "sint (x :: 'a::len word) = sint y \<longleftrightarrow> x = y"
  by (auto intro: signed_word_eqI)

section \<open>Bit fields\<close>

lemma fields_div: "(y :: nat) < m \<Longrightarrow> (x * m + y) div m = x"
  by simp

lemma fields_mod: "(y :: nat) < m \<Longrightarrow> (x * m + y) mod m = y"
  by simp

section \<open>Error values\<close>

text \<open>
  \<open>FieldViolation\<close> is httpkit's description of one failed validation; it stands here because
  the error type below carries it.
\<close>

record FieldViolation =
  Field :: gostring
  Rule :: gostring

text \<open>
  The errors the program creates, compares with \<open>errors.Is\<close> or reads with \<open>errors.As\<close>, one
  constructor each. \<open>NewError\<close> is any other \<open>errors.New\<close> or foreign error with its text,
  \<open>Wrapped\<close> is \<open>fmt.Errorf("text: %w", err)\<close> and \<open>Joined\<close> is \<open>errors.Join\<close>.
\<close>

datatype gerror =
    ErrNotFound
  | ErrInvalidName
  | ErrInvalidPagination
  | ErrUnsupportedMediaType
  | ValidationError "FieldViolation list"
  | MaxBytesError
  | ErrEOF
  | ErrNoRows
  | DeadlineExceeded
  | Canceled
  | ErrServerClosed
  | ErrAbortHandler
  | NewError gostring
  | Wrapped gostring gerror
  | Joined "gerror list"

text \<open>
  \<open>errors.Is(err, target)\<close> for a sentinel target: unwrap, depth first, until the sentinel
  is met. Two errors made by separate \<open>errors.New\<close> calls are never the same target, and the
  program only asks for sentinels, so \<open>Wrapped\<close> and \<open>Joined\<close> values never match themselves.
\<close>

fun errors_Is :: "gerror \<Rightarrow> gerror \<Rightarrow> bool" where
  "errors_Is (Wrapped m e) target = errors_Is e target"
| "errors_Is (Joined es) target = (\<exists>e \<in> set es. errors_Is e target)"
| "errors_Is e target = (e = target)"

text \<open>\<open>errors.As\<close> for the two error types the program reads that way.\<close>

fun errors_As_MaxBytesError :: "gerror \<Rightarrow> bool" where
  "errors_As_MaxBytesError MaxBytesError = True"
| "errors_As_MaxBytesError (Wrapped m e) = errors_As_MaxBytesError e"
| "errors_As_MaxBytesError (Joined es) = (\<exists>e \<in> set es. errors_As_MaxBytesError e)"
| "errors_As_MaxBytesError e = False"

fun first_some :: "'a option list \<Rightarrow> 'a option" where
  "first_some [] = None"
| "first_some (None # xs) = first_some xs"
| "first_some (Some x # xs) = Some x"

fun errors_As_ValidationError :: "gerror \<Rightarrow> FieldViolation list option" where
  "errors_As_ValidationError (ValidationError fs) = Some fs"
| "errors_As_ValidationError (Wrapped m e) = errors_As_ValidationError e"
| "errors_As_ValidationError (Joined es) = first_some (map errors_As_ValidationError es)"
| "errors_As_ValidationError e = None"

lemmas errors_simps [go_error] =
  errors_Is.simps errors_As_MaxBytesError.simps errors_As_ValidationError.simps

text \<open>
  \<open>errors.Join\<close>: the non-nil errors, or nil when there is none. The program's error lists
  hold no nil, so the list itself stands for the arguments.
\<close>

definition errors_Join :: "gerror list \<Rightarrow> gerror option" where
  "errors_Join es = (if es = [] then None else Some (Joined es))"

text \<open>\<open>err.Error()\<close>.\<close>

fun error_text :: "gerror \<Rightarrow> gostring" where
  "error_text ErrNotFound = ''widget not found''"
| "error_text ErrInvalidName = ''invalid widget name''"
| "error_text ErrInvalidPagination = ''invalid pagination''"
| "error_text ErrUnsupportedMediaType = ''request content type must be application/json''"
| "error_text (ValidationError fs) = ''request validation failed''"
| "error_text MaxBytesError = ''http: request body too large''"
| "error_text ErrEOF = ''EOF''"
| "error_text ErrNoRows = ''no rows in result set''"
| "error_text DeadlineExceeded = ''context deadline exceeded''"
| "error_text Canceled = ''context canceled''"
| "error_text ErrServerClosed = ''http: Server closed''"
| "error_text ErrAbortHandler = ''net/http: abort Handler''"
| "error_text (NewError m) = m"
| "error_text (Wrapped m e) = m @ '': '' @ error_text e"
| "error_text (Joined []) = []"
| "error_text (Joined [e]) = error_text e"
| "error_text (Joined (e # e' # es)) = error_text e @ [CHR 0x0A] @ error_text (Joined (e' # es))"

section \<open>Request context\<close>

text \<open>
  The values a request context carries through the program: the correlation ID (chi's
  \<open>RequestIDKey\<close>), the client address and the deadline in nanoseconds.
\<close>

record ctx =
  ctx_request_id :: gostring
  ctx_client_ip :: gostring
  ctx_deadline :: "int option"

definition background :: ctx where
  "background = \<lparr>ctx_request_id = '''', ctx_client_ip = '''', ctx_deadline = None\<rparr>"

section \<open>Generic list facts\<close>

lemma sorted_wrt_filter_takeWhile:
  "sorted_wrt (\<lambda>a b. P b \<longrightarrow> P a) xs \<Longrightarrow> filter P xs = takeWhile P xs"
proof (induction xs)
  case (Cons x xs)
  then show ?case by (auto simp: filter_empty_conv)
qed simp

lemma sorted_wrt_filter_dropWhile:
  "sorted_wrt (\<lambda>a b. P a \<longrightarrow> P b) xs \<Longrightarrow> filter P xs = dropWhile (\<lambda>x. \<not> P x) xs"
proof (induction xs)
  case (Cons x xs)
  then show ?case by (auto simp: filter_id_conv)
qed simp

lemma find_SomeD: "List.find P xs = Some x \<Longrightarrow> x \<in> set xs \<and> P x"
  by (auto simp: find_Some_iff)

lemma last_take_nth:
  "0 < n \<Longrightarrow> n < length xs \<Longrightarrow> take n xs ! (length (take n xs) - 1) = xs ! (n - 1)"
  by simp

end
