(* ===== verification/Go_Strings.thy ===== *)
theory Go_Strings
  imports Prelude
begin

text \<open>
  What the program uses of Go's \<open>unicode/utf8\<close>, \<open>unicode\<close> and \<open>strings\<close> packages: decoding the
  first and the last rune of a byte string, the runes of a string (the conversion
  \<open>[]rune(s)\<close>), \<open>strings.TrimSpace\<close>, \<open>strings.Cut\<close> and \<open>strings.Split\<close> at a one-byte
  separator, and \<open>strings.HasSuffix\<close>. The facts about trimming at the end (what remains has no
  space at either end, and trimming again changes nothing) serve the widget service and the
  configuration reader.
\<close>

section \<open>Runes\<close>

definition rune_error :: nat where
  "rune_error = 0xFFFD"

text \<open>\<open>utf8.RuneStart\<close> on a byte: it is not a continuation byte.\<close>

definition continuation :: "char \<Rightarrow> bool" where
  "continuation c \<longleftrightarrow> 0x80 \<le> byte_of c \<and> byte_of c \<le> 0xBF"

definition byte_between :: "nat \<Rightarrow> nat \<Rightarrow> char \<Rightarrow> bool" where
  "byte_between lo hi c \<longleftrightarrow> lo \<le> byte_of c \<and> byte_of c \<le> hi"

text \<open>
  \<open>utf8.DecodeRuneInString\<close>: the first rune and its width in bytes. An invalid or truncated
  sequence is the replacement rune with width 1, the empty string the replacement rune with
  width 0. The ranges of the second byte exclude overlong forms, surrogates and values above
  \<open>0x10FFFF\<close>.
\<close>

fun decode_2 :: "nat \<Rightarrow> gostring \<Rightarrow> nat \<times> nat" where
  "decode_2 b0 (c1 # _) =
     (if continuation c1 then ((b0 mod 0x20) * 0x40 + byte_of c1 mod 0x40, 2) else (rune_error, 1))"
| "decode_2 b0 _ = (rune_error, 1)"

fun decode_3 :: "nat \<Rightarrow> nat \<Rightarrow> nat \<Rightarrow> gostring \<Rightarrow> nat \<times> nat" where
  "decode_3 b0 lo hi (c1 # c2 # _) =
     (if byte_between lo hi c1 \<and> continuation c2
      then ((b0 mod 0x10) * 0x1000 + (byte_of c1 mod 0x40) * 0x40 + byte_of c2 mod 0x40, 3)
      else (rune_error, 1))"
| "decode_3 b0 lo hi _ = (rune_error, 1)"

fun decode_4 :: "nat \<Rightarrow> nat \<Rightarrow> nat \<Rightarrow> gostring \<Rightarrow> nat \<times> nat" where
  "decode_4 b0 lo hi (c1 # c2 # c3 # _) =
     (if byte_between lo hi c1 \<and> continuation c2 \<and> continuation c3
      then ((b0 mod 0x08) * 0x40000 + (byte_of c1 mod 0x40) * 0x1000
            + (byte_of c2 mod 0x40) * 0x40 + byte_of c3 mod 0x40, 4)
      else (rune_error, 1))"
| "decode_4 b0 lo hi _ = (rune_error, 1)"

fun decode_rune :: "gostring \<Rightarrow> nat \<times> nat" where
  "decode_rune [] = (rune_error, 0)"
| "decode_rune (c # s) = (let b0 = byte_of c in
     if b0 < 0x80 then (b0, 1)
     else if b0 < 0xC2 then (rune_error, 1)
     else if b0 < 0xE0 then decode_2 b0 s
     else if b0 = 0xE0 then decode_3 b0 0xA0 0xBF s
     else if b0 = 0xED then decode_3 b0 0x80 0x9F s
     else if b0 < 0xF0 then decode_3 b0 0x80 0xBF s
     else if b0 = 0xF0 then decode_4 b0 0x90 0xBF s
     else if b0 < 0xF4 then decode_4 b0 0x80 0xBF s
     else if b0 = 0xF4 then decode_4 b0 0x80 0x8F s
     else (rune_error, 1))"

lemma decode_2_size: "decode_2 b0 s = (r, n) \<Longrightarrow> 1 \<le> n \<and> n \<le> Suc (length s)"
  by (induction b0 s rule: decode_2.induct) (auto split: if_splits)

lemma decode_3_size: "decode_3 b0 lo hi s = (r, n) \<Longrightarrow> 1 \<le> n \<and> n \<le> Suc (length s)"
  by (induction b0 lo hi s rule: decode_3.induct) (auto split: if_splits)

lemma decode_4_size: "decode_4 b0 lo hi s = (r, n) \<Longrightarrow> 1 \<le> n \<and> n \<le> Suc (length s)"
  by (induction b0 lo hi s rule: decode_4.induct) (auto split: if_splits)

lemmas decode_n_size = decode_2_size decode_3_size decode_4_size

lemma decode_rune_size:
  assumes "decode_rune s = (r, n)" "s \<noteq> []"
  shows "1 \<le> n \<and> n \<le> length s"
  using assms by (cases s) (auto simp: Let_def split: if_splits dest: decode_n_size)

text \<open>Every byte of a rune after its first is a continuation byte.\<close>

lemma decode_2_tail: "decode_2 b0 s = (r, n) \<Longrightarrow> Suc p < n \<Longrightarrow> continuation (s ! p)"
  by (induction b0 s rule: decode_2.induct) (auto split: if_splits)

lemma decode_3_tail:
  "decode_3 b0 lo hi s = (r, n) \<Longrightarrow> 0x80 \<le> lo \<Longrightarrow> hi \<le> 0xBF \<Longrightarrow> Suc p < n \<Longrightarrow> continuation (s ! p)"
  by (induction b0 lo hi s rule: decode_3.induct)
    (auto simp: continuation_def byte_between_def less_Suc_eq numeral_2_eq_2 split: if_splits)

lemma decode_4_tail:
  "decode_4 b0 lo hi s = (r, n) \<Longrightarrow> 0x80 \<le> lo \<Longrightarrow> hi \<le> 0xBF \<Longrightarrow> Suc p < n \<Longrightarrow> continuation (s ! p)"
  by (induction b0 lo hi s rule: decode_4.induct)
    (auto simp: continuation_def byte_between_def less_Suc_eq numeral_3_eq_3 split: if_splits)

lemma decode_rune_tail:
  assumes "decode_rune s = (r, n)" "0 < p" "p < n"
  shows "continuation (s ! p)"
proof -
  from assms obtain c t where s: "s = c # t" by (cases s) auto
  obtain q where p: "p = Suc q" using assms(2) by (cases p) auto
  have "continuation (t ! q)"
    using assms(1,3) unfolding s p
    by (auto simp: Let_def split: if_splits dest: decode_2_tail decode_3_tail decode_4_tail)
  then show ?thesis by (simp add: s p)
qed

text \<open>Bytes behind the first rune do not matter to it.\<close>

lemma decode_2_take: "decode_2 b0 s = (r, n) \<Longrightarrow> n \<le> Suc m \<Longrightarrow> decode_2 b0 (take m s) = (r, n)"
  by (cases s; cases m) (auto split: if_splits)

lemma decode_3_take:
  "decode_3 b0 lo hi s = (r, n) \<Longrightarrow> n \<le> Suc m \<Longrightarrow> decode_3 b0 lo hi (take m s) = (r, n)"
  by (cases "(b0, lo, hi, s)" rule: decode_3.cases; cases m rule: nat.exhaust)
    (auto simp: take_Cons' split: if_splits nat.splits)

lemma decode_4_take:
  "decode_4 b0 lo hi s = (r, n) \<Longrightarrow> n \<le> Suc m \<Longrightarrow> decode_4 b0 lo hi (take m s) = (r, n)"
  by (cases "(b0, lo, hi, s)" rule: decode_4.cases; cases m rule: nat.exhaust)
    (auto simp: take_Cons' split: if_splits nat.splits)

lemma decode_rune_take:
  assumes "decode_rune s = (r, n)" "n \<le> m" "s \<noteq> []"
  shows "decode_rune (take m s) = (r, n)"
proof -
  from assms(3) obtain c t where s: "s = c # t" by (cases s) auto
  from decode_rune_size [OF assms(1,3)] assms(2) obtain k where m: "m = Suc k" by (cases m) auto
  show ?thesis using assms(1,2) unfolding s m
    by (auto simp: Let_def decode_2_take decode_3_take decode_4_take split: if_splits)
qed

text \<open>The runes of a string: \<open>[]rune(s)\<close>.\<close>

fun runes :: "gostring \<Rightarrow> nat list" where
  "runes [] = []"
| "runes (c # s) = (let (r, n) = decode_rune (c # s) in r # runes (drop (n - 1) s))"

text \<open>\<open>utf8.ValidString\<close>.\<close>

fun valid_utf8 :: "gostring \<Rightarrow> bool" where
  "valid_utf8 [] = True"
| "valid_utf8 (c # s) =
     (let (r, n) = decode_rune (c # s) in (r \<noteq> rune_error \<or> n \<noteq> 1) \<and> valid_utf8 (drop (n - 1) s))"

declare decode_rune.simps(2) [simp del]

lemma length_runes: "length (runes s) \<le> length s"
proof (induction s rule: runes.induct)
  case (2 c s)
  obtain r n where d: "decode_rune (c # s) = (r, n)" by fastforce
  from "2.IH" [OF d [symmetric] refl] d show ?case by simp
qed simp

text \<open>
  \<open>utf8.DecodeLastRuneInString\<close>: step back over at most three continuation bytes to a byte
  that can start a rune; the rune decoded there counts when it ends the string.
\<close>

definition decode_last_rune :: "gostring \<Rightarrow> nat \<times> nat" where
  "decode_last_rune s =
     (if s = [] then (rune_error, 0)
      else let b = byte_of (last s) in
        if b < 0x80 then (b, 1)
        else (case List.find (\<lambda>k. \<not> continuation (s ! (length s - k))) [2..<min 5 (Suc (length s))] of
                None \<Rightarrow> (rune_error, 1)
              | Some k \<Rightarrow> (let (r, n) = decode_rune (drop (length s - k) s)
                          in if n = k then (r, n) else (rune_error, 1))))"

lemma decode_last_rune_size:
  assumes "decode_last_rune s = (r, n)" "s \<noteq> []"
  shows "1 \<le> n \<and> n \<le> length s"
  using assms
  by (auto simp: decode_last_rune_def Let_def Suc_le_eq
      split: if_splits option.splits prod.splits dest!: find_SomeD)

text \<open>\<open>unicode.IsSpace\<close>.\<close>

definition is_space :: "nat \<Rightarrow> bool" where
  "is_space r \<longleftrightarrow> (9 \<le> r \<and> r \<le> 13) \<or> r = 0x20 \<or> r = 0x85 \<or> r = 0xA0 \<or> r = 0x1680
     \<or> (0x2000 \<le> r \<and> r \<le> 0x200A) \<or> r = 0x2028 \<or> r = 0x2029 \<or> r = 0x202F \<or> r = 0x205F
     \<or> r = 0x3000"

lemma not_is_space_rune_error [simp]: "\<not> is_space rune_error"
  by (simp add: is_space_def rune_error_def)

section \<open>Trimming\<close>

text \<open>\<open>strings.TrimSpace\<close>: drop the leading runes that are space, then the trailing ones.\<close>

fun trim_left :: "gostring \<Rightarrow> gostring" where
  "trim_left [] = []"
| "trim_left (c # s) =
     (let (r, n) = decode_rune (c # s)
      in if is_space r then trim_left (drop (n - 1) s) else c # s)"

function trim_right :: "gostring \<Rightarrow> gostring" where
  "trim_right s =
     (if s = [] then []
      else let (r, n) = decode_last_rune s
        in if is_space r then trim_right (take (length s - n) s) else s)"
  by pat_completeness auto
termination
proof (relation "measure length", goal_cases)
  case 1
  then show ?case by simp
next
  case (2 s p r n)
  then show ?case using decode_last_rune_size [of s r n] by (cases s) auto
qed

declare trim_right.simps [simp del]

definition TrimSpace :: "gostring \<Rightarrow> gostring" where
  "TrimSpace s = trim_right (trim_left s)"

definition starts_clean :: "gostring \<Rightarrow> bool" where
  "starts_clean s \<longleftrightarrow> s = [] \<or> \<not> is_space (fst (decode_rune s))"

definition ends_clean :: "gostring \<Rightarrow> bool" where
  "ends_clean s \<longleftrightarrow> s = [] \<or> \<not> is_space (fst (decode_last_rune s))"

lemma trim_left_clean: "starts_clean (trim_left s)"
  by (induction s rule: trim_left.induct) (auto simp: starts_clean_def split: prod.splits)

lemma trim_left_suffix: "\<exists>m. trim_left s = drop m s"
proof (induction s rule: trim_left.induct)
  case (2 c s)
  obtain r n where d: "decode_rune (c # s) = (r, n)" by fastforce
  show ?case
  proof (cases "is_space r")
    case True
    with "2.IH" [OF d [symmetric] refl] obtain m where "trim_left (drop (n - 1) s) = drop m (drop (n - 1) s)"
      by blast
    with d True have "trim_left (c # s) = drop (Suc (m + (n - 1))) (c # s)" by simp
    then show ?thesis by blast
  next
    case False
    with d have "trim_left (c # s) = drop 0 (c # s)" by simp
    then show ?thesis by blast
  qed
qed simp

lemma trim_right_clean: "ends_clean (trim_right s)"
proof (induction s rule: trim_right.induct)
  case (1 s)
  show ?case
  proof (cases "s = [] \<or> \<not> is_space (fst (decode_last_rune s))")
    case True
    then show ?thesis by (auto simp: trim_right.simps [of s] ends_clean_def split: prod.splits)
  next
    case False
    then obtain r n where d: "decode_last_rune s = (r, n)" "is_space r" "s \<noteq> []"
      by (cases "decode_last_rune s") auto
    from "1.IH" [OF d(3) d(1) [symmetric] refl d(2)] d show ?thesis
      by (simp add: trim_right.simps [of s])
  qed
qed

lemma trim_right_prefix: "\<exists>m. trim_right s = take m s"
proof (induction s rule: trim_right.induct)
  case (1 s)
  obtain r n where d: "decode_last_rune s = (r, n)" by fastforce
  show ?case
  proof (cases "s \<noteq> [] \<and> is_space r")
    case True
    with "1.IH" [OF _ d [symmetric] refl] obtain m
      where "trim_right (take (length s - n) s) = take m (take (length s - n) s)" by blast
    with d True have "trim_right s = take (min m (length s - n)) s"
      by (simp add: trim_right.simps [of s])
    then show ?thesis by blast
  next
    case False
    with d have "trim_right s = take (length s) s" by (auto simp: trim_right.simps [of s])
    then show ?thesis by blast
  qed
qed

lemma trim_left_id [go_string]: "starts_clean s \<Longrightarrow> trim_left s = s"
  by (cases s) (auto simp: starts_clean_def split: prod.splits)

lemma trim_right_id [go_string]: "ends_clean s \<Longrightarrow> trim_right s = s"
  by (auto simp: ends_clean_def trim_right.simps [of s] split: prod.splits)

text \<open>
  A trailing space rune never reaches into the first rune: the bytes of a rune after its first
  are continuation bytes, and a rune found from the end starts at a byte that is not one.
\<close>

lemma last_rune_apart:
  assumes first: "decode_rune s = (r0, n0)" "\<not> is_space r0" "s \<noteq> []"
    and last: "decode_last_rune s = (r, n)" "is_space r"
  shows "n0 \<le> length s - n"
proof (rule ccontr)
  assume "\<not> n0 \<le> length s - n"
  then have lt: "length s - n < n0" by simp
  have n: "1 \<le> n" "n \<le> length s" using decode_last_rune_size [OF last(1) first(3)] by auto
  have n0: "1 \<le> n0" "n0 \<le> length s" using decode_rune_size [OF first(1,3)] by auto
  show False
  proof (cases "byte_of (List.last s) < 0x80")
    case True
    with last first(3) have r: "r = byte_of (List.last s)" "n = 1" by (auto simp: decode_last_rune_def)
    have "length s = 1"
    proof (rule ccontr)
      assume "length s \<noteq> 1"
      with lt r n0 have "0 < length s - 1" "length s - 1 < n0" by auto
      then have "continuation (s ! (length s - 1))" by (rule decode_rune_tail [OF first(1)])
      with True first(3) show False by (simp add: continuation_def last_conv_nth)
    qed
    then obtain c where "s = [c]" by (auto simp: length_Suc_conv)
    with first True r last(2) show False by (simp add: decode_rune.simps)
  next
    case False
    with last first(3) not_is_space_rune_error
    have k: "\<not> continuation (s ! (length s - n))" "decode_rune (drop (length s - n) s) = (r, n)"
      by (auto simp: decode_last_rune_def Let_def split: if_splits option.splits prod.splits
          dest!: find_SomeD)
    show False
    proof (cases "length s - n")
      case 0
      with k(2) first last(2) show False by simp
    next
      case (Suc j)
      with lt have "continuation (s ! (length s - n))"
        by (intro decode_rune_tail [OF first(1)]) auto
      with k(1) show False by simp
    qed
  qed
qed

lemma trim_right_keeps_first:
  assumes "decode_rune s = (r0, n0)" "\<not> is_space r0" "s \<noteq> []"
  shows "\<exists>m. trim_right s = take m s \<and> n0 \<le> m \<and> m \<le> length s"
  using assms
proof (induction s rule: trim_right.induct)
  case (1 s)
  note first = "1.prems"
  obtain r n where d: "decode_last_rune s = (r, n)" by fastforce
  show ?case
  proof (cases "is_space r")
    case True
    let ?t = "take (length s - n) s"
    have apart: "n0 \<le> length s - n" by (rule last_rune_apart [OF first d True])
    have n0: "1 \<le> n0" using decode_rune_size [OF first(1,3)] by simp
    have "decode_rune ?t = (r0, n0)" by (rule decode_rune_take [OF first(1) apart first(3)])
    moreover have "?t \<noteq> []" using apart n0 first(3) by auto
    ultimately obtain m where m: "trim_right ?t = take m ?t" "n0 \<le> m" "m \<le> length ?t"
      using "1.IH" [OF first(3) d [symmetric] refl True] first(2) by blast
    moreover have "trim_right s = trim_right ?t" using first(3) d True by (simp add: trim_right.simps [of s])
    ultimately have "trim_right s = take m s" "m \<le> length s" by (auto simp: min_absorb1)
    with m(2) show ?thesis by blast
  next
    case False
    with d first(3) have "trim_right s = take (length s) s" by (simp add: trim_right.simps [of s])
    with decode_rune_size [OF first(1,3)] show ?thesis by blast
  qed
qed

lemma trim_right_starts_clean: "starts_clean s \<Longrightarrow> starts_clean (trim_right s)"
proof (cases "s = []")
  case True
  then show ?thesis by (simp add: trim_right.simps starts_clean_def)
next
  case False
  assume "starts_clean s"
  then obtain r n where d: "decode_rune s = (r, n)" "\<not> is_space r"
    using False by (cases "decode_rune s") (auto simp: starts_clean_def)
  with trim_right_keeps_first [OF d False] decode_rune_take [OF d(1) _ False]
  show ?thesis by (auto simp: starts_clean_def)
qed

lemma TrimSpace_starts_clean [go_string]: "starts_clean (TrimSpace s)"
  by (simp add: TrimSpace_def trim_left_clean trim_right_starts_clean)

lemma TrimSpace_ends_clean [go_string]: "ends_clean (TrimSpace s)"
  by (simp add: TrimSpace_def trim_right_clean)

lemma TrimSpace_idem [go_string]: "TrimSpace (TrimSpace s) = TrimSpace s"
  using TrimSpace_starts_clean [of s] TrimSpace_ends_clean [of s]
  by (simp add: TrimSpace_def [of "TrimSpace s"] go_string)

lemma TrimSpace_infix: "\<exists>a b. s = a @ TrimSpace s @ b"
proof -
  obtain m k where m: "trim_left s = drop m s" and k: "TrimSpace s = take k (drop m s)"
    using trim_left_suffix [of s] trim_right_prefix [of "trim_left s"] by (metis TrimSpace_def)
  have "s = take m s @ take k (drop m s) @ drop k (drop m s)"
    by (metis append_take_drop_id)
  with k show ?thesis by metis
qed

section \<open>Cutting and splitting\<close>

text \<open>\<open>strings.Cut(s, sep)\<close> for a separator of one byte: before, after, found.\<close>

definition Cut :: "char \<Rightarrow> gostring \<Rightarrow> gostring \<times> gostring \<times> bool" where
  "Cut c s = (case dropWhile (\<lambda>x. x \<noteq> c) s of
       [] \<Rightarrow> (s, [], False)
     | _ # rest \<Rightarrow> (takeWhile (\<lambda>x. x \<noteq> c) s, rest, True))"

lemma Cut_append: "c \<notin> set a \<Longrightarrow> Cut c (a @ c # b) = (a, b, True)"
proof -
  assume c: "c \<notin> set a"
  then have "dropWhile (\<lambda>x. x \<noteq> c) (a @ c # b) = c # b" by (induction a) auto
  moreover from c have "takeWhile (\<lambda>x. x \<noteq> c) (a @ c # b) = a" by (induction a) auto
  ultimately show ?thesis by (simp add: Cut_def)
qed

lemma Cut_missing: "c \<notin> set s \<Longrightarrow> Cut c s = (s, [], False)"
  by (auto simp: Cut_def split: list.splits)
    (metis (mono_tags) dropWhile_eq_Nil_conv list.distinct(1))

text \<open>\<open>strings.Split(s, sep)\<close> for a separator of one byte.\<close>

fun Split :: "char \<Rightarrow> gostring \<Rightarrow> gostring list" where
  "Split c [] = [[]]"
| "Split c (x # s) =
     (if x = c then [] # Split c s
      else (case Split c s of [] \<Rightarrow> [[x]] | p # ps \<Rightarrow> (x # p) # ps))"

definition HasSuffix :: "gostring \<Rightarrow> gostring \<Rightarrow> bool" where
  "HasSuffix s t \<longleftrightarrow> length t \<le> length s \<and> drop (length s - length t) s = t"

lemma Split_pieces: "p \<in> set (Split c s) \<Longrightarrow> c \<notin> set p"
  by (induction s arbitrary: p) (auto split: list.splits if_splits)

end
