(* ===== verification/Go_Strconv.thy ===== *)
theory Go_Strconv
  imports Go_Strings
begin

text \<open>
  What the program uses of Go's \<open>strconv\<close>: decimal \<open>ParseInt\<close> at a bit size, \<open>Atoi\<close>,
  \<open>FormatInt\<close> and \<open>ParseBool\<close>. The program always passes base 10, where underscores and base
  prefixes are syntax errors. The round trip at the end carries the cursor encoding.
\<close>

definition is_digit :: "char \<Rightarrow> bool" where
  "is_digit c \<longleftrightarrow> 48 \<le> byte_of c \<and> byte_of c \<le> 57"

definition digit_value :: "char \<Rightarrow> nat" where
  "digit_value c = byte_of c - 48"

definition digit_char :: "nat \<Rightarrow> char" where
  "digit_char d = char_of (48 + d)"

text \<open>The value of a string of decimal digits, most significant first.\<close>

fun digits_acc :: "nat \<Rightarrow> gostring \<Rightarrow> nat" where
  "digits_acc a [] = a"
| "digits_acc a (c # s) = digits_acc (10 * a + digit_value c) s"

abbreviation err_syntax :: gerror where
  "err_syntax \<equiv> NewError ''invalid syntax''"

abbreviation err_range :: gerror where
  "err_range \<equiv> NewError ''value out of range''"

text \<open>\<open>strconv.ParseUint(s, 10, 64)\<close> without its overflow test, which \<open>ParseInt\<close> subsumes.\<close>

definition parse_digits :: "gostring \<Rightarrow> nat option" where
  "parse_digits s = (if s \<noteq> [] \<and> list_all is_digit s then Some (digits_acc 0 s) else None)"

text \<open>\<open>strconv.ParseInt(s, 10, bits)\<close>: one optional sign, then digits, then the range test.\<close>

definition split_sign :: "gostring \<Rightarrow> bool \<times> gostring" where
  "split_sign s = (case s of
       [] \<Rightarrow> (False, [])
     | c # rest \<Rightarrow> if c = CHR ''-'' then (True, rest)
                   else if c = CHR ''+'' then (False, rest) else (False, s))"

definition ParseInt :: "nat \<Rightarrow> gostring \<Rightarrow> gerror + int" where
  "ParseInt bits s =
     (if s = [] then Inl err_syntax
      else let (neg, ds) = split_sign s in
        case parse_digits ds of
          None \<Rightarrow> Inl err_syntax
        | Some n \<Rightarrow>
            if \<not> neg \<and> 2 ^ (bits - 1) \<le> n then Inl err_range
            else if neg \<and> 2 ^ (bits - 1) < n then Inl err_range
            else Inr (if neg then - int n else int n))"

text \<open>\<open>strconv.Atoi\<close> on a 64-bit platform.\<close>

definition Atoi :: "gostring \<Rightarrow> gerror + int" where
  "Atoi s = ParseInt 64 s"

fun decimal :: "nat \<Rightarrow> gostring" where
  "decimal n = (if n < 10 then [digit_char n] else decimal (n div 10) @ [digit_char (n mod 10)])"

declare decimal.simps [simp del]

text \<open>\<open>strconv.FormatInt(i, 10)\<close>.\<close>

definition FormatInt :: "int \<Rightarrow> gostring" where
  "FormatInt i = (if i < 0 then CHR ''-'' # decimal (nat (- i)) else decimal (nat i))"

definition ParseBool :: "gostring \<Rightarrow> gerror + bool" where
  "ParseBool s =
     (if s \<in> {''1'', ''t'', ''T'', ''TRUE'', ''true'', ''True''} then Inr True
      else if s \<in> {''0'', ''f'', ''F'', ''FALSE'', ''false'', ''False''} then Inr False
      else Inl err_syntax)"

lemma byte_of_digit_char: "d < 10 \<Longrightarrow> byte_of (digit_char d) = 48 + d"
  by (simp add: digit_char_def of_char_of)

lemma is_digit_digit_char: "d < 10 \<Longrightarrow> is_digit (digit_char d)"
  by (simp add: is_digit_def byte_of_digit_char)

lemma digit_value_digit_char [simp]: "d < 10 \<Longrightarrow> digit_value (digit_char d) = d"
  by (simp add: digit_value_def byte_of_digit_char)

lemma digits_acc_append: "digits_acc a (s @ t) = digits_acc (digits_acc a s) t"
  by (induction a s rule: digits_acc.induct) auto

lemma decimal_digits: "list_all is_digit (decimal n)"
  by (induction n rule: decimal.induct) (subst decimal.simps, auto simp: is_digit_digit_char)

lemma decimal_nonempty: "decimal n \<noteq> []"
  by (subst decimal.simps) simp

lemma decimal_value: "digits_acc 0 (decimal n) = n"
proof (induction n rule: decimal.induct)
  case (1 n)
  show ?case
  proof (cases "n < 10")
    case True
    then show ?thesis by (subst decimal.simps) simp
  next
    case False
    with "1.IH" show ?thesis by (subst decimal.simps) (simp add: digits_acc_append)
  qed
qed

lemma parse_decimal: "parse_digits (decimal n) = Some n"
  by (simp add: parse_digits_def decimal_digits decimal_nonempty decimal_value)

lemma decimal_no_sign: "split_sign (decimal n) = (False, decimal n)"
proof (cases "decimal n")
  case (Cons c s)
  with decimal_digits [of n] have "is_digit c" by simp
  then have "c \<noteq> CHR ''-''" "c \<noteq> CHR ''+''" by (auto simp: is_digit_def)
  with Cons show ?thesis by (simp add: split_sign_def)
qed (simp add: decimal_nonempty)

lemma FormatInt_nonempty: "FormatInt i \<noteq> []"
  by (simp add: FormatInt_def decimal_nonempty)

lemma FormatInt_chars: "c \<in> set (FormatInt i) \<Longrightarrow> c = CHR ''-'' \<or> is_digit c"
  using decimal_digits by (auto simp: FormatInt_def list_all_iff split: if_splits)

lemma ParseInt_FormatInt:
  assumes "0 < bits" "- (2 ^ (bits - 1)) \<le> i" "i < 2 ^ (bits - 1)"
  shows "ParseInt bits (FormatInt i) = Inr i"
proof (cases "i < 0")
  case True
  then have "nat (- i) \<le> 2 ^ (bits - 1)" using assms(2) by (simp add: nat_le_iff)
  with True show ?thesis
    by (simp add: ParseInt_def FormatInt_def split_sign_def parse_decimal)
next
  case False
  then have "nat i < 2 ^ (bits - 1)" using assms(3) by (simp add: nat_less_iff)
  with False show ?thesis
    by (simp add: ParseInt_def FormatInt_def decimal_nonempty decimal_no_sign parse_decimal)
qed

lemma ParseInt_bounds:
  assumes "ParseInt bits s = Inr i"
  shows "- (2 ^ (bits - 1)) \<le> i \<and> i < 2 ^ (bits - 1)"
proof -
  obtain neg ds where "split_sign s = (neg, ds)" by fastforce
  with assms obtain n :: nat where n: "\<not> neg \<Longrightarrow> n < 2 ^ (bits - 1)" "neg \<Longrightarrow> n \<le> 2 ^ (bits - 1)"
    "i = (if neg then - int n else int n)"
    by (auto simp: ParseInt_def Let_def not_le not_less split: if_splits option.splits)
  have "int n < 2 ^ (bits - 1)" if "\<not> neg"
    using n(1) [OF that] by (metis of_nat_less_iff of_nat_numeral of_nat_power)
  moreover have "int n \<le> 2 ^ (bits - 1)" if "neg"
    using n(2) [OF that] by (metis of_nat_le_iff of_nat_numeral of_nat_power)
  moreover have "(0::int) < 2 ^ (bits - 1)" by simp
  ultimately show ?thesis unfolding n(3) by (cases neg; simp only: if_True if_False; linarith)
qed

text \<open>The 64-bit identifiers of the program, printed and read back.\<close>

lemma ParseInt_FormatInt_sint: "ParseInt 64 (FormatInt (sint (x :: int64))) = Inr (sint x)"
  using sint_int64_bounds [of x] by (intro ParseInt_FormatInt) simp_all

end
