(* ===== verification/Go_Time.thy ===== *)
theory Go_Time
  imports Go_Strconv "HOL-Library.Monad_Syntax"
begin

text \<open>
  What the program uses of Go's \<open>time\<close>: instants with a zone offset, the proleptic Gregorian
  calendar, and formatting and parsing with the layout \<open>RFC3339Nano\<close>
  (\<open>2006-01-02T15:04:05.999999999Z07:00\<close>). An instant is the number of nanoseconds since
  January 1 of year 1, UTC, which is Go's zero time; Go keeps it as seconds and nanoseconds, and
  no value of the program comes near the ends of that range. The main fact is the round trip of
  formatting and parsing for the years 0 to 9999.
\<close>

record gotime =
  instant :: int
  zone_offset :: int

definition zero_time :: gotime where
  "zero_time = \<lparr>instant = 0, zone_offset = 0\<rparr>"

definition IsZero :: "gotime \<Rightarrow> bool" where
  "IsZero t \<longleftrightarrow> instant t = 0"

definition UTC :: "gotime \<Rightarrow> gotime" where
  "UTC t = t\<lparr>zone_offset := 0\<rparr>"

lemma UTC_simps [simp]: "instant (UTC t) = instant t" "zone_offset (UTC t) = 0"
  by (simp_all add: UTC_def)

lemma IsZero_UTC [simp]: "IsZero (UTC t) = IsZero t"
  by (simp add: IsZero_def)

lemma UTC_UTC [simp]: "UTC (UTC t) = UTC t"
  by (simp add: UTC_def)

abbreviation second_ns :: int where
  "second_ns \<equiv> 1000000000"

section \<open>The calendar\<close>

definition is_leap :: "int \<Rightarrow> bool" where
  "is_leap y \<longleftrightarrow> y mod 4 = 0 \<and> (y mod 100 \<noteq> 0 \<or> y mod 400 = 0)"

text \<open>Days from January 1 of year 1 to January 1 of year \<open>y\<close>.\<close>

definition days_before_year :: "int \<Rightarrow> int" where
  "days_before_year y = 365 * (y - 1) + (y - 1) div 4 - (y - 1) div 100 + (y - 1) div 400"

text \<open>The year of a day number and the day within it, by 400-, 100-, 4- and 1-year cycles.\<close>

definition year_and_day :: "int \<Rightarrow> int \<times> int" where
  "year_and_day d =
     (let n400 = d div 146097; r400 = d mod 146097;
          n100 = min 3 (r400 div 36524); r100 = r400 - 36524 * n100;
          n4 = r100 div 1461; r4 = r100 mod 1461;
          n1 = min 3 (r4 div 365)
      in (400 * n400 + 100 * n100 + 4 * n4 + n1 + 1, r4 - 365 * n1))"

definition days_before_month :: "bool \<Rightarrow> int \<Rightarrow> int" where
  "days_before_month leap m =
     [0, 31, 59, 90, 120, 151, 181, 212, 243, 273, 304, 334] ! nat (m - 1)
     + (if leap \<and> 2 < m then 1 else 0)"

definition days_in_month :: "bool \<Rightarrow> int \<Rightarrow> int" where
  "days_in_month leap m =
     [31, 28, 31, 30, 31, 30, 31, 31, 30, 31, 30, 31] ! nat (m - 1)
     + (if leap \<and> m = 2 then 1 else 0)"

definition month_of :: "bool \<Rightarrow> int \<Rightarrow> int" where
  "month_of leap yday =
     last (filter (\<lambda>m. days_before_month leap m \<le> yday) [1, 2, 3, 4, 5, 6, 7, 8, 9, 10, 11, 12])"

lemma div_bounds: "0 < (k :: int) \<Longrightarrow> k * (x div k) \<le> x \<and> x < k * (x div k) + k"
  using mult_div_mod_eq [of k x] pos_mod_sign [of k x] pos_mod_bound [of k x] by linarith

lemma year_and_day_correct:
  assumes "year_and_day d = (y, k)"
  shows "days_before_year y + k = d" "0 \<le> k" "k \<le> 365" "k = 365 \<Longrightarrow> is_leap y"
proof -
  define a where "a = d div 146097"
  define r where "r = d mod 146097"
  define b where "b = min 3 (r div 36524)"
  define s where "s = r - 36524 * b"
  define c where "c = s div 1461"
  define t where "t = s mod 1461"
  define e where "e = min 3 (t div 365)"
  have "year_and_day d = (400 * a + 100 * b + 4 * c + e + 1, t - 365 * e)"
    unfolding year_and_day_def Let_def a_def r_def b_def s_def c_def t_def e_def by (rule refl)
  with assms have y: "y = 400 * a + 100 * b + 4 * c + e + 1" and k: "k = t - 365 * e"
    by simp_all
  have d: "d = 146097 * a + r" "0 \<le> r" "r < 146097" by (simp_all add: a_def r_def)
  have b: "0 \<le> b" "b \<le> 3" using d(2) by (auto simp: b_def pos_imp_zdiv_nonneg_iff)
  have s: "0 \<le> s" "s \<le> 36524" "b < 3 \<Longrightarrow> s < 36524"
  proof -
    obtain u where u: "b = min 3 u" "36524 * u \<le> r" "r < 36524 * u + 36524"
      using div_bounds [of 36524 r] by (auto simp: b_def)
    then show "0 \<le> s" "s \<le> 36524" "b < 3 \<Longrightarrow> s < 36524"
      using d(3) by (auto simp: s_def min_def split: if_splits)
  qed
  have st: "s = 1461 * c + t" "0 \<le> t" "t < 1461" by (simp_all add: c_def t_def)
  have c: "0 \<le> c" "c \<le> 24" using st s(1,2) by linarith+
  have e: "0 \<le> e" "e \<le> 3" using st(2) by (auto simp: e_def pos_imp_zdiv_nonneg_iff)
  have te: "365 * e \<le> t" "t \<le> 365 * e + 365" "t = 365 * e + 365 \<Longrightarrow> e = 3"
  proof -
    obtain u where u: "e = min 3 u" "365 * u \<le> t" "t < 365 * u + 365"
      using div_bounds [of 365 t] by (auto simp: e_def)
    then show "365 * e \<le> t" "t \<le> 365 * e + 365" "t = 365 * e + 365 \<Longrightarrow> e = 3"
      using st(3) by (auto simp: min_def split: if_splits)
  qed
  have y': "y - 1 = 4 * (100 * a + 25 * b + c) + e"
    "y - 1 = 100 * (4 * a + b) + (4 * c + e)" "y - 1 = 400 * a + (100 * b + 4 * c + e)"
    using y by simp_all
  have small: "4 * c + e < 100" "100 * b + 4 * c + e < 400" "e < 4" using b c e by linarith+
  have q4: "(y - 1) div 4 = 100 * a + 25 * b + c" using y'(1) e(1) small(3) by (rule int_div_pos_eq)
  have q100: "(y - 1) div 100 = 4 * a + b" by (rule int_div_pos_eq [OF y'(2)]) (use c e small in linarith)+
  have q400: "(y - 1) div 400 = a" by (rule int_div_pos_eq [OF y'(3)]) (use b c e small in linarith)+
  show "days_before_year y + k = d"
    unfolding days_before_year_def q4 q100 q400 using y k d(1) st(1) by (simp add: s_def)
  show "0 \<le> k" "k \<le> 365" using te k by linarith+
  show "k = 365 \<Longrightarrow> is_leap y"
  proof -
    assume "k = 365"
    then have e3: "e = 3" and t: "t = 1460" using te k by linarith+
    have y4: "y = 4 * (100 * a + 25 * b + c + 1)" using y e3 by simp
    show "is_leap y"
    proof (cases "c = 24")
      case True
      then have "b = 3" using s(3) st t b(2) by linarith
      with y4 True have "y = 400 * (a + 1)" by simp
      then show ?thesis by (simp add: is_leap_def)
    next
      case False
      with c(2) have "c < 24" by simp
      with c(1) have "0 \<le> 4 * c + 4" "4 * c + 4 < 100" by simp_all
      moreover have "y = 100 * (4 * a + b) + (4 * c + 4)" using y4 by simp
      ultimately have "y mod 100 = 4 * c + 4" by (intro int_mod_pos_eq)
      with y4 c show ?thesis by (simp add: is_leap_def)
    qed
  qed
qed

lemma month_intervals:
  assumes "0 \<le> (k :: int)" "k < 365 + (if leap then 1 else 0)"
  obtains m where "m \<in> {1, 2, 3, 4, 5, 6, 7, 8, 9, 10, 11, 12}"
    "days_before_month leap m \<le> k" "k < days_before_month leap m + days_in_month leap m"
proof -
  have "\<exists>m \<in> {1, 2, 3, 4, 5, 6, 7, 8, 9, 10, 11, 12}.
      days_before_month leap m \<le> k \<and> k < days_before_month leap m + days_in_month leap m"
    using assms by (simp add: days_before_month_def days_in_month_def split: if_splits) arith+
  then show ?thesis using that by blast
qed

lemma month_of_interval:
  assumes "m \<in> {1, 2, 3, 4, 5, 6, 7, 8, 9, 10, 11, 12}"
    and "days_before_month leap m \<le> k" "k < days_before_month leap m + days_in_month leap m"
  shows "month_of leap k = m"
  using assms by (cases leap)
    (elim insertE; simp add: month_of_def days_before_month_def days_in_month_def)+

lemma month_of_correct:
  assumes "0 \<le> k" "k < 365 + (if leap then 1 else 0)"
  shows "1 \<le> month_of leap k" "month_of leap k \<le> 12"
    "days_before_month leap (month_of leap k) \<le> k"
    "k < days_before_month leap (month_of leap k) + days_in_month leap (month_of leap k)"
proof -
  obtain m where m: "m \<in> {1, 2, 3, 4, 5, 6, 7, 8, 9, 10, 11, 12}"
    "days_before_month leap m \<le> k" "k < days_before_month leap m + days_in_month leap m"
    by (rule month_intervals [OF assms])
  with month_of_interval [OF m] show "1 \<le> month_of leap k" "month_of leap k \<le> 12"
    "days_before_month leap (month_of leap k) \<le> k"
    "k < days_before_month leap (month_of leap k) + days_in_month leap (month_of leap k)"
    by auto
qed

section \<open>Formatting\<close>

text \<open>\<open>appendInt(b, n, width)\<close>: decimal, padded with zeros on the left.\<close>

definition append_int :: "nat \<Rightarrow> int \<Rightarrow> gostring" where
  "append_int w n =
     (let ds = decimal (nat \<bar>n\<bar>)
      in (if n < 0 then ''-'' else []) @ replicate (w - length ds) (CHR ''0'') @ ds)"

text \<open>The nine digits of the nanoseconds, without trailing zeros and without a lone point.\<close>

fun fixed_digits :: "nat \<Rightarrow> nat \<Rightarrow> gostring" where
  "fixed_digits 0 n = []"
| "fixed_digits (Suc w) n = fixed_digits w (n div 10) @ [digit_char (n mod 10)]"

definition strip_zeros :: "gostring \<Rightarrow> gostring" where
  "strip_zeros s = rev (dropWhile (\<lambda>c. c = CHR ''0'') (rev s))"

definition append_nano :: "nat \<Rightarrow> gostring" where
  "append_nano ns =
     (let ds = strip_zeros (fixed_digits 9 ns) in if ds = [] then [] else CHR ''.'' # ds)"

definition append_zone :: "int \<Rightarrow> gostring" where
  "append_zone off =
     (if off = 0 then ''Z''
      else let zone = \<bar>off\<bar> div 60
        in (if 0 < off \<or> zone = 0 then ''+'' else ''-'')
           @ append_int 2 (zone div 60) @ '':'' @ append_int 2 (zone mod 60))"

text \<open>\<open>t.Date()\<close> and \<open>t.Year()\<close> in the location of \<open>t\<close>.\<close>

definition local_second :: "gotime \<Rightarrow> int" where
  "local_second t = instant t div second_ns + zone_offset t"

definition Year :: "gotime \<Rightarrow> int" where
  "Year t = fst (year_and_day (local_second t div 86400))"

definition Format_RFC3339Nano :: "gotime \<Rightarrow> gostring" where
  "Format_RFC3339Nano t =
     (let s = local_second t; sod = s mod 86400;
          (y, k) = year_and_day (s div 86400);
          m = month_of (is_leap y) k
      in append_int 4 y @ ''-'' @ append_int 2 m @ ''-''
         @ append_int 2 (k - days_before_month (is_leap y) m + 1) @ ''T''
         @ append_int 2 (sod div 3600) @ '':'' @ append_int 2 (sod div 60 mod 60) @ '':''
         @ append_int 2 (sod mod 60)
         @ append_nano (nat (instant t mod second_ns)) @ append_zone (zone_offset t))"

section \<open>Parsing\<close>

text \<open>
  \<open>time.Parse(time.RFC3339Nano, v)\<close>. Go first tries a strict parser and then the general one;
  the strict one accepts a subset with the same results, so the general one is modelled: an hour
  may have one digit, the fraction may start with a comma, have any number of digits (the first
  nine count) or be absent.
\<close>

definition expect_char :: "char \<Rightarrow> gostring \<Rightarrow> gostring option" where
  "expect_char c s = (case s of [] \<Rightarrow> None | x # r \<Rightarrow> if x = c then Some r else None)"

definition guard_opt :: "bool \<Rightarrow> unit option" where
  "guard_opt b = (if b then Some () else None)"

definition get_num :: "bool \<Rightarrow> gostring \<Rightarrow> (nat \<times> gostring) option" where
  "get_num fixed s = (case s of
       [] \<Rightarrow> None
     | a # r \<Rightarrow> if \<not> is_digit a then None
         else (case r of
             b # r' \<Rightarrow> if is_digit b then Some (10 * digit_value a + digit_value b, r')
                       else if fixed then None else Some (digit_value a, r)
           | [] \<Rightarrow> if fixed then None else Some (digit_value a, [])))"

definition get_year :: "gostring \<Rightarrow> (nat \<times> gostring) option" where
  "get_year s =
     (if 4 \<le> length s \<and> list_all is_digit (take 4 s) then Some (digits_acc 0 (take 4 s), drop 4 s)
      else None)"

definition get_fraction :: "gostring \<Rightarrow> nat \<times> gostring" where
  "get_fraction s = (case s of
       x # d # r \<Rightarrow>
         if (x = CHR ''.'' \<or> x = CHR '','') \<and> is_digit d
         then (let ds = takeWhile is_digit (d # r); ds9 = take 9 ds
               in (digits_acc 0 ds9 * 10 ^ (9 - length ds9), dropWhile is_digit (d # r)))
         else (0, s)
     | _ \<Rightarrow> (0, s))"

definition get_zone :: "gostring \<Rightarrow> (int \<times> gostring) option" where
  "get_zone s = (case s of
       [] \<Rightarrow> None
     | x # r \<Rightarrow>
         if x = CHR ''Z'' then Some (0, r)
         else if x = CHR ''+'' \<or> x = CHR ''-'' then
           do {
             (hh, r1) \<leftarrow> get_num True r;
             r2 \<leftarrow> expect_char (CHR '':'') r1;
             (mm, r3) \<leftarrow> get_num True r2;
             _ \<leftarrow> guard_opt (hh \<le> 24 \<and> mm \<le> 60);
             Some ((if x = CHR ''-'' then -1 else 1) * (int hh * 3600 + int mm * 60), r3)
           }
         else None)"

definition parse_RFC3339Nano :: "gostring \<Rightarrow> gotime option" where
  "parse_RFC3339Nano v0 = do {
     (y, v1) \<leftarrow> get_year v0;
     v2 \<leftarrow> expect_char (CHR ''-'') v1;
     (mo, v3) \<leftarrow> get_num True v2;
     _ \<leftarrow> guard_opt (1 \<le> mo \<and> mo \<le> 12);
     v4 \<leftarrow> expect_char (CHR ''-'') v3;
     (d, v5) \<leftarrow> get_num True v4;
     v6 \<leftarrow> expect_char (CHR ''T'') v5;
     (h, v7) \<leftarrow> get_num False v6;
     _ \<leftarrow> guard_opt (h < 24);
     v8 \<leftarrow> expect_char (CHR '':'') v7;
     (mi, v9) \<leftarrow> get_num True v8;
     _ \<leftarrow> guard_opt (mi < 60);
     v10 \<leftarrow> expect_char (CHR '':'') v9;
     (se, v11) \<leftarrow> get_num True v10;
     _ \<leftarrow> guard_opt (se < 60);
     (let (ns, v12) = get_fraction v11 in do {
       (off, v13) \<leftarrow> get_zone v12;
       _ \<leftarrow> guard_opt (v13 = []);
       _ \<leftarrow> guard_opt (1 \<le> d \<and> int d \<le> days_in_month (is_leap (int y)) (int mo));
       (let days = days_before_year (int y) + days_before_month (is_leap (int y)) (int mo) + int d - 1;
            secs = days * 86400 + int h * 3600 + int mi * 60 + int se - off
        in Some \<lparr>instant = secs * second_ns + int ns, zone_offset = off\<rparr>)
     })
   }"

definition Parse_RFC3339Nano :: "gostring \<Rightarrow> gerror + gotime" where
  "Parse_RFC3339Nano v = (case parse_RFC3339Nano v of
       None \<Rightarrow> Inl (NewError ''cannot parse time'')
     | Some t \<Rightarrow> Inr t)"

section \<open>Round trip\<close>

lemma digit_char_0: "digit_char 0 = CHR ''0''"
  by code_simp

lemma decimal_single: "n < 10 \<Longrightarrow> decimal n = [digit_char n]"
  by (subst decimal.simps) simp

lemma decimal_step: "10 \<le> n \<Longrightarrow> decimal n = decimal (n div 10) @ [digit_char (n mod 10)]"
  by (subst decimal.simps) simp

text \<open>Padding to a width that the number does not exceed gives its fixed-width digits.\<close>

lemma padded_decimal:
  "0 < w \<Longrightarrow> n < 10 ^ w \<Longrightarrow>
     replicate (w - length (decimal n)) (CHR ''0'') @ decimal n = fixed_digits w n"
proof (induction w arbitrary: n)
  case (Suc w)
  show ?case
  proof (cases "n < 10")
    case True
    have "fixed_digits w 0 = replicate w (CHR ''0'')" by (induction w) (auto simp: digit_char_0 replicate_append_same)
    with True show ?thesis by (simp add: decimal_single)
  next
    case False
    then have "0 < w" using Suc.prems by (cases w) auto
    moreover from Suc.prems have "n div 10 < 10 ^ w" by (simp add: less_mult_imp_div_less mult.commute)
    ultimately have "replicate (w - length (decimal (n div 10))) (CHR ''0'') @ decimal (n div 10) = fixed_digits w (n div 10)"
      by (rule Suc.IH)
    with False show ?thesis by (simp add: decimal_step [of n])
  qed
qed simp

lemma append_int_fixed:
  assumes "0 < w" "0 \<le> n" "n < 10 ^ w"
  shows "append_int w n = fixed_digits w (nat n)"
proof -
  from assms have "nat n < 10 ^ w" by (simp add: nat_less_iff)
  with assms padded_decimal [of w "nat n"] show ?thesis by (simp add: append_int_def Let_def)
qed

lemma fixed_digits_length [simp]: "length (fixed_digits w n) = w"
  by (induction w n rule: fixed_digits.induct) auto

lemma fixed_digits_is_digit: "list_all is_digit (fixed_digits w n)"
  by (induction w n rule: fixed_digits.induct) (auto simp: is_digit_digit_char)

lemma fixed_digits_value: "n < 10 ^ w \<Longrightarrow> digits_acc 0 (fixed_digits w n) = n"
proof (induction w n rule: fixed_digits.induct)
  case (2 w n)
  then have "n div 10 < 10 ^ w" by (simp add: less_mult_imp_div_less mult.commute)
  with "2.IH" show ?case by (simp add: digits_acc_append)
qed simp

lemma get_num_fixed_digits:
  assumes "n < 100"
  shows "get_num f (fixed_digits 2 n @ r) = Some (n, r)"
proof -
  have "fixed_digits 2 n = [digit_char (n div 10), digit_char (n mod 10)]"
    using assms by (simp add: numeral_2_eq_2)
  moreover have "n div 10 < 10" using assms by simp
  ultimately show ?thesis by (simp add: get_num_def is_digit_digit_char)
qed

lemma get_num_append_int:
  assumes "0 \<le> n" "n < 100"
  shows "get_num f (append_int 2 n @ r) = Some (nat n, r)"
proof -
  have "append_int 2 n = fixed_digits 2 (nat n)" by (rule append_int_fixed) (use assms in auto)
  moreover have "nat n < 100" using assms by simp
  ultimately show ?thesis by (simp add: get_num_fixed_digits)
qed

lemma get_year_append_int:
  assumes "0 \<le> y" "y < 10000"
  shows "get_year (append_int 4 y @ r) = Some (nat y, r)"
proof -
  have "append_int 4 y = fixed_digits 4 (nat y)" by (rule append_int_fixed) (use assms in auto)
  moreover have "digits_acc 0 (fixed_digits 4 (nat y)) = nat y"
    by (rule fixed_digits_value) (use assms in simp)
  ultimately show ?thesis by (simp add: get_year_def fixed_digits_is_digit)
qed

lemma strip_zeros_split: "\<exists>j. s = strip_zeros s @ replicate j (CHR ''0'')"
proof -
  let ?P = "\<lambda>c. c = CHR ''0''"
  have "rev s = takeWhile ?P (rev s) @ dropWhile ?P (rev s)" by simp
  then have "s = strip_zeros s @ rev (takeWhile ?P (rev s))"
    unfolding strip_zeros_def by (metis rev_append rev_rev_ident)
  moreover obtain j where "takeWhile ?P (rev s) = replicate j (CHR ''0'')"
    using replicate_length_same [of "takeWhile ?P (rev s)" "CHR ''0''"] set_takeWhileD [of _ ?P "rev s"]
    by metis
  ultimately show ?thesis by auto
qed

lemma digits_acc_zeros: "digits_acc a (replicate j (CHR ''0'')) = a * 10 ^ j"
  by (induction j arbitrary: a) (auto simp: digit_value_def)

lemma get_fraction_append_nano:
  assumes "n < 10 ^ 9" "r = [] \<or> \<not> is_digit (hd r) \<and> hd r \<noteq> CHR ''.'' \<and> hd r \<noteq> CHR '',''"
  shows "get_fraction (append_nano n @ r) = (n, r)"
proof -
  let ?ds = "strip_zeros (fixed_digits 9 n)"
  obtain j where j: "fixed_digits 9 n = ?ds @ replicate j (CHR ''0'')" using strip_zeros_split by blast
  have len: "length ?ds + j = 9"
    by (metis j fixed_digits_length length_append length_replicate)
  have val: "digits_acc 0 ?ds * 10 ^ j = n"
    using fixed_digits_value [OF assms(1)] arg_cong [OF j, of "digits_acc 0"]
    by (simp add: digits_acc_append digits_acc_zeros)
  have dig: "list_all is_digit ?ds" using fixed_digits_is_digit [of 9 n] by (subst (asm) j) simp
  show ?thesis
  proof (cases ?ds)
    case Nil
    then show ?thesis using val assms(2)
      by (auto simp: append_nano_def get_fraction_def split: list.splits)
  next
    case (Cons d ds)
    have "takeWhile is_digit (?ds @ r) = ?ds" "dropWhile is_digit (?ds @ r) = r"
      using dig assms(2) by (auto simp: list_all_iff takeWhile_append dropWhile_append takeWhile_eq_Nil_iff
          dropWhile_eq_self_iff)
    moreover have "8 - length ds = j" using len Cons by simp
    ultimately show ?thesis using Cons dig len val
      by (simp add: append_nano_def get_fraction_def Let_def)
  qed
qed

lemma expect_char_Cons [simp]: "expect_char c (c # r) = Some r"
  by (simp add: expect_char_def)

lemma guard_opt_True [simp]: "b \<Longrightarrow> guard_opt b = Some ()"
  by (simp add: guard_opt_def)

lemma time_of_day:
  fixes s :: int
  shows "0 \<le> s mod 86400 div 3600" "s mod 86400 div 3600 < 24"
    "0 \<le> s mod 86400 div 60 mod 60" "s mod 86400 div 60 mod 60 < 60"
    "0 \<le> s mod 86400 mod 60" "s mod 86400 mod 60 < 60"
    "s div 86400 * 86400 + s mod 86400 div 3600 * 3600
       + s mod 86400 div 60 mod 60 * 60 + s mod 86400 mod 60 = s"
proof -
  define d where "d = s mod 86400"
  have d: "0 \<le> d" "d < 86400" by (simp_all add: d_def)
  have h: "d div 3600 = d div 60 div 60" by (simp add: zdiv_zmult2_eq [symmetric])
  have "d div 60 div 60 * 60 + d div 60 mod 60 = d div 60" by simp
  then have "d div 3600 * 3600 + d div 60 mod 60 * 60 + d mod 60 = d"
    using div_mult_mod_eq [of d 60] unfolding h by linarith
  then show "s div 86400 * 86400 + s mod 86400 div 3600 * 3600
       + s mod 86400 div 60 mod 60 * 60 + s mod 86400 mod 60 = s"
    using div_mult_mod_eq [of s 86400] unfolding d_def [symmetric] by linarith
  show "s mod 86400 div 3600 < 24" "0 \<le> s mod 86400 div 3600"
    using d unfolding d_def by simp_all
qed simp_all

lemma days_in_month_bound: "1 \<le> m \<Longrightarrow> m \<le> 12 \<Longrightarrow> days_in_month leap m \<le> 31"
  by (cases leap) (auto simp: days_in_month_def nth_Cons' split: if_splits)

lemma parse_fields:
  assumes "0 \<le> y" "y < 10000" "1 \<le> m" "m \<le> 12" "1 \<le> d" "d \<le> days_in_month (is_leap y) m"
    "0 \<le> h" "h < 24" "0 \<le> mi" "mi < 60" "0 \<le> se" "se < 60" "n < 10 ^ 9"
  shows "parse_RFC3339Nano (append_int 4 y @ ''-'' @ append_int 2 m @ ''-'' @ append_int 2 d @ ''T''
      @ append_int 2 h @ '':'' @ append_int 2 mi @ '':'' @ append_int 2 se @ append_nano n @ ''Z'')
    = Some \<lparr>instant = ((days_before_year y + days_before_month (is_leap y) m + d - 1) * 86400
        + h * 3600 + mi * 60 + se) * second_ns + int n, zone_offset = 0\<rparr>"
proof -
  have "d < 100" using assms(3,4,6) days_in_month_bound [of m "is_leap y"] by linarith
  moreover have "1 \<le> nat d" "nat m \<le> 12" "1 \<le> nat m" "nat h < 24" "nat mi < 60" "nat se < 60"
    using assms by simp_all
  moreover have "get_fraction (append_nano n @ ''Z'') = (n, ''Z'')"
    by (rule get_fraction_append_nano) (use assms in \<open>simp_all add: is_digit_def\<close>)
  ultimately show ?thesis
    using assms
    by (simp add: parse_RFC3339Nano_def get_year_append_int get_num_append_int get_zone_def)
qed

text \<open>
  An instant in UTC whose year has at most four digits survives formatting and parsing, to the
  nanosecond.
\<close>

lemma parse_Format_RFC3339Nano:
  assumes off: "zone_offset t = 0" and year: "0 \<le> Year t" "Year t \<le> 9999"
  shows "parse_RFC3339Nano (Format_RFC3339Nano t) = Some t"
proof -
  define s where "s = instant t div second_ns"
  obtain y k where yk: "year_and_day (s div 86400) = (y, k)" by fastforce
  define m where "m = month_of (is_leap y) k"
  define d where "d = k - days_before_month (is_leap y) m + 1"
  note correct = year_and_day_correct [OF yk]
  have k: "0 \<le> k" "k < 365 + (if is_leap y then 1 else 0)"
  proof -
    show "0 \<le> k" by (rule correct(2))
    have "k \<noteq> 365" if "\<not> is_leap y" using correct(4) that by blast
    with correct(3) show "k < 365 + (if is_leap y then 1 else 0)" by (cases "is_leap y") force+
  qed
  note m = month_of_correct [OF k, folded m_def]
  have y: "0 \<le> y" "y < 10000" using year yk off by (simp_all add: Year_def local_second_def s_def)
  have d: "1 \<le> d" "d \<le> days_in_month (is_leap y) m" using m unfolding d_def by linarith+
  note tod = time_of_day [of s]
  have ns: "nat (instant t mod second_ns) < 10 ^ 9" by simp
  have secs: "(days_before_year y + days_before_month (is_leap y) m + d - 1) * 86400
      + s mod 86400 div 3600 * 3600 + s mod 86400 div 60 mod 60 * 60 + s mod 86400 mod 60 = s"
    using correct(1) tod(7) unfolding d_def by (simp add: algebra_simps)
  have "int (nat (instant t mod second_ns)) = instant t mod second_ns" by simp
  then have inst: "s * second_ns + int (nat (instant t mod second_ns)) = instant t"
    unfolding s_def by (simp only: div_mult_mod_eq)
  have fmt: "Format_RFC3339Nano t =
      append_int 4 y @ ''-'' @ append_int 2 m @ ''-'' @ append_int 2 d @ ''T''
        @ append_int 2 (s mod 86400 div 3600) @ '':'' @ append_int 2 (s mod 86400 div 60 mod 60) @ '':''
        @ append_int 2 (s mod 86400 mod 60) @ append_nano (nat (instant t mod second_ns)) @ ''Z''"
    using off yk by (simp add: Format_RFC3339Nano_def Let_def local_second_def append_zone_def
        flip: s_def m_def d_def)
  have "parse_RFC3339Nano (Format_RFC3339Nano t) = Some \<lparr>instant = instant t, zone_offset = 0\<rparr>"
    unfolding fmt parse_fields [OF y m(1,2) d tod(1-6) ns] secs inst by (rule refl)
  also have "\<lparr>instant = instant t, zone_offset = 0\<rparr> = t" using off by (cases t) (simp only: gotime.simps)
  finally show ?thesis .
qed

lemma Parse_Format_RFC3339Nano:
  "zone_offset t = 0 \<Longrightarrow> 0 \<le> Year t \<Longrightarrow> Year t \<le> 9999 \<Longrightarrow>
     Parse_RFC3339Nano (Format_RFC3339Nano t) = Inr t"
  by (simp add: Parse_RFC3339Nano_def parse_Format_RFC3339Nano)

text \<open>The formatted time consists of digits and a few punctuation characters.\<close>

lemma append_int_chars: "c \<in> set (append_int w n) \<Longrightarrow> c = CHR ''-'' \<or> is_digit c"
  using decimal_digits [of "nat \<bar>n\<bar>"]
  by (auto simp: append_int_def Let_def list_all_iff is_digit_def split: if_splits)

lemma append_nano_chars: "c \<in> set (append_nano n) \<Longrightarrow> c = CHR ''.'' \<or> is_digit c"
  using fixed_digits_is_digit [of 9 n]
  by (auto simp: append_nano_def Let_def strip_zeros_def list_all_iff split: if_splits
      dest!: set_dropWhileD)

lemma append_zone_chars:
  "c \<in> set (append_zone n) \<Longrightarrow> c \<in> {CHR ''Z'', CHR ''+'', CHR ''-'', CHR '':''} \<or> is_digit c"
  by (auto simp: append_zone_def Let_def split: if_splits dest!: append_int_chars)

lemma Format_chars:
  assumes "c \<in> set (Format_RFC3339Nano t)"
  shows "c \<in> {CHR ''-'', CHR ''T'', CHR '':'', CHR ''.'', CHR ''Z'', CHR ''+''} \<or> is_digit c"
  using assms
  by (auto simp: Format_RFC3339Nano_def Let_def split: prod.splits
      dest!: append_int_chars append_nano_chars append_zone_chars)

lemma Format_no_bar: "CHR ''|'' \<notin> set (Format_RFC3339Nano t)"
  using Format_chars [of "CHR ''|''" t] by (auto simp: is_digit_def)

section \<open>Years of instants\<close>

lemma days_before_year_mono:
  assumes "y \<le> z"
  shows "days_before_year y \<le> days_before_year z"
proof -
  define n m where "n = y - 1" and "m = z - 1"
  have le: "n \<le> m" using assms by (simp add: n_def m_def)
  have "n div 4 \<le> m div 4" "n div 400 \<le> m div 400" using le by (simp_all add: zdiv_mono1)
  moreover have "m div 100 \<le> n div 100 + (m - n)"
  proof (cases "n = m")
    case False
    define a b where "a = m div 100" and "b = n div 100"
    have "100 * a \<le> m" using div_bounds [of 100 m] by (simp add: a_def)
    moreover have "n < 100 * b + 100" using div_bounds [of 100 n] by (simp add: b_def)
    ultimately show ?thesis using le False unfolding a_def [symmetric] b_def [symmetric] by linarith
  qed simp
  ultimately have "365 * n + n div 4 - n div 100 + n div 400 \<le> 365 * m + m div 4 - m div 100 + m div 400"
    using le by linarith
  then show ?thesis by (simp add: days_before_year_def n_def m_def)
qed

text \<open>The instants from the zero time up to the year 10000 have a year from 1 to 9999.\<close>

lemma Year_bounds:
  assumes "zone_offset t = 0" "0 \<le> instant t" "instant t < days_before_year 10000 * 86400 * second_ns"
  shows "1 \<le> Year t \<and> Year t \<le> 9999"
proof -
  define s d where "s = instant t div second_ns" and "d = s div 86400"
  have s: "second_ns * s \<le> instant t" "instant t < second_ns * s + second_ns"
    using div_bounds [of second_ns "instant t"] by (simp_all add: s_def)
  have d: "86400 * d \<le> s" "s < 86400 * d + 86400"
    using div_bounds [of 86400 s] by (simp_all add: d_def)
  have "0 \<le> d" using assms(2) s d by linarith
  moreover have "d < days_before_year 10000"
  proof (rule ccontr)
    assume "\<not> d < days_before_year 10000"
    then have "86400 * days_before_year 10000 \<le> s" using d(1) by linarith
    then have "days_before_year 10000 * 86400 * second_ns \<le> second_ns * s" by simp
    with s(1) assms(3) show False by linarith
  qed
  moreover obtain y k where yk: "year_and_day d = (y, k)" by fastforce
  moreover note year_and_day_correct [OF yk]
  moreover have "y \<le> 0 \<Longrightarrow> days_before_year y \<le> -366"
    using days_before_year_mono [of y 0] by (simp add: days_before_year_def)
  moreover have "10000 \<le> y \<Longrightarrow> days_before_year 10000 \<le> days_before_year y"
    by (rule days_before_year_mono)
  ultimately have "1 \<le> y \<and> y \<le> 9999" by linarith
  moreover have "Year t = y"
    using yk assms(1) by (simp add: Year_def local_second_def s_def d_def)
  ultimately show ?thesis by simp
qed

end
