(* ===== verification/Widget.thy ===== *)
theory Widget
  imports Go_Time
begin

text \<open>
  The widget capability (\<open>internal/widget\<close>): its data (\<open>model.go\<close>) and its use cases
  (\<open>service.go\<close>) over the \<open>Repository\<close> interface. A repository is a record of operations on a
  state of type \<open>'s\<close>; the service passes the state through. The locale \<open>widget_repository\<close> is
  the contract the use cases rely on; what the service guarantees to its callers is proved
  inside it and holds for every repository that keeps the contract.
\<close>

section \<open>Data\<close>

record Widget =
  ID :: int64
  Name :: gostring
  CreatedAt :: gotime
  UpdatedAt :: gotime

record ListCursor =
  CursorCreatedAt :: gotime
  CursorID :: int64

record ListOptions =
  Limit :: int32
  Cursor :: "ListCursor option"

record Page =
  Items :: "Widget list"
  PageLimit :: int32
  NextCursor :: "ListCursor option"

definition DefaultListLimit :: int32 where
  "DefaultListLimit = 20"

definition maximumListLimit :: int32 where
  "maximumListLimit = 100"

definition maximumNameLength :: nat where
  "maximumNameLength = 120"

section \<open>Use cases\<close>

text \<open>The \<open>Repository\<close> interface: every operation may change the state and may fail.\<close>

record 's repository =
  repo_Create :: "ctx \<Rightarrow> gostring \<Rightarrow> 's \<Rightarrow> (gerror + Widget) \<times> 's"
  repo_Get :: "ctx \<Rightarrow> int64 \<Rightarrow> 's \<Rightarrow> (gerror + Widget) \<times> 's"
  repo_List :: "ctx \<Rightarrow> ListOptions \<Rightarrow> 's \<Rightarrow> (gerror + Widget list) \<times> 's"
  repo_Delete :: "ctx \<Rightarrow> int64 \<Rightarrow> 's \<Rightarrow> (gerror + unit) \<times> 's"

text \<open>A nil repository makes the constructor panic.\<close>

definition NewService :: "'s repository option \<Rightarrow> gostring + 's repository" where
  "NewService repository = (case repository of
       None \<Rightarrow> Inl ''widget repository must not be nil''
     | Some r \<Rightarrow> Inr r)"

definition wrap_result :: "gostring \<Rightarrow> (gerror + 'a) \<times> 's \<Rightarrow> (gerror + 'a) \<times> 's" where
  "wrap_result msg r = (case r of
       (Inl e, s) \<Rightarrow> (Inl (Wrapped msg e), s)
     | (Inr v, s) \<Rightarrow> (Inr v, s))"

definition service_Create ::
  "'s repository \<Rightarrow> ctx \<Rightarrow> gostring \<Rightarrow> 's \<Rightarrow> (gerror + Widget) \<times> 's" where
  "service_Create repository c name s =
     (let name = TrimSpace name in
      if name = [] \<or> maximumNameLength < length (runes name) then (Inl ErrInvalidName, s)
      else wrap_result ''create widget'' (repo_Create repository c name s))"

definition service_Get ::
  "'s repository \<Rightarrow> ctx \<Rightarrow> int64 \<Rightarrow> 's \<Rightarrow> (gerror + Widget) \<times> 's" where
  "service_Get repository c widget_id s =
     (if sint widget_id < 1 then (Inl ErrNotFound, s)
      else wrap_result ''get widget'' (repo_Get repository c widget_id s))"

text \<open>
  The page the service cuts from the rows it asked for, one more than the requested limit:
  the surplus row only tells that there is a next page. Slicing to the limit and indexing the
  last kept item are in range on that branch, because the limit is at least 1.
\<close>

definition page_of :: "int32 \<Rightarrow> Widget list \<Rightarrow> Page" where
  "page_of requestedLimit results =
     (let page = \<lparr>Items = results, PageLimit = requestedLimit, NextCursor = None\<rparr> in
      if sint requestedLimit < int (length results)
      then let items = take (nat (sint requestedLimit)) results;
               last = items ! (length items - 1)
           in page\<lparr>Items := items,
                   NextCursor := Some \<lparr>CursorCreatedAt = CreatedAt last, CursorID = ID last\<rparr>\<rparr>
      else page)"

definition invalid_cursor :: "ListCursor option \<Rightarrow> bool" where
  "invalid_cursor cur = (case cur of
       None \<Rightarrow> False
     | Some c \<Rightarrow> sint (CursorID c) < 1 \<or> IsZero (CursorCreatedAt c))"

definition service_List ::
  "'s repository \<Rightarrow> ctx \<Rightarrow> ListOptions \<Rightarrow> 's \<Rightarrow> (gerror + Page) \<times> 's" where
  "service_List repository c options s =
     (let options = (if Limit options = 0 then options\<lparr>Limit := DefaultListLimit\<rparr> else options) in
      if sint (Limit options) < 1 \<or> sint maximumListLimit < sint (Limit options)
         \<or> invalid_cursor (Cursor options)
      then (Inl ErrInvalidPagination, s)
      else let requestedLimit = Limit options;
               options = options\<lparr>Limit := Limit options + 1\<rparr>
        in (case repo_List repository c options s of
              (Inl e, s') \<Rightarrow> (Inl (Wrapped ''list widgets'' e), s')
            | (Inr results, s') \<Rightarrow> (Inr (page_of requestedLimit results), s')))"

definition service_Delete ::
  "'s repository \<Rightarrow> ctx \<Rightarrow> int64 \<Rightarrow> 's \<Rightarrow> (gerror + unit) \<times> 's" where
  "service_Delete repository c widget_id s =
     (if sint widget_id < 1 then (Inl ErrNotFound, s)
      else wrap_result ''delete widget'' (repo_Delete repository c widget_id s))"

lemma wrap_result_simps [simp]:
  "wrap_result m (Inl e, s) = (Inl (Wrapped m e), s)"
  "wrap_result m (Inr v, s) = (Inr v, s)"
  by (simp_all add: wrap_result_def)

lemma snd_wrap_result [simp]: "snd (wrap_result m r) = snd r"
  by (auto simp: wrap_result_def split: prod.splits sum.splits)

lemma wrap_result_Inr: "wrap_result m r = (Inr v, s) \<longleftrightarrow> r = (Inr v, s)"
  by (auto simp: wrap_result_def split: prod.splits sum.splits)

lemma wrap_result_Inl: "wrap_result m r = (Inl e, s) \<longleftrightarrow> (\<exists>e'. e = Wrapped m e' \<and> r = (Inl e', s))"
  by (auto simp: wrap_result_def split: prod.splits sum.splits)

section \<open>The keyset order\<close>

text \<open>
  Rows are listed by descending creation time and, among rows created at the same instant, by
  descending identifier. A row key is that pair, ordered lexicographically. Instants are
  compared in whole microseconds, the resolution of a \<open>timestamptz\<close>, to which the driver cuts
  down every time it sends.
\<close>

definition micros :: "gotime \<Rightarrow> int" where
  "micros t = instant t div 1000"

datatype row_key = RowKey (key_time: int) (key_id: int)

instantiation row_key :: linorder
begin

definition less_eq_row_key :: "row_key \<Rightarrow> row_key \<Rightarrow> bool" where
  "less_eq_row_key a b \<longleftrightarrow> key_time a < key_time b \<or> (key_time a = key_time b \<and> key_id a \<le> key_id b)"

definition less_row_key :: "row_key \<Rightarrow> row_key \<Rightarrow> bool" where
  "less_row_key a b \<longleftrightarrow> key_time a < key_time b \<or> (key_time a = key_time b \<and> key_id a < key_id b)"

instance
  by standard (auto simp: less_eq_row_key_def less_row_key_def intro: row_key.expand)

end

definition key_of :: "Widget \<Rightarrow> row_key" where
  "key_of w = RowKey (micros (CreatedAt w)) (sint (ID w))"

definition cursor_key :: "ListCursor \<Rightarrow> row_key" where
  "cursor_key c = RowKey (micros (CursorCreatedAt c)) (sint (CursorID c))"

definition cursor_at :: "Widget \<Rightarrow> ListCursor" where
  "cursor_at w = \<lparr>CursorCreatedAt = CreatedAt w, CursorID = ID w\<rparr>"

lemma cursor_key_cursor_at [page_order, simp]: "cursor_key (cursor_at w) = key_of w"
  by (simp add: cursor_key_def cursor_at_def key_of_def)

text \<open>A listing is newest first, strictly: no key occurs twice.\<close>

definition newest_first :: "Widget list \<Rightarrow> bool" where
  "newest_first ws \<longleftrightarrow> sorted_wrt (\<lambda>a b. key_of b < key_of a) ws"

definition after_cursor :: "ListCursor option \<Rightarrow> Widget list \<Rightarrow> Widget list" where
  "after_cursor cur ws = (case cur of
       None \<Rightarrow> ws
     | Some c \<Rightarrow> filter (\<lambda>w. key_of w < cursor_key c) ws)"

section \<open>Operations as values\<close>

text \<open>One call of a use case by some client, and a sequence of calls; results are dropped.\<close>

datatype service_call =
    CallCreate gostring
  | CallGet int64
  | CallList ListOptions
  | CallDelete int64

fun run_call :: "'s repository \<Rightarrow> ctx \<Rightarrow> service_call \<Rightarrow> 's \<Rightarrow> 's" where
  "run_call repo c (CallCreate name) s = snd (service_Create repo c name s)"
| "run_call repo c (CallGet i) s = snd (service_Get repo c i s)"
| "run_call repo c (CallList opts) s = snd (service_List repo c opts s)"
| "run_call repo c (CallDelete i) s = snd (service_Delete repo c i s)"

definition run_calls :: "'s repository \<Rightarrow> ctx \<Rightarrow> service_call list \<Rightarrow> 's \<Rightarrow> 's" where
  "run_calls repo c calls s = fold (run_call repo c) calls s"

section \<open>What the use cases rely on\<close>

text \<open>
  The contract of a repository: \<open>rows s\<close> is the listing of the stored widgets, newest first,
  and \<open>inv\<close> the provider's invariant. Operations may fail; a failed read leaves the rows as they
  are, a failed write may have taken effect (its answer was lost) and promises the invariant
  only. An error that is \<open>ErrNotFound\<close> means that no row has the identifier.
\<close>

locale widget_repository =
  fixes repo :: "'s repository"
    and rows :: "'s \<Rightarrow> Widget list"
    and inv :: "'s \<Rightarrow> bool"
  assumes rows_newest_first: "inv s \<Longrightarrow> newest_first (rows s)"
    and rows_distinct: "inv s \<Longrightarrow> distinct (map ID (rows s))"
    and rows_valid: "inv s \<Longrightarrow> w \<in> set (rows s) \<Longrightarrow> 1 \<le> sint (ID w) \<and> \<not> IsZero (CreatedAt w)"
    and create_inv: "inv s \<Longrightarrow> repo_Create repo c name s = (r, s') \<Longrightarrow> inv s'"
    and create_ok: "inv s \<Longrightarrow> repo_Create repo c name s = (Inr w, s') \<Longrightarrow>
      Name w = name \<and> ID w \<notin> ID ` set (rows s) \<and> set (rows s') = insert w (set (rows s))"
    and create_keeps: "inv s \<Longrightarrow> repo_Create repo c name s = (r, s') \<Longrightarrow>
      set (rows s) \<subseteq> set (rows s')"
    and get_frame: "inv s \<Longrightarrow> repo_Get repo c i s = (rg, s') \<Longrightarrow> inv s' \<and> rows s' = rows s"
    and get_ok: "inv s \<Longrightarrow> repo_Get repo c i s = (Inr w, s') \<Longrightarrow> w \<in> set (rows s) \<and> ID w = i"
    and get_not_found: "inv s \<Longrightarrow> repo_Get repo c i s = (Inl e, s') \<Longrightarrow> errors_Is e ErrNotFound \<Longrightarrow>
      i \<notin> ID ` set (rows s)"
    and list_frame: "inv s \<Longrightarrow> repo_List repo c opts s = (rl, s') \<Longrightarrow> inv s' \<and> rows s' = rows s"
    and list_ok: "inv s \<Longrightarrow> repo_List repo c opts s = (Inr ws, s') \<Longrightarrow> 0 \<le> sint (Limit opts) \<Longrightarrow>
      ws = take (nat (sint (Limit opts))) (after_cursor (Cursor opts) (rows s))"
    and delete_inv: "inv s \<Longrightarrow> repo_Delete repo c i s = (rd, s') \<Longrightarrow> inv s'"
    and delete_keeps: "inv s \<Longrightarrow> repo_Delete repo c i s = (rd, s') \<Longrightarrow>
      {w \<in> set (rows s). ID w \<noteq> i} \<subseteq> set (rows s')"
    and delete_ok: "inv s \<Longrightarrow> repo_Delete repo c i s = (Inr u, s') \<Longrightarrow>
      i \<in> ID ` set (rows s) \<and> rows s' = filter (\<lambda>w. ID w \<noteq> i) (rows s)"
    and delete_not_found: "inv s \<Longrightarrow> repo_Delete repo c i s = (Inl e, s') \<Longrightarrow>
      errors_Is e ErrNotFound \<Longrightarrow> i \<notin> ID ` set (rows s) \<and> rows s' = rows s"

text \<open>A repository that answers: whenever it is healthy, listing succeeds and it stays so.\<close>

locale answering_repository = widget_repository repo rows inv
  for repo :: "'s repository" and rows :: "'s \<Rightarrow> Widget list" and inv :: "'s \<Rightarrow> bool" +
  fixes healthy :: "'s \<Rightarrow> bool"
  assumes list_answers: "inv s \<Longrightarrow> healthy s \<Longrightarrow> 0 \<le> sint (Limit opts) \<Longrightarrow>
      \<exists>ws s'. repo_List repo c opts s = (Inr ws, s') \<and> healthy s'"

section \<open>Pages\<close>

text \<open>The page that a listing position and a limit determine.\<close>

definition page_at :: "ListCursor option \<Rightarrow> int32 \<Rightarrow> Widget list \<Rightarrow> Page" where
  "page_at cur lim ws =
     (let rest = after_cursor cur ws; n = nat (sint lim)
      in \<lparr>Items = take n rest, PageLimit = lim,
          NextCursor = (if n < length rest then Some (cursor_at (rest ! (n - 1))) else None)\<rparr>)"

definition valid_limit :: "int32 \<Rightarrow> bool" where
  "valid_limit lim \<longleftrightarrow> 1 \<le> sint lim \<and> sint lim \<le> 100"

lemma sint_maximumListLimit [simp]: "sint maximumListLimit = 100"
  by (simp add: maximumListLimit_def)

lemma sint_Limit_succ: "valid_limit lim \<Longrightarrow> sint (lim + 1) = sint lim + 1"
proof -
  assume lim: "valid_limit lim"
  have "lim + 1 = word_of_int (sint lim + 1)" by simp
  then show ?thesis using lim by (simp only:) (subst sint_of_int32; simp add: valid_limit_def)
qed

text \<open>
  Asking for one row more than the limit and cutting the surplus off gives exactly that page.
\<close>

lemma page_of_surplus:
  assumes "valid_limit lim"
  shows "page_of lim (take (nat (sint (lim + 1))) (after_cursor cur ws)) = page_at cur lim ws"
proof -
  let ?rest = "after_cursor cur ws"
  obtain n where n: "sint lim = int n" "0 < n"
    using assms by (metis valid_limit_def zero_less_imp_eq_int not_le int_one_le_iff_zero_less
        order_less_le_trans zero_less_one)
  have m: "nat (sint (lim + 1)) = Suc n" using sint_Limit_succ [OF assms] n by simp
  show ?thesis
  proof (cases "n < length ?rest")
    case True
    then have "take n (take (Suc n) ?rest) ! (n - 1) = ?rest ! (n - 1)" using n by simp
    with True n show ?thesis
      by (simp add: page_of_def page_at_def m Let_def cursor_at_def min_absorb1)
  next
    case False
    with n show ?thesis by (simp add: page_of_def page_at_def m Let_def)
  qed
qed

text \<open>Listing positions in an ordered listing.\<close>

lemma newest_first_after_cursor [page_order]:
  "newest_first ws \<Longrightarrow> newest_first (after_cursor cur ws)"
  by (cases cur) (simp_all add: newest_first_def after_cursor_def sorted_wrt_filter)

lemma newest_first_take [page_order]: "newest_first ws \<Longrightarrow> newest_first (take n ws)"
  by (simp add: newest_first_def sorted_wrt_take)

lemma set_after_cursor_subset: "set (after_cursor cur ws) \<subseteq> set ws"
  by (cases cur) (auto simp: after_cursor_def)

lemma in_after_cursor:
  "w \<in> set (after_cursor cur ws) \<longleftrightarrow>
     w \<in> set ws \<and> (\<forall>c. cur = Some c \<longrightarrow> key_of w < cursor_key c)"
  by (cases cur) (auto simp: after_cursor_def)

lemma newest_first_nth:
  "newest_first ws \<Longrightarrow> i < j \<Longrightarrow> j < length ws \<Longrightarrow> key_of (ws ! j) < key_of (ws ! i)"
  by (simp add: newest_first_def sorted_wrt_iff_nth_less)

lemma newest_first_distinct: "newest_first ws \<Longrightarrow> distinct ws"
  by (auto simp: distinct_conv_nth neq_iff dest: newest_first_nth)

text \<open>Resuming at the \<open>i\<close>-th row of a position continues with the rows behind it.\<close>

lemma filter_below_nth:
  "newest_first ws \<Longrightarrow> i < length ws \<Longrightarrow> filter (\<lambda>w. key_of w < key_of (ws ! i)) ws = drop (Suc i) ws"
proof (induction ws arbitrary: i)
  case (Cons a ws)
  from Cons.prems(1) have ws: "newest_first ws" and a: "\<forall>w \<in> set ws. key_of w < key_of a"
    by (simp_all add: newest_first_def)
  show ?case
  proof (cases i)
    case 0
    with a show ?thesis by (simp add: filter_id_conv)
  next
    case (Suc j)
    with Cons.prems(2) have j: "j < length ws" by simp
    with a have "\<not> key_of a < key_of (ws ! j)" by (meson nth_mem order_less_asym)
    with Suc Cons.IH [OF ws j] show ?thesis by simp
  qed
qed simp

lemma after_cursor_resume:
  assumes ord: "newest_first ws" and i: "i < length (after_cursor cur ws)"
  shows "after_cursor (Some (cursor_at (after_cursor cur ws ! i))) ws = drop (Suc i) (after_cursor cur ws)"
proof -
  let ?rest = "after_cursor cur ws"
  let ?k = "key_of (?rest ! i)"
  have "?rest ! i \<in> set ?rest" using i by simp
  then have "filter (\<lambda>w. key_of w < ?k) ws = filter (\<lambda>w. key_of w < ?k) ?rest"
    by (cases cur) (auto simp: after_cursor_def intro!: filter_cong)
  also have "\<dots> = drop (Suc i) ?rest"
    by (rule filter_below_nth [OF newest_first_after_cursor [OF ord] i])
  finally show ?thesis by (simp add: after_cursor_def)
qed

section \<open>A client that follows the cursors\<close>

text \<open>
  The client asks for a page, keeps its items and asks again with the page's cursor until there
  is none. Before each request the environment may act (other clients create and delete); the
  list of its actions also bounds the number of requests, and a walk stopped by that bound is
  \<open>Unfinished\<close>.
\<close>

datatype walk = Complete "Widget list" | Unfinished "Widget list" | Failed gerror

fun walk_append :: "Widget list \<Rightarrow> walk \<Rightarrow> walk" where
  "walk_append ws (Complete vs) = Complete (ws @ vs)"
| "walk_append ws (Unfinished vs) = Unfinished (ws @ vs)"
| "walk_append ws (Failed e) = Failed e"

fun walk_items :: "walk \<Rightarrow> Widget list" where
  "walk_items (Complete vs) = vs"
| "walk_items (Unfinished vs) = vs"
| "walk_items (Failed e) = []"

fun walk_pages ::
  "'s repository \<Rightarrow> ctx \<Rightarrow> int32 \<Rightarrow> ListCursor option \<Rightarrow> ('s \<Rightarrow> 's) list \<Rightarrow> 's \<Rightarrow> walk" where
  "walk_pages repo c lim cur [] s = Unfinished []"
| "walk_pages repo c lim cur (env # envs) s =
     (case service_List repo c \<lparr>Limit = lim, Cursor = cur\<rparr> (env s) of
        (Inl e, s') \<Rightarrow> Failed e
      | (Inr page, s') \<Rightarrow>
          (case NextCursor page of
             None \<Rightarrow> Complete (Items page)
           | Some next \<Rightarrow> walk_append (Items page) (walk_pages repo c lim (Some next) envs s')))"

definition valid_cursor :: "ListCursor option \<Rightarrow> bool" where
  "valid_cursor cur \<longleftrightarrow> \<not> invalid_cursor cur"

lemma page_at_Items: "Items (page_at cur lim ws) = take (nat (sint lim)) (after_cursor cur ws)"
  by (simp add: page_at_def Let_def)

context widget_repository
begin

lemma service_List_page:
  assumes inv: "inv s" and lim: "valid_limit lim" and cur: "valid_cursor cur"
    and run: "repo_List repo c \<lparr>Limit = lim + 1, Cursor = cur\<rparr> s = (Inr ws, s')"
  shows "service_List repo c \<lparr>Limit = lim, Cursor = cur\<rparr> s = (Inr (page_at cur lim (rows s)), s')"
proof -
  have "lim \<noteq> 0" using lim by (auto simp: valid_limit_def)
  moreover have "ws = take (nat (sint (lim + 1))) (after_cursor cur (rows s))"
    using list_ok [OF inv run] lim sint_Limit_succ [OF lim] by (simp add: valid_limit_def)
  ultimately show ?thesis
    using lim cur run page_of_surplus [OF lim]
    by (simp add: service_List_def valid_limit_def valid_cursor_def)
qed

lemma service_List_Inr:
  assumes inv: "inv s" and lim: "valid_limit lim" and cur: "valid_cursor cur"
    and run: "service_List repo c \<lparr>Limit = lim, Cursor = cur\<rparr> s = (Inr page, s')"
  shows "page = page_at cur lim (rows s)" "inv s'" "rows s' = rows s"
proof -
  obtain r t where call: "repo_List repo c \<lparr>Limit = lim + 1, Cursor = cur\<rparr> s = (r, t)" by fastforce
  have "lim \<noteq> 0" using lim by (auto simp: valid_limit_def)
  then obtain ws where "r = Inr ws" "t = s'"
    using run call lim cur
    by (cases r) (auto simp: service_List_def valid_limit_def valid_cursor_def split: if_splits)
  with call have call: "repo_List repo c \<lparr>Limit = lim + 1, Cursor = cur\<rparr> s = (Inr ws, s')" by simp
  show "page = page_at cur lim (rows s)"
    using service_List_page [OF inv lim cur call] run by simp
  show "inv s'" "rows s' = rows s" using list_frame [OF inv call] by simp_all
qed

text \<open>The cursor a page ends with is one the service accepts.\<close>

lemma next_cursor_valid:
  assumes inv: "inv s" and lim: "valid_limit lim"
    and nx: "NextCursor (page_at cur lim (rows s)) = Some n"
  shows "valid_cursor (Some n)"
proof -
  let ?rest = "after_cursor cur (rows s)"
  let ?w = "?rest ! (nat (sint lim) - 1)"
  from nx have n: "n = cursor_at ?w" "nat (sint lim) < length ?rest"
    by (auto simp: page_at_def Let_def split: if_splits)
  then have "?w \<in> set (rows s)"
    using set_after_cursor_subset [of cur "rows s"] by (auto simp: subset_iff)
  then have "1 \<le> sint (ID ?w) \<and> \<not> IsZero (CreatedAt ?w)" by (rule rows_valid [OF inv])
  with n show ?thesis by (auto simp: valid_cursor_def invalid_cursor_def cursor_at_def)
qed

text \<open>
  One page against the rest of a walk: what is listed behind the next cursor is older than
  every item of the page, and every stored row behind the current cursor is on the page or
  behind the next cursor.
\<close>

lemma page_before_next:
  assumes inv: "inv s" and lim: "valid_limit lim"
    and nx: "NextCursor (page_at cur lim (rows s)) = Some n"
    and w: "w \<in> set (Items (page_at cur lim (rows s)))"
  shows "cursor_key n \<le> key_of w"
proof -
  let ?rest = "after_cursor cur (rows s)"
  let ?l = "nat (sint lim)"
  have ord: "newest_first ?rest" by (intro page_order rows_newest_first inv)
  from nx have n: "n = cursor_at (?rest ! (?l - 1))" "?l < length ?rest"
    by (auto simp: page_at_def Let_def split: if_splits)
  from w obtain i where i: "i < ?l" "w = ?rest ! i"
    using n(2) by (auto simp: page_at_Items in_set_conv_nth)
  show ?thesis
  proof (cases "i = ?l - 1")
    case True
    with i n show ?thesis by simp
  next
    case False
    with i n(2) have "i < ?l - 1" "?l - 1 < length ?rest" by simp_all
    from newest_first_nth [OF ord this] show ?thesis using i(2) n(1) by (simp add: order_less_imp_le)
  qed
qed

lemma page_complete:
  assumes inv: "inv s"
    and w: "w \<in> set (after_cursor cur (rows s))" "w \<notin> set (Items (page_at cur lim (rows s)))"
  shows "\<exists>n. NextCursor (page_at cur lim (rows s)) = Some n
    \<and> (valid_limit lim \<longrightarrow> key_of w < cursor_key n)"
proof -
  let ?rest = "after_cursor cur (rows s)"
  let ?l = "nat (sint lim)"
  have ord: "newest_first ?rest" by (intro page_order rows_newest_first inv)
  from w(1) obtain i where i: "i < length ?rest" "w = ?rest ! i" by (auto simp: in_set_conv_nth)
  have l: "?l \<le> i"
  proof (rule ccontr)
    assume "\<not> ?l \<le> i"
    with i have "w \<in> set (take ?l ?rest)" by (auto simp: in_set_conv_nth)
    with w(2) show False by (simp add: page_at_Items)
  qed
  then have "NextCursor (page_at cur lim (rows s)) = Some (cursor_at (?rest ! (?l - 1)))"
    using i by (simp add: page_at_def Let_def)
  moreover have "key_of w < key_of (?rest ! (?l - 1))" if "valid_limit lim"
  proof -
    have "0 < ?l" using that by (simp add: valid_limit_def)
    with l have "?l - 1 < i" by simp
    with i show ?thesis using newest_first_nth [OF ord] by simp
  qed
  ultimately show ?thesis by simp
qed

text \<open>
  Whatever the environment does between the requests, a walk never lists an item at or before
  its starting cursor and lists newer items first, hence no row twice.
\<close>

lemma walk_pages_ordered:
  assumes "inv s" "valid_limit lim" "valid_cursor cur"
    and "\<forall>env \<in> set envs. \<forall>t. inv t \<longrightarrow> inv (env t)"
  shows "newest_first (walk_items (walk_pages repo c lim cur envs s))
    \<and> (\<forall>w \<in> set (walk_items (walk_pages repo c lim cur envs s)).
         \<forall>k. cur = Some k \<longrightarrow> key_of w < cursor_key k)"
  using assms
proof (induction envs arbitrary: s cur)
  case Nil
  then show ?case by (simp add: newest_first_def)
next
  case (Cons env envs)
  have inv: "inv (env s)" using Cons.prems by simp
  obtain r s' where call: "service_List repo c \<lparr>Limit = lim, Cursor = cur\<rparr> (env s) = (r, s')"
    by fastforce
  show ?case
  proof (cases r)
    case (Inl e)
    with call show ?thesis by (simp add: newest_first_def)
  next
    case (Inr page)
    with call have call: "service_List repo c \<lparr>Limit = lim, Cursor = cur\<rparr> (env s) = (Inr page, s')" by simp
    note page = service_List_Inr [OF inv Cons.prems(2,3) call]
    have items: "newest_first (Items page)" "\<forall>w \<in> set (Items page). \<forall>k. cur = Some k \<longrightarrow> key_of w < cursor_key k"
      using rows_newest_first [OF inv] page(1)
      by (auto simp: page_at_Items page_order in_after_cursor dest!: in_set_takeD)
    show ?thesis
    proof (cases "NextCursor page")
      case None
      with call items show ?thesis by simp
    next
      case (Some n)
      let ?rest = "walk_pages repo c lim (Some n) envs s'"
      have "valid_cursor (Some n)"
        using next_cursor_valid [OF inv Cons.prems(2), of cur n] Some page(1) by simp
      from Cons.IH [OF page(2) Cons.prems(2) this] Cons.prems(4)
      have rest: "newest_first (walk_items ?rest)" "\<forall>w \<in> set (walk_items ?rest). key_of w < cursor_key n"
        by simp_all
      have older: "cursor_key n \<le> key_of v" if "v \<in> set (Items page)" for v
        using page_before_next [OF inv Cons.prems(2)] Some page(1) that by blast
      have bound: "\<forall>k. cur = Some k \<longrightarrow> cursor_key n < cursor_key k"
      proof -
        have "Items page \<noteq> []" using Some page(1) Cons.prems(2)
          by (auto simp: page_at_def Let_def valid_limit_def split: if_splits)
        then obtain v where "v \<in> set (Items page)" by (cases "Items page") auto
        with older [of v] items(2) show ?thesis by (auto intro: order_le_less_trans)
      qed
      have all: "newest_first (Items page @ walk_items ?rest)"
        using items(1) rest older by (force simp: newest_first_def sorted_wrt_append)
      have less: "\<forall>w \<in> set (Items page @ walk_items ?rest). \<forall>k. cur = Some k \<longrightarrow> key_of w < cursor_key k"
        using items(2) rest(2) bound by (auto intro: order_less_trans)
      show ?thesis using call Some all less by (cases ?rest) (auto simp: newest_first_def)
    qed
  qed
qed

text \<open>
  A row that is stored whenever a page is requested, and lies behind the starting cursor, is
  listed by every walk that completes.
\<close>

lemma walk_pages_covers:
  assumes "inv s" "valid_limit lim" "valid_cursor cur"
    and "\<forall>env \<in> set envs. \<forall>t. inv t \<and> w \<in> set (rows t) \<longrightarrow> inv (env t) \<and> w \<in> set (rows (env t))"
    and "w \<in> set (rows s)" "\<forall>k. cur = Some k \<longrightarrow> key_of w < cursor_key k"
    and "walk_pages repo c lim cur envs s = Complete ws"
  shows "w \<in> set ws"
  using assms
proof (induction envs arbitrary: s cur ws)
  case (Cons env envs)
  have inv: "inv (env s)" and stored: "w \<in> set (rows (env s))" using Cons.prems(1,4,5) by auto
  obtain page s' where call: "service_List repo c \<lparr>Limit = lim, Cursor = cur\<rparr> (env s) = (Inr page, s')"
    using Cons.prems(7) by (auto split: prod.splits sum.splits)
  note page = service_List_Inr [OF inv Cons.prems(2,3) call]
  have after: "w \<in> set (after_cursor cur (rows (env s)))"
    using stored Cons.prems(6) by (simp add: in_after_cursor)
  show ?case
  proof (cases "w \<in> set (Items page)")
    case True
    with call Cons.prems(7) show ?thesis
      by (cases "walk_pages repo c lim (NextCursor page) envs s'")
        (auto split: option.splits elim: walk_append.elims)
  next
    case False
    from page_complete [OF inv after] False page(1) Cons.prems(2)
    obtain n where n: "NextCursor page = Some n" "key_of w < cursor_key n" by auto
    obtain vs where vs: "walk_pages repo c lim (Some n) envs s' = Complete vs" "ws = Items page @ vs"
      using Cons.prems(7) call n by (auto elim: walk_append.elims)
    have "valid_cursor (Some n)"
      using next_cursor_valid [OF inv Cons.prems(2), of cur n] n(1) page(1) by simp
    then have "w \<in> set vs"
      using Cons.IH [OF page(2) Cons.prems(2) _ _ _ _ vs(1)] Cons.prems(4) stored page(3) n(2) by auto
    with vs(2) show ?thesis by simp
  qed
qed simp

text \<open>The use cases keep the provider's invariant, whatever their result.\<close>

lemma service_Create_inv: "inv s \<Longrightarrow> service_Create repo c name s = (r, s') \<Longrightarrow> inv s'"
  using create_inv [of s c "TrimSpace name"]
  by (cases "repo_Create repo c (TrimSpace name) s")
    (auto simp: service_Create_def Let_def wrap_result_def split: if_splits sum.splits)

lemma service_Get_frame:
  "inv s \<Longrightarrow> service_Get repo c i s = (r, s') \<Longrightarrow> inv s' \<and> rows s' = rows s"
  using get_frame [of s c i]
  by (cases "repo_Get repo c i s")
    (auto simp: service_Get_def wrap_result_def split: if_splits sum.splits)

lemma service_List_frame:
  "inv s \<Longrightarrow> service_List repo c opts s = (r, s') \<Longrightarrow> inv s' \<and> rows s' = rows s"
  using list_frame [of s c]
  by (auto simp: service_List_def Let_def split: if_splits sum.splits prod.splits)

lemma service_Delete_inv: "inv s \<Longrightarrow> service_Delete repo c i s = (r, s') \<Longrightarrow> inv s'"
  using delete_inv [of s c i]
  by (cases "repo_Delete repo c i s")
    (auto simp: service_Delete_def wrap_result_def split: if_splits sum.splits)

text \<open>Creating removes no row, and deleting removes at most the row with its identifier.\<close>

lemma service_Create_keeps:
  "inv s \<Longrightarrow> service_Create repo c name s = (r, s') \<Longrightarrow> w \<in> set (rows s) \<Longrightarrow> w \<in> set (rows s')"
  using create_keeps [of s c "TrimSpace name"]
  by (cases "repo_Create repo c (TrimSpace name) s")
    (auto simp: service_Create_def Let_def wrap_result_def split: if_splits sum.splits)

lemma service_Delete_keeps:
  "inv s \<Longrightarrow> service_Delete repo c i s = (r, s') \<Longrightarrow> w \<in> set (rows s) \<Longrightarrow> ID w \<noteq> i \<Longrightarrow> w \<in> set (rows s')"
  using delete_keeps [of s c i]
  by (cases "repo_Delete repo c i s")
    (auto simp: service_Delete_def wrap_result_def split: if_splits sum.splits)

text \<open>What the use cases do to the stored rows.\<close>

lemma service_Create_stores:
  assumes "inv s" "service_Create repo c name s = (Inr w, s')"
  shows "Name w = TrimSpace name" "ID w \<notin> ID ` set (rows s)" "set (rows s') = insert w (set (rows s))"
proof -
  have "repo_Create repo c (TrimSpace name) s = (Inr w, s')"
    using assms(2) by (auto simp: service_Create_def Let_def wrap_result_Inr split: if_splits)
  from create_ok [OF assms(1) this]
  show "Name w = TrimSpace name" "ID w \<notin> ID ` set (rows s)" "set (rows s') = insert w (set (rows s))"
    by simp_all
qed

lemma service_Get_stored:
  assumes "inv s" "service_Get repo c i s = (Inr w, s')"
  shows "w \<in> set (rows s)" "ID w = i"
proof -
  have "repo_Get repo c i s = (Inr w, s')"
    using assms(2) by (auto simp: service_Get_def wrap_result_Inr split: if_splits)
  from get_ok [OF assms(1) this] show "w \<in> set (rows s)" "ID w = i" by simp_all
qed

lemma service_Delete_removes:
  assumes "inv s" "service_Delete repo c i s = (Inr u, s')"
  shows "i \<in> ID ` set (rows s)" "rows s' = filter (\<lambda>w. ID w \<noteq> i) (rows s)"
proof -
  have "repo_Delete repo c i s = (Inr u, s')"
    using assms(2) by (auto simp: service_Delete_def wrap_result_Inr split: if_splits)
  from delete_ok [OF assms(1) this]
  show "i \<in> ID ` set (rows s)" "rows s' = filter (\<lambda>w. ID w \<noteq> i) (rows s)" by simp_all
qed

text \<open>Reading back: an identifier determines the widget.\<close>

lemma stored_unique:
  "inv s \<Longrightarrow> v \<in> set (rows s) \<Longrightarrow> w \<in> set (rows s) \<Longrightarrow> ID v = ID w \<Longrightarrow> v = w"
  using rows_distinct [of s] by (auto simp: distinct_map inj_on_def)

lemma get_after_create:
  assumes inv: "inv s" and create: "service_Create repo c name s = (Inr w, s1)"
    and get: "service_Get repo c (ID w) s1 = (Inr v, s2)"
  shows "v = w"
proof -
  have inv1: "inv s1" using inv create by (rule service_Create_inv)
  note got = service_Get_stored [OF inv1 get]
  have "w \<in> set (rows s1)" using service_Create_stores(3) [OF inv create] by simp
  from stored_unique [OF inv1 got(1) this got(2)] show ?thesis .
qed

lemma get_after_delete:
  assumes inv: "inv s" and delete: "service_Delete repo c i s = (Inr u, s1)"
  shows "\<exists>e s2. service_Get repo c i s1 = (Inl e, s2)"
proof -
  obtain r s2 where get: "service_Get repo c i s1 = (r, s2)" by fastforce
  show ?thesis
  proof (cases r)
    case (Inr v)
    with get have "service_Get repo c i s1 = (Inr v, s2)" by simp
    from service_Get_stored [OF service_Delete_inv [OF inv delete] this]
      service_Delete_removes(2) [OF inv delete] show ?thesis by simp
  qed (use get in auto)
qed

text \<open>Every sequence of calls keeps the invariant, and every stored row no call deletes.\<close>

lemma run_call_inv: "inv s \<Longrightarrow> inv (run_call repo c call s)"
  by (cases call)
    (auto simp: prod.collapse intro: service_Create_inv [OF _ prod.collapse [symmetric]]
      service_Delete_inv [OF _ prod.collapse [symmetric]]
      service_Get_frame [OF _ prod.collapse [symmetric], THEN conjunct1]
      service_List_frame [OF _ prod.collapse [symmetric], THEN conjunct1])

lemma run_call_keeps:
  assumes "inv s" "w \<in> set (rows s)" "call \<noteq> CallDelete (ID w)"
  shows "w \<in> set (rows (run_call repo c call s))"
proof (cases call)
  case (CallCreate name)
  with service_Create_keeps [OF assms(1) prod.collapse [symmetric] assms(2)] show ?thesis by simp
next
  case (CallGet i)
  with service_Get_frame [OF assms(1) prod.collapse [symmetric]] assms(2) show ?thesis by simp
next
  case (CallList opts)
  with service_List_frame [OF assms(1) prod.collapse [symmetric]] assms(2) show ?thesis by simp
next
  case (CallDelete i)
  with service_Delete_keeps [OF assms(1) prod.collapse [symmetric] assms(2)] assms(3) show ?thesis by auto
qed

lemma run_calls_inv: "inv s \<Longrightarrow> inv (run_calls repo c calls s)"
  unfolding run_calls_def by (induction calls arbitrary: s) (auto intro: run_call_inv)

lemma run_calls_keeps:
  "inv s \<Longrightarrow> w \<in> set (rows s) \<Longrightarrow> CallDelete (ID w) \<notin> set calls \<Longrightarrow>
     w \<in> set (rows (run_calls repo c calls s))"
  unfolding run_calls_def
proof (induction calls arbitrary: s)
  case (Cons call calls)
  from Cons.prems have "inv (run_call repo c call s)" "w \<in> set (rows (run_call repo c call s))"
    by (auto intro: run_call_inv run_call_keeps)
  with Cons show ?case by simp
qed simp

end

context answering_repository
begin

text \<open>
  On a repository that answers and does not change between the requests, enough requests list
  exactly the rows behind the cursor, in order: each request takes \<open>lim\<close> rows.
\<close>

lemma walk_pages_static:
  assumes "inv s" "healthy s" "valid_limit lim" "valid_cursor cur"
    and "0 < n" "length (after_cursor cur (rows s)) \<le> n * nat (sint lim)"
  shows "walk_pages repo c lim cur (replicate n (\<lambda>t. t)) s = Complete (after_cursor cur (rows s))"
  using assms
proof (induction n arbitrary: s cur)
  case (Suc n)
  let ?rest = "after_cursor cur (rows s)"
  let ?l = "nat (sint lim)"
  obtain ws s' where run: "repo_List repo c \<lparr>Limit = lim + 1, Cursor = cur\<rparr> s = (Inr ws, s')"
    and healthy: "healthy s'"
    using list_answers [OF Suc.prems(1,2), of "\<lparr>Limit = lim + 1, Cursor = cur\<rparr>" c]
      sint_Limit_succ [OF Suc.prems(3)] Suc.prems(3) by (auto simp: valid_limit_def)
  note call = service_List_page [OF Suc.prems(1,3,4) run]
  have inv: "inv s'" and same: "rows s' = rows s" using list_frame [OF Suc.prems(1) run] by simp_all
  show ?case
  proof (cases "?l < length ?rest")
    case False
    with call show ?thesis by (simp add: page_at_def Let_def)
  next
    case True
    have l: "0 < ?l" using Suc.prems(3) by (simp add: valid_limit_def)
    define k where "k = cursor_at (?rest ! (?l - 1))"
    have nx: "NextCursor (page_at cur lim (rows s)) = Some k"
      using True by (simp add: page_at_def Let_def k_def)
    have drop: "after_cursor (Some k) (rows s') = drop ?l ?rest"
      using after_cursor_resume [OF rows_newest_first [OF Suc.prems(1)], of "?l - 1" cur] True l
      by (simp add: k_def same)
    have n: "0 < n" "length (after_cursor (Some k) (rows s')) \<le> n * ?l"
      using Suc.prems(6) True by (auto simp: drop intro: Nat.gr0I)
    have "valid_cursor (Some k)" by (rule next_cursor_valid [OF Suc.prems(1,3) nx])
    from Suc.IH [OF inv healthy Suc.prems(3) this n]
    show ?thesis using call nx by (simp add: drop page_at_Items)
  qed
qed simp

end

end
