(* ===== verification/Widget_Dbgen.thy ===== *)
theory Widget_Dbgen
  imports Widget
begin

text \<open>
  The generated query layer (\<open>internal/widget/widgetpostgres/dbgen\<close>). The driver is the
  interface \<open>DBTX\<close>: three operations on a state of type \<open>'s\<close> that take an SQL text and its
  arguments. The queries send their SQL texts, copied from the source, and scan the returned
  columns. What PostgreSQL does with the texts is the contract of the next theory.
\<close>

section \<open>Driver interface\<close>

text \<open>Column and argument values of the types the queries use.\<close>

datatype sqlval =
    SqlInt8 int64
  | SqlInt4 int32
  | SqlText gostring
  | SqlTimestamptz gotime

text \<open>\<open>pgx.Rows\<close>: the rows \<open>Next\<close> delivers and the error \<open>Err\<close> reports after the last one.\<close>

record pgx_rows =
  rows_values :: "sqlval list list"
  rows_Err :: "gerror option"

text \<open>
  \<open>Exec\<close> answers with the number of affected rows of its command tag; \<open>QueryRow\<close> stands for
  the call and its \<open>Scan\<close>, which reports a missing row as \<open>pgx.ErrNoRows\<close>.
\<close>

record 's DBTX =
  Exec :: "ctx \<Rightarrow> gostring \<Rightarrow> sqlval list \<Rightarrow> 's \<Rightarrow> (gerror + int64) \<times> 's"
  Query :: "ctx \<Rightarrow> gostring \<Rightarrow> sqlval list \<Rightarrow> 's \<Rightarrow> (gerror + pgx_rows) \<times> 's"
  QueryRow :: "ctx \<Rightarrow> gostring \<Rightarrow> sqlval list \<Rightarrow> 's \<Rightarrow> (gerror + sqlval list) \<times> 's"

record 's Queries =
  queries_db :: "'s DBTX"

definition dbgen_New :: "'s DBTX \<Rightarrow> 's Queries" where
  "dbgen_New db = \<lparr>queries_db = db\<rparr>"

definition WithTx :: "'s Queries \<Rightarrow> 's DBTX \<Rightarrow> 's Queries" where
  "WithTx q tx = \<lparr>queries_db = tx\<rparr>"

record DbWidget =
  row_ID :: int64
  row_Name :: gostring
  row_CreatedAt :: gotime
  row_UpdatedAt :: gotime

section \<open>SQL texts\<close>

abbreviation nl :: gostring where
  "nl \<equiv> [CHR 0x0A]"

definition createWidget :: gostring where
  "createWidget = ''-- name: CreateWidget :one'' @ nl
     @ ''INSERT INTO widgets (name)'' @ nl
     @ ''VALUES ($1)'' @ nl
     @ ''RETURNING id, name, created_at, updated_at'' @ nl"

definition deleteWidget :: gostring where
  "deleteWidget = ''-- name: DeleteWidget :execrows'' @ nl
     @ ''DELETE FROM widgets'' @ nl
     @ ''WHERE id = $1'' @ nl"

definition getWidget :: gostring where
  "getWidget = ''-- name: GetWidget :one'' @ nl
     @ ''SELECT id, name, created_at, updated_at'' @ nl
     @ ''FROM widgets'' @ nl
     @ ''WHERE id = $1'' @ nl"

definition listWidgets :: gostring where
  "listWidgets = ''-- name: ListWidgets :many'' @ nl
     @ ''SELECT id, name, created_at, updated_at'' @ nl
     @ ''FROM widgets'' @ nl
     @ ''ORDER BY created_at DESC, id DESC'' @ nl
     @ ''LIMIT $1'' @ nl"

definition listWidgetsAfter :: gostring where
  "listWidgetsAfter = ''-- name: ListWidgetsAfter :many'' @ nl
     @ ''SELECT id, name, created_at, updated_at'' @ nl
     @ ''FROM widgets'' @ nl
     @ ''WHERE (created_at, id) < ($1::timestamptz, $2::bigint)'' @ nl
     @ ''ORDER BY created_at DESC, id DESC'' @ nl
     @ ''LIMIT $3'' @ nl"

lemma sql_texts_differ:
  "createWidget \<noteq> getWidget" "getWidget \<noteq> createWidget"
  "listWidgets \<noteq> listWidgetsAfter" "listWidgetsAfter \<noteq> listWidgets"
  by (simp_all add: createWidget_def getWidget_def listWidgets_def listWidgetsAfter_def)

section \<open>Queries\<close>

text \<open>\<open>Scan(&i.ID, &i.Name, &i.CreatedAt, &i.UpdatedAt)\<close>.\<close>

fun scan_widget :: "sqlval list \<Rightarrow> gerror + DbWidget" where
  "scan_widget [SqlInt8 i, SqlText n, SqlTimestamptz a, SqlTimestamptz b] =
     Inr \<lparr>row_ID = i, row_Name = n, row_CreatedAt = a, row_UpdatedAt = b\<rparr>"
| "scan_widget _ = Inl (NewError ''cannot scan the row'')"

definition bind_result :: "(gerror + 'a) \<times> 's \<Rightarrow> ('a \<Rightarrow> gerror + 'b) \<Rightarrow> (gerror + 'b) \<times> 's" where
  "bind_result r f = (case r of
       (Inl e, s) \<Rightarrow> (Inl e, s)
     | (Inr v, s) \<Rightarrow> (f v, s))"

definition CreateWidget ::
  "'s Queries \<Rightarrow> ctx \<Rightarrow> gostring \<Rightarrow> 's \<Rightarrow> (gerror + DbWidget) \<times> 's" where
  "CreateWidget q c name s =
     bind_result (QueryRow (queries_db q) c createWidget [SqlText name] s) scan_widget"

definition DeleteWidget ::
  "'s Queries \<Rightarrow> ctx \<Rightarrow> int64 \<Rightarrow> 's \<Rightarrow> (gerror + int64) \<times> 's" where
  "DeleteWidget q c widget_id s = Exec (queries_db q) c deleteWidget [SqlInt8 widget_id] s"

definition GetWidget ::
  "'s Queries \<Rightarrow> ctx \<Rightarrow> int64 \<Rightarrow> 's \<Rightarrow> (gerror + DbWidget) \<times> 's" where
  "GetWidget q c widget_id s =
     bind_result (QueryRow (queries_db q) c getWidget [SqlInt8 widget_id] s) scan_widget"

text \<open>The loop over \<open>rows.Next()\<close>, which stops at the first row that does not scan.\<close>

fun scan_rows :: "sqlval list list \<Rightarrow> gerror + DbWidget list" where
  "scan_rows [] = Inr []"
| "scan_rows (v # vs) = (case scan_widget v of
       Inl e \<Rightarrow> Inl e
     | Inr i \<Rightarrow> (case scan_rows vs of Inl e \<Rightarrow> Inl e | Inr items \<Rightarrow> Inr (i # items)))"

definition collect_rows :: "pgx_rows \<Rightarrow> gerror + DbWidget list" where
  "collect_rows rows = (case scan_rows (rows_values rows) of
       Inl e \<Rightarrow> Inl e
     | Inr items \<Rightarrow> (case rows_Err rows of Some e \<Rightarrow> Inl e | None \<Rightarrow> Inr items))"

definition ListWidgets ::
  "'s Queries \<Rightarrow> ctx \<Rightarrow> int32 \<Rightarrow> 's \<Rightarrow> (gerror + DbWidget list) \<times> 's" where
  "ListWidgets q c limit s =
     bind_result (Query (queries_db q) c listWidgets [SqlInt4 limit] s) collect_rows"

record ListWidgetsAfterParams =
  arg_CursorCreatedAt :: gotime
  arg_CursorID :: int64
  arg_PageLimit :: int32

definition ListWidgetsAfter ::
  "'s Queries \<Rightarrow> ctx \<Rightarrow> ListWidgetsAfterParams \<Rightarrow> 's \<Rightarrow> (gerror + DbWidget list) \<times> 's" where
  "ListWidgetsAfter q c arg s =
     bind_result
       (Query (queries_db q) c listWidgetsAfter
          [SqlTimestamptz (arg_CursorCreatedAt arg), SqlInt8 (arg_CursorID arg), SqlInt4 (arg_PageLimit arg)] s)
       collect_rows"

text \<open>The columns a widget row is sent as; scanning them gives the row back.\<close>

definition row_columns :: "DbWidget \<Rightarrow> sqlval list" where
  "row_columns r =
     [SqlInt8 (row_ID r), SqlText (row_Name r), SqlTimestamptz (row_CreatedAt r), SqlTimestamptz (row_UpdatedAt r)]"

lemma scan_row_columns [simp]: "scan_widget (row_columns r) = Inr r"
  by (cases r) (simp add: row_columns_def)

lemma scan_rows_columns [simp]: "scan_rows (map row_columns rs) = Inr rs"
  by (induction rs) auto

lemma collect_rows_columns:
  "rows_values rows = map row_columns rs \<Longrightarrow> rows_Err rows = None \<Longrightarrow> collect_rows rows = Inr rs"
  by (simp add: collect_rows_def)

lemma bind_result_simps [simp]:
  "bind_result (Inl e, s) f = (Inl e, s)"
  "bind_result (Inr v, s) f = (f v, s)"
  by (simp_all add: bind_result_def)

lemma bind_result_Inr: "bind_result r f = (Inr y, s) \<longleftrightarrow> (\<exists>v. r = (Inr v, s) \<and> f v = Inr y)"
  by (auto simp: bind_result_def split: prod.splits sum.splits)

lemma bind_result_Inl:
  "bind_result r f = (Inl e, s) \<longleftrightarrow> r = (Inl e, s) \<or> (\<exists>v. r = (Inr v, s) \<and> f v = Inl e)"
  by (auto simp: bind_result_def split: prod.splits sum.splits)

lemma snd_bind_result [simp]: "snd (bind_result r f) = snd r"
  by (auto simp: bind_result_def split: prod.splits sum.splits)

end
