(* ===== verification/Widget_Postgres.thy ===== *)
theory Widget_Postgres
  imports Widget_Dbgen
begin

text \<open>
  The PostgreSQL adapter (\<open>internal/widget/widgetpostgres/repository.go\<close>) and its contract with
  the database: the locale \<open>postgres_widgets\<close> states what PostgreSQL does with the five SQL
  texts of the query layer, and the sublocale shows that the adapter then keeps the contract of
  the widget service. The reference table at the end executes the statements on the schema of
  \<open>db/migrations\<close>, with a clock and with failures injected by the environment; it interprets
  the locale, so everything the service guarantees holds for it.
\<close>

section \<open>The adapter\<close>

definition widgetFromDatabase :: "DbWidget \<Rightarrow> Widget" where
  "widgetFromDatabase row =
     \<lparr>ID = row_ID row, Name = row_Name row,
      CreatedAt = UTC (row_CreatedAt row), UpdatedAt = UTC (row_UpdatedAt row)\<rparr>"

record 's PostgresRepository =
  queries :: "'s Queries"

definition NewPostgresRepository :: "'s Queries option \<Rightarrow> gostring + 's PostgresRepository" where
  "NewPostgresRepository q = (case q of
       None \<Rightarrow> Inl ''database queries must not be nil''
     | Some q \<Rightarrow> Inr \<lparr>queries = q\<rparr>)"

definition pg_Create ::
  "'s PostgresRepository \<Rightarrow> ctx \<Rightarrow> gostring \<Rightarrow> 's \<Rightarrow> (gerror + Widget) \<times> 's" where
  "pg_Create repository c name s =
     (case CreateWidget (queries repository) c name s of
        (Inl e, s') \<Rightarrow> (Inl (Wrapped ''insert widget'' e), s')
      | (Inr row, s') \<Rightarrow> (Inr (widgetFromDatabase row), s'))"

definition pg_Get ::
  "'s PostgresRepository \<Rightarrow> ctx \<Rightarrow> int64 \<Rightarrow> 's \<Rightarrow> (gerror + Widget) \<times> 's" where
  "pg_Get repository c widget_id s =
     (case GetWidget (queries repository) c widget_id s of
        (Inl e, s') \<Rightarrow>
          if errors_Is e ErrNoRows then (Inl ErrNotFound, s')
          else (Inl (Wrapped ''select widget'' e), s')
      | (Inr row, s') \<Rightarrow> (Inr (widgetFromDatabase row), s'))"

definition pg_List ::
  "'s PostgresRepository \<Rightarrow> ctx \<Rightarrow> ListOptions \<Rightarrow> 's \<Rightarrow> (gerror + Widget list) \<times> 's" where
  "pg_List repository c options s =
     (case (case Cursor options of
              None \<Rightarrow> ListWidgets (queries repository) c (Limit options) s
            | Some cur \<Rightarrow> ListWidgetsAfter (queries repository) c
                \<lparr>arg_CursorCreatedAt = CursorCreatedAt cur, arg_CursorID = CursorID cur,
                 arg_PageLimit = Limit options\<rparr> s) of
        (Inl e, s') \<Rightarrow> (Inl (Wrapped ''select widgets'' e), s')
      | (Inr rows, s') \<Rightarrow> (Inr (map widgetFromDatabase rows), s'))"

definition pg_Delete ::
  "'s PostgresRepository \<Rightarrow> ctx \<Rightarrow> int64 \<Rightarrow> 's \<Rightarrow> (gerror + unit) \<times> 's" where
  "pg_Delete repository c widget_id s =
     (case DeleteWidget (queries repository) c widget_id s of
        (Inl e, s') \<Rightarrow> (Inl (Wrapped ''delete widget'' e), s')
      | (Inr deletedRows, s') \<Rightarrow> if deletedRows = 0 then (Inl ErrNotFound, s') else (Inr (), s'))"

text \<open>The adapter as the \<open>Repository\<close> the service consumes.\<close>

definition pg_repository :: "'s PostgresRepository \<Rightarrow> 's repository" where
  "pg_repository r =
     \<lparr>repo_Create = pg_Create r, repo_Get = pg_Get r, repo_List = pg_List r, repo_Delete = pg_Delete r\<rparr>"

definition repository_over :: "'s DBTX \<Rightarrow> 's repository" where
  "repository_over db = pg_repository \<lparr>queries = dbgen_New db\<rparr>"

section \<open>The contract with PostgreSQL\<close>

definition row_key_of :: "DbWidget \<Rightarrow> row_key" where
  "row_key_of r = RowKey (micros (row_CreatedAt r)) (sint (row_ID r))"

text \<open>\<open>ORDER BY created_at DESC, id DESC\<close>.\<close>

definition newest_rows :: "DbWidget list \<Rightarrow> DbWidget list" where
  "newest_rows rs = rev (sort_key row_key_of rs)"

definition listing :: "DbWidget list \<Rightarrow> Widget list" where
  "listing rs = map widgetFromDatabase (newest_rows rs)"

lemma key_of_widgetFromDatabase [simp]: "key_of (widgetFromDatabase r) = row_key_of r"
  by (simp add: key_of_def row_key_of_def widgetFromDatabase_def micros_def)

lemma ID_widgetFromDatabase [simp]: "ID (widgetFromDatabase r) = row_ID r"
  by (simp add: widgetFromDatabase_def)

lemma set_newest_rows [simp]: "set (newest_rows rs) = set rs"
  by (simp add: newest_rows_def)

lemma row_key_of_inject: "distinct (map row_ID rs) \<Longrightarrow> inj_on row_key_of (set rs)"
  by (auto simp: distinct_map inj_on_def row_key_of_def sint_inject)

lemma listing_newest_first:
  assumes "distinct (map row_ID rs)"
  shows "newest_first (listing rs)"
proof -
  have "distinct (map row_key_of rs)"
    using assms row_key_of_inject [OF assms] by (simp add: distinct_map)
  then have "distinct (map row_key_of (sort_key row_key_of rs))"
    by (simp add: distinct_map)
  moreover have "sorted (map row_key_of (sort_key row_key_of rs))" by simp
  ultimately have "sorted_wrt (<) (map row_key_of (sort_key row_key_of rs))"
    by (simp add: strict_sorted_iff)
  then show ?thesis
    by (simp add: newest_first_def listing_def newest_rows_def sorted_wrt_map sorted_wrt_rev)
qed

lemma distinct_newest_rows: "distinct (map f rs) \<Longrightarrow> distinct (map f (newest_rows rs))"
  by (simp add: newest_rows_def distinct_map rev_map [symmetric])

text \<open>
  The database as the query layer sees it: \<open>table s\<close> is the stored rows in no particular order
  and \<open>inv\<close> the database's invariant. Every statement may fail; a failed read leaves the table
  as it is. No driver error wraps the service's \<open>ErrNotFound\<close>.
\<close>

locale postgres_widgets =
  fixes db :: "'s DBTX"
    and "table" :: "'s \<Rightarrow> DbWidget list"
    and inv :: "'s \<Rightarrow> bool"
  assumes table_distinct: "inv s \<Longrightarrow> distinct (map row_ID (table s))"
    and table_valid: "inv s \<Longrightarrow> r \<in> set (table s) \<Longrightarrow> 1 \<le> sint (row_ID r) \<and> \<not> IsZero (row_CreatedAt r)"
    and insert_inv: "inv s \<Longrightarrow> QueryRow db c createWidget [SqlText name] s = (ri, s') \<Longrightarrow> inv s'"
    and insert_row: "inv s \<Longrightarrow> QueryRow db c createWidget [SqlText name] s = (Inr vs, s') \<Longrightarrow>
      \<exists>r. vs = row_columns r \<and> row_Name r = name \<and> row_ID r \<notin> row_ID ` set (table s)
        \<and> set (table s') = insert r (set (table s))"
    and insert_keeps: "inv s \<Longrightarrow> QueryRow db c createWidget [SqlText name] s = (ri, s') \<Longrightarrow>
      set (table s) \<subseteq> set (table s')"
    and select_frame: "inv s \<Longrightarrow> QueryRow db c getWidget [SqlInt8 i] s = (rs, s') \<Longrightarrow>
      inv s' \<and> table s' = table s"
    and select_row: "inv s \<Longrightarrow> QueryRow db c getWidget [SqlInt8 i] s = (Inr vs, s') \<Longrightarrow>
      \<exists>r \<in> set (table s). vs = row_columns r \<and> row_ID r = i"
    and select_none: "inv s \<Longrightarrow> QueryRow db c getWidget [SqlInt8 i] s = (Inl e, s') \<Longrightarrow>
      \<not> errors_Is e ErrNotFound \<and> (errors_Is e ErrNoRows \<longrightarrow> i \<notin> row_ID ` set (table s))"
    and list_frame: "inv s \<Longrightarrow> sql \<in> {listWidgets, listWidgetsAfter} \<Longrightarrow>
      Query db c sql args s = (rq, s') \<Longrightarrow> inv s' \<and> table s' = table s"
    and list_rows: "inv s \<Longrightarrow> Query db c listWidgets [SqlInt4 n] s = (Inr rows, s') \<Longrightarrow>
      0 \<le> sint n \<Longrightarrow> rows_Err rows = None \<Longrightarrow>
      rows_values rows = map row_columns (take (nat (sint n)) (newest_rows (table s)))"
    and list_rows_after: "inv s \<Longrightarrow>
      Query db c listWidgetsAfter [SqlTimestamptz t, SqlInt8 i, SqlInt4 n] s = (Inr rows, s') \<Longrightarrow>
      0 \<le> sint n \<Longrightarrow> rows_Err rows = None \<Longrightarrow>
      rows_values rows = map row_columns (take (nat (sint n))
        (filter (\<lambda>r. row_key_of r < RowKey (micros t) (sint i)) (newest_rows (table s))))"
    and delete_inv: "inv s \<Longrightarrow> Exec db c deleteWidget [SqlInt8 i] s = (rd, s') \<Longrightarrow> inv s'"
    and delete_keeps: "inv s \<Longrightarrow> Exec db c deleteWidget [SqlInt8 i] s = (rd, s') \<Longrightarrow>
      {r \<in> set (table s). row_ID r \<noteq> i} \<subseteq> set (table s')"
    and delete_rows: "inv s \<Longrightarrow> Exec db c deleteWidget [SqlInt8 i] s = (Inr m, s') \<Longrightarrow>
      (m = 0 \<longleftrightarrow> i \<notin> row_ID ` set (table s)) \<and> table s' = filter (\<lambda>r. row_ID r \<noteq> i) (table s)"
    and delete_error: "inv s \<Longrightarrow> Exec db c deleteWidget [SqlInt8 i] s = (Inl e, s') \<Longrightarrow>
      \<not> errors_Is e ErrNotFound"

lemma newest_rows_filter: "newest_rows (filter P rs) = filter P (newest_rows rs)"
  by (simp add: newest_rows_def rev_filter [symmetric] filter_sort)

lemma listing_after_cursor:
  "after_cursor cur (listing rs) =
     map widgetFromDatabase (case cur of
         None \<Rightarrow> newest_rows rs
       | Some k \<Rightarrow> filter (\<lambda>r. row_key_of r < cursor_key k) (newest_rows rs))"
  by (cases cur) (simp_all add: after_cursor_def listing_def filter_map o_def)

context postgres_widgets
begin

lemma pg_List_ok:
  assumes inv: "inv s" and run: "pg_List \<lparr>queries = dbgen_New db\<rparr> c opts s = (Inr ws, s')"
    and lim: "0 \<le> sint (Limit opts)"
  shows "ws = take (nat (sint (Limit opts))) (after_cursor (Cursor opts) (listing (table s)))"
proof (cases "Cursor opts")
  case None
  then obtain rows where q: "Query db c listWidgets [SqlInt4 (Limit opts)] s = (Inr rows, s')"
    and rs: "\<exists>rs. collect_rows rows = Inr rs \<and> ws = map widgetFromDatabase rs"
    using run by (auto simp: pg_List_def ListWidgets_def dbgen_New_def bind_result_Inr
        split: prod.splits sum.splits)
  then have "rows_Err rows = None" by (auto simp: collect_rows_def split: sum.splits option.splits)
  with list_rows [OF inv q lim] rs None show ?thesis
    by (auto simp: collect_rows_columns listing_after_cursor take_map)
next
  case (Some k)
  then obtain rows where q: "Query db c listWidgetsAfter
      [SqlTimestamptz (CursorCreatedAt k), SqlInt8 (CursorID k), SqlInt4 (Limit opts)] s = (Inr rows, s')"
    and rs: "\<exists>rs. collect_rows rows = Inr rs \<and> ws = map widgetFromDatabase rs"
    using run by (auto simp: pg_List_def ListWidgetsAfter_def dbgen_New_def bind_result_Inr
        split: prod.splits sum.splits)
  then have "rows_Err rows = None" by (auto simp: collect_rows_def split: sum.splits option.splits)
  with list_rows_after [OF inv q lim] rs Some show ?thesis
    by (auto simp: collect_rows_columns listing_after_cursor take_map cursor_key_def)
qed

lemma pg_List_frame:
  assumes inv: "inv s" and run: "pg_List \<lparr>queries = dbgen_New db\<rparr> c opts s = (r, s')"
  shows "inv s' \<and> table s' = table s"
proof -
  obtain sql args res where "sql \<in> {listWidgets, listWidgetsAfter}"
    "Query db c sql args s = (res, s')"
  proof (cases "Cursor opts")
    case None
    with run have "snd (Query db c listWidgets [SqlInt4 (Limit opts)] s) = s'"
      by (simp add: pg_List_def ListWidgets_def dbgen_New_def bind_result_def
          split: prod.splits sum.splits)
    then show ?thesis using that [of listWidgets] by (metis insertI1 prod.collapse)
  next
    case (Some k)
    with run have "snd (Query db c listWidgetsAfter
        [SqlTimestamptz (CursorCreatedAt k), SqlInt8 (CursorID k), SqlInt4 (Limit opts)] s) = s'"
      by (simp add: pg_List_def ListWidgetsAfter_def dbgen_New_def bind_result_def
          split: prod.splits sum.splits)
    then show ?thesis using that [of listWidgetsAfter] by (metis insertI1 insertI2 prod.collapse)
  qed
  then show ?thesis by (rule list_frame [OF inv])
qed

lemma pg_Create_ok:
  assumes inv: "inv s" and run: "pg_Create \<lparr>queries = dbgen_New db\<rparr> c name s = (Inr w, s')"
  shows "Name w = name \<and> ID w \<notin> ID ` set (listing (table s))
    \<and> set (listing (table s')) = insert w (set (listing (table s)))"
proof -
  obtain vs row where q: "QueryRow db c createWidget [SqlText name] s = (Inr vs, s')"
    and row: "scan_widget vs = Inr row" "w = widgetFromDatabase row"
    using run by (auto simp: pg_Create_def CreateWidget_def dbgen_New_def bind_result_Inr
        split: prod.splits sum.splits)
  from insert_row [OF inv q] row show ?thesis
    by (auto simp: listing_def image_image widgetFromDatabase_def)
qed

lemma pg_Create_inv:
  "inv s \<Longrightarrow> pg_Create \<lparr>queries = dbgen_New db\<rparr> c name s = (r, s') \<Longrightarrow> inv s'"
  using insert_inv [of s c name]
  by (auto simp: pg_Create_def CreateWidget_def dbgen_New_def bind_result_def
      split: prod.splits sum.splits)

lemma pg_Create_keeps:
  "inv s \<Longrightarrow> pg_Create \<lparr>queries = dbgen_New db\<rparr> c name s = (r, s') \<Longrightarrow>
     set (listing (table s)) \<subseteq> set (listing (table s'))"
  using insert_keeps [of s c name]
  by (auto simp: pg_Create_def CreateWidget_def dbgen_New_def bind_result_def listing_def
      split: prod.splits sum.splits)

lemma pg_Get_frame:
  "inv s \<Longrightarrow> pg_Get \<lparr>queries = dbgen_New db\<rparr> c i s = (r, s') \<Longrightarrow> inv s' \<and> table s' = table s"
  using select_frame [of s c i]
  by (auto simp: pg_Get_def GetWidget_def dbgen_New_def bind_result_def
      split: prod.splits sum.splits if_splits)

lemma pg_Get_ok:
  assumes inv: "inv s" and run: "pg_Get \<lparr>queries = dbgen_New db\<rparr> c i s = (Inr w, s')"
  shows "w \<in> set (listing (table s)) \<and> ID w = i"
proof -
  obtain vs row where q: "QueryRow db c getWidget [SqlInt8 i] s = (Inr vs, s')"
    and row: "scan_widget vs = Inr row" "w = widgetFromDatabase row"
    using run by (auto simp: pg_Get_def GetWidget_def dbgen_New_def bind_result_Inr
        split: prod.splits sum.splits if_splits)
  from select_row [OF inv q] row show ?thesis by (auto simp: listing_def)
qed

lemma pg_Get_missing:
  assumes inv: "inv s" and run: "pg_Get \<lparr>queries = dbgen_New db\<rparr> c i s = (Inl e, s')"
    and e: "errors_Is e ErrNotFound"
  shows "i \<notin> ID ` set (listing (table s))"
proof -
  obtain e' where q: "QueryRow db c getWidget [SqlInt8 i] s = (Inl e', s')" "errors_Is e' ErrNoRows"
  proof (cases "QueryRow db c getWidget [SqlInt8 i] s")
    case (Pair r t)
    show ?thesis
    proof (cases r)
      case (Inl e')
      with Pair have q: "QueryRow db c getWidget [SqlInt8 i] s = (Inl e', t)" by simp
      with run e select_none [OF inv q] show ?thesis
        by (intro that [of e']) (auto simp: pg_Get_def GetWidget_def dbgen_New_def split: if_splits)
    next
      case (Inr vs)
      with Pair have q: "QueryRow db c getWidget [SqlInt8 i] s = (Inr vs, t)" by simp
      from select_row [OF inv q] q run show ?thesis
        by (auto simp: pg_Get_def GetWidget_def dbgen_New_def)
    qed
  qed
  from select_none [OF inv q(1)] q(2) show ?thesis by (auto simp: listing_def)
qed

lemma pg_Delete_ok:
  assumes inv: "inv s" and run: "pg_Delete \<lparr>queries = dbgen_New db\<rparr> c i s = (Inr u, s')"
  shows "i \<in> ID ` set (listing (table s))
    \<and> listing (table s') = filter (\<lambda>w. ID w \<noteq> i) (listing (table s))"
proof -
  obtain m where q: "Exec db c deleteWidget [SqlInt8 i] s = (Inr m, s')" "m \<noteq> 0"
    using run by (auto simp: pg_Delete_def DeleteWidget_def dbgen_New_def
        split: prod.splits sum.splits if_splits)
  from delete_rows [OF inv q(1)] q(2) show ?thesis
    by (auto simp: listing_def newest_rows_filter filter_map o_def image_iff)
qed

lemma pg_Delete_inv:
  "inv s \<Longrightarrow> pg_Delete \<lparr>queries = dbgen_New db\<rparr> c i s = (r, s') \<Longrightarrow> inv s'"
  using delete_inv [of s c i]
  by (auto simp: pg_Delete_def DeleteWidget_def dbgen_New_def split: prod.splits sum.splits if_splits)

lemma pg_Delete_keeps:
  "inv s \<Longrightarrow> pg_Delete \<lparr>queries = dbgen_New db\<rparr> c i s = (r, s') \<Longrightarrow>
     {w \<in> set (listing (table s)). ID w \<noteq> i} \<subseteq> set (listing (table s'))"
  using delete_keeps [of s c i]
  by (fastforce simp: pg_Delete_def DeleteWidget_def dbgen_New_def listing_def
      split: prod.splits sum.splits if_splits)

lemma pg_Delete_missing:
  assumes inv: "inv s" and run: "pg_Delete \<lparr>queries = dbgen_New db\<rparr> c i s = (Inl e, s')"
    and e: "errors_Is e ErrNotFound"
  shows "i \<notin> ID ` set (listing (table s)) \<and> listing (table s') = listing (table s)"
proof -
  have q: "Exec db c deleteWidget [SqlInt8 i] s = (Inr 0, s')"
    using run e delete_error [OF inv, of c i]
    by (auto simp: pg_Delete_def DeleteWidget_def dbgen_New_def split: prod.splits sum.splits if_splits)
  from delete_rows [OF inv q] have "i \<notin> row_ID ` set (table s)"
    "table s' = filter (\<lambda>r. row_ID r \<noteq> i) (table s)" by simp_all
  moreover from this have "table s' = table s" by (auto simp: filter_id_conv)
  ultimately show ?thesis by (auto simp: listing_def)
qed

end

text \<open>The adapter keeps the service's contract, whatever database keeps PostgreSQL's.\<close>

lemma repository_over_simps [simp]:
  "repo_Create (repository_over db) = pg_Create \<lparr>queries = dbgen_New db\<rparr>"
  "repo_Get (repository_over db) = pg_Get \<lparr>queries = dbgen_New db\<rparr>"
  "repo_List (repository_over db) = pg_List \<lparr>queries = dbgen_New db\<rparr>"
  "repo_Delete (repository_over db) = pg_Delete \<lparr>queries = dbgen_New db\<rparr>"
  by (simp_all add: repository_over_def pg_repository_def)

sublocale postgres_widgets \<subseteq> adapter: widget_repository "repository_over db" "\<lambda>s. listing (table s)" inv
proof (unfold_locales, unfold repository_over_simps, goal_cases)
  case (1 s)
  then show ?case by (intro listing_newest_first table_distinct)
next
  case (2 s)
  from distinct_newest_rows [OF table_distinct [OF 2]] show ?case by (simp add: listing_def o_def)
next
  case (3 s w)
  then show ?case using table_valid by (auto simp: listing_def widgetFromDatabase_def)
next
  case (4 s c name r s')
  then show ?case by (rule pg_Create_inv)
next
  case (5 s c name w s')
  then show ?case by (rule pg_Create_ok)
next
  case (6 s c name r s')
  then show ?case by (rule pg_Create_keeps)
next
  case (7 s c i rg s')
  from pg_Get_frame [OF this] show ?case by simp
next
  case (8 s c i w s')
  then show ?case by (rule pg_Get_ok)
next
  case (9 s c i e s')
  then show ?case by (rule pg_Get_missing)
next
  case (10 s c opts rl s')
  from pg_List_frame [OF this] show ?case by simp
next
  case (11 s c opts ws s')
  then show ?case by (rule pg_List_ok)
next
  case (12 s c i rd s')
  then show ?case by (rule pg_Delete_inv)
next
  case (13 s c i rd s')
  then show ?case by (rule pg_Delete_keeps)
next
  case (14 s c i u s')
  then show ?case by (rule pg_Delete_ok)
next
  case (15 s c i e s')
  then show ?case by (rule pg_Delete_missing)
qed

end
