(* ===== verification/Go_Utf8.thy ===== *)
theory Go_Utf8
  imports Go_Strings
begin

text \<open>
  Encoding of runes (\<open>utf8.AppendRune\<close>) and its relation to the decoder of \<open>Go_Strings\<close>:
  encoding what was decoded gives the bytes back, and decoding what was encoded gives the rune
  back. The JSON encoder and decoder rest on both, and so does the fact that trimming a valid
  string leaves a valid string with no more runes.
\<close>

definition rune_bytes :: "nat list \<Rightarrow> gostring" where
  "rune_bytes bs = map char_of bs"

text \<open>\<open>utf8.ValidRune\<close>: no surrogate and at most \<open>0x10FFFF\<close>.\<close>

definition valid_rune :: "nat \<Rightarrow> bool" where
  "valid_rune r \<longleftrightarrow> r < 0xD800 \<or> (0xDFFF < r \<and> r \<le> 0x10FFFF)"

definition encode_rune :: "nat \<Rightarrow> gostring" where
  "encode_rune r =
     (let r = (if valid_rune r then r else rune_error) in
      if r < 0x80 then rune_bytes [r]
      else if r < 0x800 then rune_bytes [0xC0 + r div 0x40, 0x80 + r mod 0x40]
      else if r < 0x10000
      then rune_bytes [0xE0 + r div 0x1000, 0x80 + r div 0x40 mod 0x40, 0x80 + r mod 0x40]
      else rune_bytes [0xF0 + r div 0x40000, 0x80 + r div 0x1000 mod 0x40,
                       0x80 + r div 0x40 mod 0x40, 0x80 + r mod 0x40])"

lemma encode_rune_nonempty: "encode_rune r \<noteq> []"
  by (simp add: encode_rune_def Let_def rune_bytes_def)

lemma encode_ascii: "r < 0x80 \<Longrightarrow> encode_rune r = [char_of r]"
  by (simp add: encode_rune_def valid_rune_def rune_bytes_def)

section \<open>Encoding a decoded rune\<close>

text \<open>A byte in the range of a lead or continuation byte is its base plus its payload bits.\<close>

lemma payload_bits:
  assumes "lo \<le> (b :: nat)" "b < lo + m" "m dvd lo"
  shows "lo + b mod m = b"
proof -
  obtain x where b: "b = lo + x" using assms(1) nat_le_iff_add by blast
  from assms(3) obtain k where "lo = m * k" by (elim dvdE)
  with b assms(2) show ?thesis by simp
qed

lemma continuation_bits: "continuation c \<Longrightarrow> 0x80 + byte_of c mod 0x40 = byte_of c"
  by (rule payload_bits) (auto simp: continuation_def)

lemma join_rune_3:
  assumes "(x :: nat) < 0x40" "y < 0x40"
  shows "(a * 0x1000 + x * 0x40 + y) div 0x1000 = a"
    "(a * 0x1000 + x * 0x40 + y) div 0x40 mod 0x40 = x"
    "(a * 0x1000 + x * 0x40 + y) mod 0x40 = y"
proof -
  have low: "a * 0x1000 + x * 0x40 + y = (a * 0x40 + x) * 0x40 + y" by simp
  have high: "a * 0x1000 + x * 0x40 + y = a * 0x1000 + (x * 0x40 + y)" by simp
  have xy: "x * 0x40 + y < 0x1000" using assms by linarith
  show "(a * 0x1000 + x * 0x40 + y) div 0x1000 = a"
    unfolding high by (rule fields_div [OF xy])
  show "(a * 0x1000 + x * 0x40 + y) div 0x40 mod 0x40 = x"
    unfolding low fields_div [OF assms(2)] by (rule fields_mod [OF assms(1)])
  show "(a * 0x1000 + x * 0x40 + y) mod 0x40 = y"
    unfolding low by (rule fields_mod [OF assms(2)])
qed

lemma join_rune_4:
  assumes "(x :: nat) < 0x40" "y < 0x40" "z < 0x40"
  shows "(a * 0x40000 + x * 0x1000 + y * 0x40 + z) div 0x40000 = a"
    "(a * 0x40000 + x * 0x1000 + y * 0x40 + z) div 0x1000 mod 0x40 = x"
    "(a * 0x40000 + x * 0x1000 + y * 0x40 + z) div 0x40 mod 0x40 = y"
    "(a * 0x40000 + x * 0x1000 + y * 0x40 + z) mod 0x40 = z"
proof -
  have low: "a * 0x40000 + x * 0x1000 + y * 0x40 + z = (a * 0x40 + x) * 0x1000 + y * 0x40 + z" by simp
  have high: "a * 0x40000 + x * 0x1000 + y * 0x40 + z = a * 0x40000 + (x * 0x1000 + y * 0x40 + z)" by simp
  have xyz: "x * 0x1000 + y * 0x40 + z < 0x40000" using assms by linarith
  show "(a * 0x40000 + x * 0x1000 + y * 0x40 + z) div 0x40000 = a"
    unfolding high by (rule fields_div [OF xyz])
  show "(a * 0x40000 + x * 0x1000 + y * 0x40 + z) div 0x1000 mod 0x40 = x"
    unfolding low join_rune_3 [OF assms(2,3)] by (rule fields_mod [OF assms(1)])
  show "(a * 0x40000 + x * 0x1000 + y * 0x40 + z) div 0x40 mod 0x40 = y"
    "(a * 0x40000 + x * 0x1000 + y * 0x40 + z) mod 0x40 = z"
    unfolding low by (rule join_rune_3 [OF assms(2,3)])+
qed

lemma encode_fields_2:
  assumes "2 \<le> p" "p < 0x20" "(x :: nat) < 0x40"
  shows "encode_rune (p * 0x40 + x) = rune_bytes [0xC0 + p, 0x80 + x]" "valid_rune (p * 0x40 + x)"
proof -
  have "0x80 \<le> p * 0x40 + x" "p * 0x40 + x < 0x800" using assms by linarith+
  then show "encode_rune (p * 0x40 + x) = rune_bytes [0xC0 + p, 0x80 + x]" "valid_rune (p * 0x40 + x)"
    using fields_div [OF assms(3)] fields_mod [OF assms(3)]
    by (simp_all add: encode_rune_def valid_rune_def Let_def)
qed

lemma encode_fields_3:
  assumes "r = p * 0x1000 + x * 0x40 + y" "p < 0x10" "(x :: nat) < 0x40" "y < 0x40"
    and "p = 0 \<Longrightarrow> 0x20 \<le> x" "p = 0xD \<Longrightarrow> x < 0x20"
  shows "encode_rune r = rune_bytes [0xE0 + p, 0x80 + x, 0x80 + y]" "valid_rune r"
proof -
  have low: "0x800 \<le> r" using assms(1,5) by (cases "p = 0") linarith+
  have high: "r < 0x10000" using assms(1-4) by linarith
  show valid: "valid_rune r"
  proof (cases "p = 0xD")
    case True
    with assms(6) have "x < 0x20" by simp
    with True assms(1,4) show ?thesis by (simp add: valid_rune_def)
  next
    case False
    then consider "p < 0xD" | "0xD < p" by linarith
    then show ?thesis using assms(1-4) high by cases (simp_all add: valid_rune_def)
  qed
  show "encode_rune r = rune_bytes [0xE0 + p, 0x80 + x, 0x80 + y]"
    using low high valid join_rune_3 [OF assms(3,4), of p, folded assms(1)]
    by (simp add: encode_rune_def Let_def)
qed

lemma encode_fields_4:
  assumes "r = p * 0x40000 + x * 0x1000 + y * 0x40 + z" "p \<le> 4" "(x :: nat) < 0x40" "y < 0x40" "z < 0x40"
    and "p = 0 \<Longrightarrow> 0x10 \<le> x" "p = 4 \<Longrightarrow> x < 0x10"
  shows "encode_rune r = rune_bytes [0xF0 + p, 0x80 + x, 0x80 + y, 0x80 + z]" "valid_rune r"
proof -
  have low: "0x10000 \<le> r" using assms(1,6) by (cases "p = 0") linarith+
  have "r \<le> 0x10FFFF" using assms(1-5,7) by (cases "p = 4") linarith+
  with low show valid: "valid_rune r" by (simp add: valid_rune_def)
  show "encode_rune r = rune_bytes [0xF0 + p, 0x80 + x, 0x80 + y, 0x80 + z]"
    using low valid join_rune_4 [OF assms(3-5), of p, folded assms(1)]
    by (simp add: encode_rune_def Let_def)
qed

lemma rune_bytes_of: "map byte_of s = bs \<Longrightarrow> rune_bytes bs = s"
  by (auto simp: rune_bytes_def map_idI)

text \<open>Encoding what was decoded gives the bytes back, unless decoding failed.\<close>

lemma encode_decoded_2:
  assumes "decode_2 (byte_of c) s = (r, n)" "n \<noteq> 1" "0xC2 \<le> byte_of c" "byte_of c < 0xE0"
  shows "encode_rune r = c # take (n - 1) s \<and> valid_rune r"
proof -
  obtain c1 t where s: "s = c1 # t" "continuation c1"
    and r: "r = (byte_of c mod 0x20) * 0x40 + byte_of c1 mod 0x40" "n = 2"
    using assms(1,2) by (cases "(byte_of c, s)" rule: decode_2.cases) (auto split: if_splits)
  have b: "0xC0 + byte_of c mod 0x20 = byte_of c" by (rule payload_bits) (use assms(3,4) in auto)
  with assms(3) have "2 \<le> byte_of c mod 0x20" by linarith
  from encode_fields_2 [OF this, of "byte_of c1 mod 0x40"] show ?thesis
    using b continuation_bits [OF s(2)] by (simp add: r s(1) rune_bytes_def)
qed

lemma encode_decoded_3:
  assumes "decode_3 (byte_of c) lo hi s = (r, n)" "n \<noteq> 1" "0xE0 \<le> byte_of c" "byte_of c < 0xF0"
    and "0x80 \<le> lo" "hi \<le> 0xBF" "byte_of c = 0xE0 \<Longrightarrow> 0xA0 \<le> lo" "byte_of c = 0xED \<Longrightarrow> hi \<le> 0x9F"
  shows "encode_rune r = c # take (n - 1) s \<and> valid_rune r"
proof -
  obtain c1 c2 t where s: "s = c1 # c2 # t" "byte_between lo hi c1" "continuation c2"
    and r: "r = (byte_of c mod 0x10) * 0x1000 + (byte_of c1 mod 0x40) * 0x40 + byte_of c2 mod 0x40" "n = 3"
    using assms(1,2) by (cases "(byte_of c, lo, hi, s)" rule: decode_3.cases) (auto split: if_splits)
  have b: "0xE0 + byte_of c mod 0x10 = byte_of c" by (rule payload_bits) (use assms(3,4) in auto)
  have c1: "continuation c1" using s(2) assms(5,6) by (simp add: byte_between_def continuation_def)
  note b1 = continuation_bits [OF c1]
  have first: "byte_of c mod 0x10 = 0 \<Longrightarrow> 0x20 \<le> byte_of c1 mod 0x40"
    using b b1 assms(7) s(2) unfolding byte_between_def by linarith
  have surrogate: "byte_of c mod 0x10 = 0xD \<Longrightarrow> byte_of c1 mod 0x40 < 0x20"
    using b b1 assms(8) s(2) unfolding byte_between_def by linarith
  from encode_fields_3 [OF r(1) _ _ _ first surrogate] show ?thesis
    using b b1 continuation_bits [OF s(3)] by (simp add: r(2) s(1) rune_bytes_def)
qed

lemma encode_decoded_4:
  assumes "decode_4 (byte_of c) lo hi s = (r, n)" "n \<noteq> 1" "0xF0 \<le> byte_of c" "byte_of c \<le> 0xF4"
    and "0x80 \<le> lo" "hi \<le> 0xBF" "byte_of c = 0xF0 \<Longrightarrow> 0x90 \<le> lo" "byte_of c = 0xF4 \<Longrightarrow> hi \<le> 0x8F"
  shows "encode_rune r = c # take (n - 1) s \<and> valid_rune r"
proof -
  obtain c1 c2 c3 t where s: "s = c1 # c2 # c3 # t" "byte_between lo hi c1" "continuation c2" "continuation c3"
    and r: "r = (byte_of c mod 0x08) * 0x40000 + (byte_of c1 mod 0x40) * 0x1000
            + (byte_of c2 mod 0x40) * 0x40 + byte_of c3 mod 0x40" "n = 4"
    using assms(1,2) by (cases "(byte_of c, lo, hi, s)" rule: decode_4.cases) (auto split: if_splits)
  have b: "0xF0 + byte_of c mod 0x08 = byte_of c" by (rule payload_bits) (use assms(3,4) in auto)
  have c1: "continuation c1" using s(2) assms(5,6) by (simp add: byte_between_def continuation_def)
  note b1 = continuation_bits [OF c1]
  have top: "byte_of c mod 0x08 \<le> 4" using b assms(4) by linarith
  have first: "byte_of c mod 0x08 = 0 \<Longrightarrow> 0x10 \<le> byte_of c1 mod 0x40"
    using b b1 assms(7) s(2) unfolding byte_between_def by linarith
  have last: "byte_of c mod 0x08 = 4 \<Longrightarrow> byte_of c1 mod 0x40 < 0x10"
    using b b1 assms(8) s(2) unfolding byte_between_def by linarith
  from encode_fields_4 [OF r(1) top _ _ _ first last] show ?thesis
    using b b1 continuation_bits [OF s(3)] continuation_bits [OF s(4)]
    by (simp add: r(2) s(1) rune_bytes_def)
qed

lemma decode_2_one: "decode_2 b s = (r, 1) \<Longrightarrow> r = rune_error"
  by (cases "(b, s)" rule: decode_2.cases) (auto split: if_splits)

lemma decode_3_one: "decode_3 b lo hi s = (r, 1) \<Longrightarrow> r = rune_error"
  by (cases "(b, lo, hi, s)" rule: decode_3.cases) (auto split: if_splits)

lemma decode_4_one: "decode_4 b lo hi s = (r, 1) \<Longrightarrow> r = rune_error"
  by (cases "(b, lo, hi, s)" rule: decode_4.cases) (auto split: if_splits)

lemmas decode_one = decode_2_one decode_3_one decode_4_one

lemma decode_rune_multi:
  assumes "decode_rune (c # s) = (r, n)" "\<not> byte_of c < 0x80" "n \<noteq> 1"
  obtains "decode_2 (byte_of c) s = (r, n)" "0xC2 \<le> byte_of c" "byte_of c < 0xE0"
  | lo hi where "decode_3 (byte_of c) lo hi s = (r, n)" "0xE0 \<le> byte_of c" "byte_of c < 0xF0"
      "0x80 \<le> lo" "hi \<le> 0xBF" "byte_of c = 0xE0 \<Longrightarrow> 0xA0 \<le> lo" "byte_of c = 0xED \<Longrightarrow> hi \<le> 0x9F"
  | lo hi where "decode_4 (byte_of c) lo hi s = (r, n)" "0xF0 \<le> byte_of c" "byte_of c \<le> 0xF4"
      "0x80 \<le> lo" "hi \<le> 0xBF" "byte_of c = 0xF0 \<Longrightarrow> 0x90 \<le> lo" "byte_of c = 0xF4 \<Longrightarrow> hi \<le> 0x8F"
proof -
  consider "byte_of c < 0xC2" | "0xC2 \<le> byte_of c" "byte_of c < 0xE0" | "byte_of c = 0xE0"
    | "byte_of c = 0xED" | "0xE0 < byte_of c" "byte_of c \<noteq> 0xED" "byte_of c < 0xF0" | "byte_of c = 0xF0"
    | "0xF0 < byte_of c" "byte_of c < 0xF4" | "byte_of c = 0xF4" | "0xF4 < byte_of c"
    by linarith
  then show thesis
  proof cases
    case 2
    with assms that(1) show ?thesis by (simp add: decode_rune.simps)
  next
    case 3
    with assms show ?thesis by (intro that(2) [where lo = "0xA0" and hi = "0xBF"]) (simp_all add: decode_rune.simps)
  next
    case 4
    with assms show ?thesis by (intro that(2) [where lo = "0x80" and hi = "0x9F"]) (simp_all add: decode_rune.simps)
  next
    case 5
    with assms show ?thesis by (intro that(2) [where lo = "0x80" and hi = "0xBF"]) (simp_all add: decode_rune.simps)
  next
    case 6
    with assms show ?thesis by (intro that(3) [where lo = "0x90" and hi = "0xBF"]) (simp_all add: decode_rune.simps)
  next
    case 7
    with assms show ?thesis by (intro that(3) [where lo = "0x80" and hi = "0xBF"]) (simp_all add: decode_rune.simps)
  next
    case 8
    with assms show ?thesis by (intro that(3) [where lo = "0x80" and hi = "0x8F"]) (simp_all add: decode_rune.simps)
  qed (use assms in \<open>simp_all add: decode_rune.simps\<close>)
qed

lemma encode_decoded:
  assumes "decode_rune (c # s) = (r, n)" "r \<noteq> rune_error \<or> n \<noteq> 1"
  shows "encode_rune r = c # take (n - 1) s \<and> valid_rune r"
proof (cases "byte_of c < 0x80")
  case True
  with assms(1) show ?thesis by (auto simp: decode_rune.simps Let_def encode_ascii valid_rune_def)
next
  case False
  have "n = 1 \<Longrightarrow> r = rune_error"
    using assms(1) False by (auto simp: decode_rune.simps Let_def split: if_splits dest: decode_one [unfolded One_nat_def])
  with assms(2) have n: "n \<noteq> 1" by blast
  from assms(1) False n show ?thesis
  proof (cases rule: decode_rune_multi)
    case 1
    then show ?thesis using n by (intro encode_decoded_2)
  next
    case (2 lo hi)
    then show ?thesis using n by (intro encode_decoded_3)
  next
    case (3 lo hi)
    then show ?thesis using n by (intro encode_decoded_4)
  qed
qed

section \<open>Decoding an encoded rune\<close>

lemma byte_of_char_of: "b < 256 \<Longrightarrow> byte_of (char_of b) = b"
  by (simp add: of_char_of)

lemma add_base_mod: "p < m \<Longrightarrow> m dvd (lo :: nat) \<Longrightarrow> (lo + p) mod m = p"
  by (elim dvdE) simp

lemma decode_fields_2:
  assumes "2 \<le> p" "p < 0x20" "(x :: nat) < 0x40"
  shows "decode_rune (rune_bytes [0xC0 + p, 0x80 + x] @ s) = (p * 0x40 + x, 2)"
  using assms add_base_mod [of p "0x20" "0xC0"] add_base_mod [of x "0x40" "0x80"]
  by (simp add: decode_rune.simps rune_bytes_def byte_of_char_of continuation_def)

lemma decode_fields_3:
  assumes "p < 0x10" "(x :: nat) < 0x40" "y < 0x40"
    and "p = 0 \<Longrightarrow> 0x20 \<le> x" "p = 0xD \<Longrightarrow> x < 0x20"
  shows "decode_rune (rune_bytes [0xE0 + p, 0x80 + x, 0x80 + y] @ s) = (p * 0x1000 + x * 0x40 + y, 3)"
proof -
  note bits = add_base_mod [of p "0x10" "0xE0"] add_base_mod [of x "0x40" "0x80"] add_base_mod [of y "0x40" "0x80"]
  note defs = decode_rune.simps rune_bytes_def byte_of_char_of continuation_def byte_between_def
  consider "p = 0" | "p = 0xD" | "p \<noteq> 0" "p \<noteq> 0xD" by blast
  then show ?thesis
  proof cases
    case 1
    with assms bits show ?thesis by (simp add: defs)
  next
    case 2
    with assms bits show ?thesis by (simp add: defs)
  next
    case 3
    with assms bits show ?thesis by (simp add: defs)
  qed
qed

lemma decode_fields_4:
  assumes "p \<le> 4" "(x :: nat) < 0x40" "y < 0x40" "z < 0x40"
    and "p = 0 \<Longrightarrow> 0x10 \<le> x" "p = 4 \<Longrightarrow> x < 0x10"
  shows "decode_rune (rune_bytes [0xF0 + p, 0x80 + x, 0x80 + y, 0x80 + z] @ s)
    = (p * 0x40000 + x * 0x1000 + y * 0x40 + z, 4)"
proof -
  note bits = add_base_mod [of p "0x08" "0xF0"] add_base_mod [of x "0x40" "0x80"]
    add_base_mod [of y "0x40" "0x80"] add_base_mod [of z "0x40" "0x80"]
  note defs = decode_rune.simps rune_bytes_def byte_of_char_of continuation_def byte_between_def
  consider "p = 0" | "p = 4" | "p \<noteq> 0" "p \<noteq> 4" by blast
  then show ?thesis
  proof cases
    case 1
    with assms bits show ?thesis by (simp add: defs)
  next
    case 2
    with assms bits show ?thesis by (simp add: defs)
  next
    case 3
    with assms bits show ?thesis by (simp add: defs)
  qed
qed

lemma decode_encoded:
  assumes "valid_rune r"
  shows "decode_rune (encode_rune r @ s) = (r, length (encode_rune r))"
proof -
  consider "r < 0x80" | "0x80 \<le> r" "r < 0x800" | "0x800 \<le> r" "r < 0x10000" | "0x10000 \<le> r" by linarith
  then show ?thesis
  proof cases
    case 1
    then show ?thesis by (simp add: encode_ascii decode_rune.simps byte_of_char_of)
  next
    case 2
    obtain p x where r: "r = p * 0x40 + x" "x < 0x40"
      using div_mult_mod_eq [of r "0x40"] mod_less_divisor [of "0x40" r] by (metis zero_less_numeral)
    with 2 have p: "2 \<le> p" "p < 0x20" by linarith+
    from encode_fields_2 [OF p r(2)] decode_fields_2 [OF p r(2)] show ?thesis
      by (simp add: r(1) rune_bytes_def)
  next
    case 3
    obtain q y where q: "r = q * 0x40 + y" "y < 0x40"
      using div_mult_mod_eq [of r "0x40"] mod_less_divisor [of "0x40" r] by (metis zero_less_numeral)
    obtain p x where p: "q = p * 0x40 + x" "x < 0x40"
      using div_mult_mod_eq [of q "0x40"] mod_less_divisor [of "0x40" q] by (metis zero_less_numeral)
    have r: "r = p * 0x1000 + x * 0x40 + y" using q(1) p(1) by simp
    have top: "p < 0x10" using 3 r by linarith
    have first: "p = 0 \<Longrightarrow> 0x20 \<le> x" using 3 r q(2) by linarith
    have surrogate: "p = 0xD \<Longrightarrow> x < 0x20"
      using assms r q(2) p(2) unfolding valid_rune_def by linarith
    from encode_fields_3 [OF r top p(2) q(2) first surrogate] decode_fields_3 [OF top p(2) q(2) first surrogate]
    show ?thesis by (simp add: r rune_bytes_def)
  next
    case 4
    obtain q z where q: "r = q * 0x40 + z" "z < 0x40"
      using div_mult_mod_eq [of r "0x40"] mod_less_divisor [of "0x40" r] by (metis zero_less_numeral)
    obtain t y where t: "q = t * 0x40 + y" "y < 0x40"
      using div_mult_mod_eq [of q "0x40"] mod_less_divisor [of "0x40" q] by (metis zero_less_numeral)
    obtain p x where p: "t = p * 0x40 + x" "x < 0x40"
      using div_mult_mod_eq [of t "0x40"] mod_less_divisor [of "0x40" t] by (metis zero_less_numeral)
    have r: "r = p * 0x40000 + x * 0x1000 + y * 0x40 + z" using q(1) t(1) p(1) by simp
    have high: "r \<le> 0x10FFFF" using assms 4 by (auto simp: valid_rune_def)
    have top: "p \<le> 4" using high r by linarith
    have first: "p = 0 \<Longrightarrow> 0x10 \<le> x" using 4 r q(2) t(2) by linarith
    have last: "p = 4 \<Longrightarrow> x < 0x10" using high r by linarith
    from encode_fields_4 [OF r top p(2) t(2) q(2) first last] decode_fields_4 [OF top p(2) t(2) q(2) first last]
    show ?thesis by (simp add: r rune_bytes_def)
  qed
qed

section \<open>Valid strings\<close>

lemma valid_rune_error [simp]: "valid_rune rune_error"
  by (simp add: valid_rune_def rune_error_def)

lemma encode_rune_error_length: "length (encode_rune rune_error) = 3"
  by (simp add: encode_rune_def valid_rune_def rune_error_def rune_bytes_def)

lemma encode_invalid: "\<not> valid_rune r \<Longrightarrow> encode_rune r = encode_rune rune_error"
  by (simp add: encode_rune_def)

lemma valid_utf8_encode:
  assumes "valid_rune r"
  shows "valid_utf8 (encode_rune r @ s) \<longleftrightarrow> valid_utf8 s"
proof -
  obtain c t where ct: "encode_rune r = c # t" using encode_rune_nonempty [of r] by (cases "encode_rune r") auto
  have "r \<noteq> rune_error \<or> length (encode_rune r) \<noteq> 1"
    using encode_rune_error_length by (cases "r = rune_error") auto
  with decode_encoded [OF assms, of s] show ?thesis by (simp add: ct)
qed

lemma valid_utf8_encode_any: "valid_utf8 s \<Longrightarrow> valid_utf8 (encode_rune r @ s)"
  by (cases "valid_rune r") (simp_all add: valid_utf8_encode encode_invalid)

lemma runes_encode:
  assumes "valid_rune r"
  shows "runes (encode_rune r @ s) = r # runes s"
proof -
  obtain c t where ct: "encode_rune r = c # t" using encode_rune_nonempty [of r] by (cases "encode_rune r") auto
  with decode_encoded [OF assms, of s] show ?thesis by simp
qed

text \<open>A valid string is the encoding of its runes, one after the other.\<close>

lemma valid_utf8_induct [consumes 1, case_names Nil rune]:
  assumes "valid_utf8 s" "P []"
    and "\<And>r s. valid_rune r \<Longrightarrow> valid_utf8 s \<Longrightarrow> P s \<Longrightarrow> P (encode_rune r @ s)"
  shows "P s"
  using assms(1)
proof (induction s rule: length_induct)
  case (1 s)
  show ?case
  proof (cases s)
    case (Cons c t)
    obtain r n where d: "decode_rune (c # t) = (r, n)" by fastforce
    with 1(2) Cons have ok: "r \<noteq> rune_error \<or> n \<noteq> 1" and valid: "valid_utf8 (drop (n - 1) t)" by auto
    from encode_decoded [OF d ok] have s: "s = encode_rune r @ drop (n - 1) t" "valid_rune r"
      using Cons by simp_all
    from 1(1) valid Cons have "P (drop (n - 1) t)" by simp
    with assms(3) [OF s(2) valid] s(1) show ?thesis by simp
  qed (simp add: assms(2))
qed

section \<open>Trimming valid strings\<close>

text \<open>A valid string splits before any byte that is not a continuation byte.\<close>

lemma valid_split:
  assumes "valid_utf8 (a @ b)" "b = [] \<or> \<not> continuation (hd b)"
  shows "valid_utf8 a \<and> valid_utf8 b \<and> runes (a @ b) = runes a @ runes b"
  using assms(1)
proof (induction a rule: length_induct)
  case (1 a)
  show ?case
  proof (cases a)
    case (Cons c t)
    obtain r n where d: "decode_rune (c # t @ b) = (r, n)" by fastforce
    with 1(2) Cons have ok: "r \<noteq> rune_error \<or> n \<noteq> 1" and rest: "valid_utf8 (drop (n - 1) (t @ b))" by auto
    have n: "1 \<le> n" "n \<le> length (a @ b)" using decode_rune_size [OF d] Cons by auto
    have le: "n \<le> length a"
    proof (rule ccontr)
      assume "\<not> n \<le> length a"
      then have lt: "length a < n" and "b \<noteq> []" using n(2) by (cases b; simp)+
      from decode_rune_tail [OF d _ lt] Cons have "continuation ((a @ b) ! length a)" by simp
      with \<open>b \<noteq> []\<close> assms(2) show False by (simp add: hd_conv_nth nth_append)
    qed
    have split: "a = encode_rune r @ drop n a" "valid_rune r"
      using encode_decoded [OF d ok] le n(1) Cons by (cases n; simp)+
    have tail: "drop (n - 1) (t @ b) = drop n a @ b"
      using le n(1) Cons by (cases n) auto
    have "length (drop n a) < length a" using n(1) Cons by simp
    moreover have "valid_utf8 (drop n a @ b)" using rest tail by simp
    ultimately have IH: "valid_utf8 (drop n a)" "valid_utf8 b"
      "runes (drop n a @ b) = runes (drop n a) @ runes b" using 1(1) by blast+
    have "valid_utf8 (encode_rune r @ drop n a)" using IH(1) valid_utf8_encode [OF split(2)] by blast
    moreover have "runes (encode_rune r @ drop n a @ b) = runes (encode_rune r @ drop n a) @ runes b"
      using runes_encode [OF split(2)] IH(3) by simp
    ultimately show ?thesis using IH(2) by (metis append.assoc split(1))
  qed (use 1(2) in simp)
qed

lemma decode_continuation: "continuation c \<Longrightarrow> decode_rune (c # s) = (rune_error, 1)"
  by (simp add: decode_rune.simps continuation_def)

text \<open>A last rune that is a space starts at a byte that is not a continuation byte.\<close>

lemma last_space_start:
  assumes "decode_last_rune s = (r, n)" "is_space r" "s \<noteq> []"
  shows "\<not> continuation (s ! (length s - n))"
proof (cases "byte_of (last s) < 0x80")
  case True
  with assms(1,3) have "n = 1" by (simp add: decode_last_rune_def Let_def)
  with True assms(3) show ?thesis by (simp add: continuation_def last_conv_nth)
next
  case False
  have "r \<noteq> rune_error" using assms(2) by auto
  with assms(1,3) False show ?thesis
    by (auto simp: decode_last_rune_def Let_def split: option.splits prod.splits if_splits dest!: find_SomeD)
qed

lemma trim_left_valid:
  "valid_utf8 s \<Longrightarrow> valid_utf8 (trim_left s) \<and> length (runes (trim_left s)) \<le> length (runes s)"
proof (induction s rule: trim_left.induct)
  case (2 c s)
  obtain r n where d: "decode_rune (c # s) = (r, n)" by fastforce
  show ?case
  proof (cases "is_space r")
    case True
    with 2(1) [OF d [symmetric] refl] 2(2) d show ?thesis by auto
  next
    case False
    with d 2(2) show ?thesis by simp
  qed
qed simp

lemma trim_right_valid:
  "valid_utf8 s \<Longrightarrow> valid_utf8 (trim_right s) \<and> length (runes (trim_right s)) \<le> length (runes s)"
proof (induction s rule: trim_right.induct)
  case (1 s)
  obtain r n where d: "decode_last_rune s = (r, n)" by fastforce
  show ?case
  proof (cases "s \<noteq> [] \<and> is_space r")
    case True
    note n = decode_last_rune_size [OF d]
    have "\<not> continuation (hd (drop (length s - n) s))"
      using last_space_start [OF d] True n by (simp add: hd_drop_conv_nth)
    with valid_split [of "take (length s - n) s" "drop (length s - n) s"] 1(2)
    have split: "valid_utf8 (take (length s - n) s)"
      "runes s = runes (take (length s - n) s) @ runes (drop (length s - n) s)" by simp_all
    from 1(1) [OF _ d [symmetric] refl _ split(1)] True d split(2) show ?thesis
      by (simp add: trim_right.simps [of s])
  next
    case False
    with d 1(2) show ?thesis by (auto simp: trim_right.simps [of s])
  qed
qed

lemma TrimSpace_valid:
  "valid_utf8 s \<Longrightarrow> valid_utf8 (TrimSpace s) \<and> length (runes (TrimSpace s)) \<le> length (runes s)"
  using trim_left_valid [of s] trim_right_valid [of "trim_left s"] by (auto simp: TrimSpace_def)

end
