(* ===== verification/Go_Json.thy ===== *)
theory Go_Json
  imports Go_Utf8 Go_Strconv
begin

text \<open>
  What the program uses of Go's \<open>encoding/json\<close>: the encoder for the values it sends, with HTML
  escaping, and the stream decoder for the values it receives. The decoder is the byte-driven
  automaton of the package's scanner (states, a stack of open containers with the depth limit of
  10000, a value delimited as soon as its last byte is seen, or by the following byte for a
  scalar at the top level), here building the value as it goes. The main facts: the decoder
  reads back what the encoder wrote, and every string it delivers is valid UTF-8.
\<close>

datatype json =
    JNull
  | JBool bool
  | JNum gostring
  | JStr gostring
  | JArr "json list"
  | JObj "(gostring \<times> json) list"

section \<open>Encoding\<close>

abbreviation bslash :: char where
  "bslash \<equiv> CHR 0x5C"

abbreviation dquote :: char where
  "dquote \<equiv> CHR 0x22"

definition hex_char :: "nat \<Rightarrow> char" where
  "hex_char n = ''0123456789abcdef'' ! n"

definition short_escapes :: "(nat \<times> char) list" where
  "short_escapes = [(0x22, dquote), (0x5C, bslash), (0x08, CHR ''b''), (0x0C, CHR ''f''),
     (0x0A, CHR ''n''), (0x0D, CHR ''r''), (0x09, CHR ''t'')]"

text \<open>One rune inside a JSON string: short escapes, \<open>\u00XX\<close> for other control bytes and for
  the HTML characters, \<open>\u2028\<close> and \<open>\u2029\<close>, everything else as it is.\<close>

definition escape_rune :: "nat \<Rightarrow> gostring" where
  "escape_rune r = (case map_of short_escapes r of
       Some e \<Rightarrow> [bslash, e]
     | None \<Rightarrow>
         if r < 0x20 \<or> r \<in> {0x3C, 0x3E, 0x26}
         then bslash # ''u00'' @ [hex_char (r div 16), hex_char (r mod 16)]
         else if r = 0x2028 \<or> r = 0x2029 then bslash # ''u202'' @ [hex_char (r mod 16)]
         else encode_rune r)"

text \<open>Bytes that are not UTF-8 are sent as the escape of the replacement rune.\<close>

fun escape :: "gostring \<Rightarrow> gostring" where
  "escape [] = []"
| "escape (c # s) = (let (r, n) = decode_rune (c # s) in
     (if r = rune_error \<and> n = 1 then bslash # ''ufffd'' else escape_rune r) @ escape (drop (n - 1) s))"

definition quoted :: "gostring \<Rightarrow> gostring" where
  "quoted s = dquote # escape s @ [dquote]"

fun join_comma :: "gostring list \<Rightarrow> gostring" where
  "join_comma [] = []"
| "join_comma [x] = x"
| "join_comma (x # y # xs) = x @ '','' @ join_comma (y # xs)"

fun marshal :: "json \<Rightarrow> gostring" where
  "marshal JNull = ''null''"
| "marshal (JBool b) = (if b then ''true'' else ''false'')"
| "marshal (JNum n) = n"
| "marshal (JStr s) = quoted s"
| "marshal (JArr vs) = ''['' @ join_comma (map marshal vs) @ '']''"
| "marshal (JObj kvs) =
     ''{'' @ join_comma (map (\<lambda>(k, v). quoted k @ '':'' @ marshal v) kvs) @ ''}''"

section \<open>Decoding strings\<close>

definition hex_value :: "char \<Rightarrow> nat option" where
  "hex_value c = (let b = byte_of c in
     if 48 \<le> b \<and> b \<le> 57 then Some (b - 48)
     else if 97 \<le> b \<and> b \<le> 102 then Some (b - 87)
     else if 65 \<le> b \<and> b \<le> 70 then Some (b - 55)
     else None)"

text \<open>\<open>getu4\<close>: the four hexadecimal digits behind \<open>\u\<close>.\<close>

fun hex4 :: "gostring \<Rightarrow> nat option" where
  "hex4 (a # b # c # d # s) = (case (hex_value a, hex_value b, hex_value c, hex_value d) of
       (Some w, Some x, Some y, Some z) \<Rightarrow> Some (((w * 16 + x) * 16 + y) * 16 + z)
     | _ \<Rightarrow> None)"
| "hex4 _ = None"

definition is_surrogate :: "nat \<Rightarrow> bool" where
  "is_surrogate r \<longleftrightarrow> 0xD800 \<le> r \<and> r < 0xE000"

text \<open>The second half of a surrogate pair, if an escaped one follows, and the rune they make.\<close>

definition low_surrogate :: "gostring \<Rightarrow> nat option" where
  "low_surrogate s = (case s of
       b # u # t \<Rightarrow>
         if b = bslash \<and> u = CHR ''u''
         then (case hex4 t of
                 Some r \<Rightarrow> if 0xDC00 \<le> r \<and> r < 0xE000 then Some r else None
               | None \<Rightarrow> None)
         else None
     | _ \<Rightarrow> None)"

definition escaped_byte :: "char \<Rightarrow> char option" where
  "escaped_byte = map_of
     [(CHR ''b'', CHR 0x08), (CHR ''f'', CHR 0x0C), (CHR ''n'', CHR 0x0A), (CHR ''r'', CHR 0x0D),
      (CHR ''t'', CHR 0x09), (dquote, dquote), (bslash, bslash), (CHR ''/'', CHR ''/''), (CHR 0x27, CHR 0x27)]"

text \<open>
  \<open>unquote\<close>: the string between the quotes, whose escapes the scanner has already checked.
  Lone surrogates and bytes that are not UTF-8 become the replacement rune.
\<close>

fun unquote :: "gostring \<Rightarrow> gostring" where
  "unquote [] = []"
| "unquote (c # s) =
     (if c = bslash then
        (case s of
           [] \<Rightarrow> []
         | e # t \<Rightarrow>
             if e = CHR ''u'' then
               (case hex4 t of
                  None \<Rightarrow> []
                | Some r \<Rightarrow>
                    let rest = drop 4 t in
                    if is_surrogate r then
                      (case (if r < 0xDC00 then low_surrogate rest else None) of
                         Some r1 \<Rightarrow>
                           encode_rune (0x10000 + (r - 0xD800) * 0x400 + (r1 - 0xDC00)) @ unquote (drop 6 rest)
                       | None \<Rightarrow> encode_rune rune_error @ unquote rest)
                    else encode_rune r @ unquote rest)
             else (case escaped_byte e of None \<Rightarrow> [] | Some b \<Rightarrow> b # unquote t))
      else (let (r, n) = decode_rune (c # s) in encode_rune r @ unquote (drop (n - 1) s)))"

section \<open>Decoding values\<close>

text \<open>
  The containers that are open, innermost first, with what they hold so far in reverse: an
  array, or an object with the key whose value comes next, if it has been read.
\<close>

datatype frame = InArr "json list" | InObj "(gostring \<times> json) list" "gostring option"

datatype num_state = NNeg | N0 | N1 | NDot | NDot0 | NE | NESign | NE0

datatype jstate =
    BeginValue | BeginValueOrEmpty | BeginKey | BeginKeyOrEmpty | EndKey | EndValue
  | InStr gostring | InEsc gostring | InEscU nat gostring
  | InNum num_state gostring
  | InLit gostring json
  | TopDone json

text \<open>
  The effect of one byte: go on, the value is complete with this byte, the value was complete
  before it, or a syntax error.
\<close>

datatype scan = Scan jstate "frame list" | Final json | FinalBefore json | Syntax

definition max_depth :: nat where
  "max_depth = 10000"

definition json_space :: "char \<Rightarrow> bool" where
  "json_space c \<longleftrightarrow> c \<in> {CHR '' '', CHR 0x09, CHR 0x0A, CHR 0x0D}"

fun complete :: "json \<Rightarrow> frame list \<Rightarrow> scan" where
  "complete v [] = Scan (TopDone v) []"
| "complete v (InArr vs # st) = Scan EndValue (InArr (v # vs) # st)"
| "complete v (InObj kvs (Some k) # st) = Scan EndValue (InObj ((k, v) # kvs) None # st)"
| "complete (JStr k) (InObj kvs None # st) = Scan EndKey (InObj kvs (Some k) # st)"
| "complete v (InObj kvs None # st) = Syntax"

text \<open>A container that closes at the top level is complete at once.\<close>

definition close_container :: "json \<Rightarrow> frame list \<Rightarrow> scan" where
  "close_container v st = (if st = [] then Final v else complete v st)"

definition open_container :: "frame \<Rightarrow> jstate \<Rightarrow> frame list \<Rightarrow> scan" where
  "open_container f q st = (if length st < max_depth then Scan q (f # st) else Syntax)"

definition begin_value :: "frame list \<Rightarrow> char \<Rightarrow> scan" where
  "begin_value st c =
     (if c = CHR ''{'' then open_container (InObj [] None) BeginKeyOrEmpty st
      else if c = CHR ''['' then open_container (InArr []) BeginValueOrEmpty st
      else if c = dquote then Scan (InStr []) st
      else if c = CHR ''-'' then Scan (InNum NNeg [c]) st
      else if c = CHR ''0'' then Scan (InNum N0 [c]) st
      else if is_digit c then Scan (InNum N1 [c]) st
      else if c = CHR ''t'' then Scan (InLit ''rue'' (JBool True)) st
      else if c = CHR ''f'' then Scan (InLit ''alse'' (JBool False)) st
      else if c = CHR ''n'' then Scan (InLit ''ull'' JNull) st
      else Syntax)"

definition end_value :: "frame list \<Rightarrow> char \<Rightarrow> scan" where
  "end_value st c =
     (if json_space c then Scan EndValue st
      else case st of
        InArr vs # st' \<Rightarrow>
          if c = CHR '','' then Scan BeginValue st
          else if c = CHR '']'' then close_container (JArr (rev vs)) st'
          else Syntax
      | InObj kvs None # st' \<Rightarrow>
          if c = CHR '','' then Scan BeginKey st
          else if c = CHR ''}'' then close_container (JObj (rev kvs)) st'
          else Syntax
      | _ \<Rightarrow> Syntax)"

text \<open>The byte that follows a complete number belongs to the enclosing container.\<close>

definition end_number :: "gostring \<Rightarrow> frame list \<Rightarrow> char \<Rightarrow> scan" where
  "end_number acc st c = (case complete (JNum (rev acc)) st of
       Scan (TopDone v) _ \<Rightarrow> FinalBefore v
     | Scan EndValue st' \<Rightarrow> end_value st' c
     | _ \<Rightarrow> Syntax)"

definition fraction_or_exponent :: "gostring \<Rightarrow> frame list \<Rightarrow> char \<Rightarrow> scan" where
  "fraction_or_exponent acc st c =
     (if c = CHR ''.'' then Scan (InNum NDot (c # acc)) st
      else if c = CHR ''e'' \<or> c = CHR ''E'' then Scan (InNum NE (c # acc)) st
      else end_number acc st c)"

definition exponent_digit :: "gostring \<Rightarrow> frame list \<Rightarrow> char \<Rightarrow> scan" where
  "exponent_digit acc st c = (if is_digit c then Scan (InNum NE0 (c # acc)) st else Syntax)"

fun num_step :: "num_state \<Rightarrow> gostring \<Rightarrow> frame list \<Rightarrow> char \<Rightarrow> scan" where
  "num_step NNeg acc st c =
     (if c = CHR ''0'' then Scan (InNum N0 (c # acc)) st
      else if is_digit c then Scan (InNum N1 (c # acc)) st else Syntax)"
| "num_step N1 acc st c =
     (if is_digit c then Scan (InNum N1 (c # acc)) st else fraction_or_exponent acc st c)"
| "num_step N0 acc st c = fraction_or_exponent acc st c"
| "num_step NDot acc st c = (if is_digit c then Scan (InNum NDot0 (c # acc)) st else Syntax)"
| "num_step NDot0 acc st c =
     (if is_digit c then Scan (InNum NDot0 (c # acc)) st
      else if c = CHR ''e'' \<or> c = CHR ''E'' then Scan (InNum NE (c # acc)) st
      else end_number acc st c)"
| "num_step NE acc st c =
     (if c = CHR ''+'' \<or> c = CHR ''-'' then Scan (InNum NESign (c # acc)) st
      else exponent_digit acc st c)"
| "num_step NESign acc st c = exponent_digit acc st c"
| "num_step NE0 acc st c =
     (if is_digit c then Scan (InNum NE0 (c # acc)) st else end_number acc st c)"

fun step :: "jstate \<Rightarrow> frame list \<Rightarrow> char \<Rightarrow> scan" where
  "step BeginValue st c = (if json_space c then Scan BeginValue st else begin_value st c)"
| "step BeginValueOrEmpty st c =
     (if json_space c then Scan BeginValueOrEmpty st
      else if c = CHR '']'' then end_value st c else begin_value st c)"
| "step BeginKeyOrEmpty st c =
     (if json_space c then Scan BeginKeyOrEmpty st
      else if c = CHR ''}'' then end_value st c
      else if c = dquote then Scan (InStr []) st else Syntax)"
| "step BeginKey st c =
     (if json_space c then Scan BeginKey st
      else if c = dquote then Scan (InStr []) st else Syntax)"
| "step EndKey st c =
     (if json_space c then Scan EndKey st
      else if c = CHR '':'' then Scan BeginValue st else Syntax)"
| "step EndValue st c = end_value st c"
| "step (InStr acc) st c =
     (if c = dquote then complete (JStr (unquote (rev acc))) st
      else if c = bslash then Scan (InEsc (c # acc)) st
      else if byte_of c < 0x20 then Syntax
      else Scan (InStr (c # acc)) st)"
| "step (InEsc acc) st c =
     (if c = CHR ''u'' then Scan (InEscU 4 (c # acc)) st
      else if c \<in> {CHR ''b'', CHR ''f'', CHR ''n'', CHR ''r'', CHR ''t'', bslash, CHR ''/'', dquote}
      then Scan (InStr (c # acc)) st else Syntax)"
| "step (InEscU n acc) st c =
     (if hex_value c = None then Syntax
      else if n \<le> 1 then Scan (InStr (c # acc)) st
      else Scan (InEscU (n - 1) (c # acc)) st)"
| "step (InNum q acc) st c = num_step q acc st c"
| "step (InLit (d # ds) v) st c =
     (if c \<noteq> d then Syntax else if ds = [] then complete v st else Scan (InLit ds v) st)"
| "step (InLit [] v) st c = Syntax"
| "step (TopDone v) st c = FinalBefore v"

text \<open>
  \<open>Decoder.readValue\<close> on a stream: its bytes, then the error of the read that follows them.
  At the end of input only a scalar at the top level is complete; otherwise the end is
  \<open>io.EOF\<close> when nothing but space was read and unexpected when a value had begun.
\<close>

fun value_at_end :: "jstate \<Rightarrow> frame list \<Rightarrow> json option" where
  "value_at_end (TopDone v) st = Some v"
| "value_at_end (InNum q acc) st =
     (if st = [] \<and> q \<in> {N0, N1, NDot0, NE0} then Some (JNum (rev acc)) else None)"
| "value_at_end _ _ = None"

abbreviation err_unexpected_eof :: gerror where
  "err_unexpected_eof \<equiv> NewError ''unexpected EOF''"

abbreviation err_json_syntax :: gerror where
  "err_json_syntax \<equiv> NewError ''invalid character''"

fun read_value :: "jstate \<Rightarrow> frame list \<Rightarrow> gostring \<Rightarrow> gerror \<Rightarrow> gerror + (json \<times> gostring)" where
  "read_value q st [] e =
     (if e \<noteq> ErrEOF then Inl e
      else case value_at_end q st of
        Some v \<Rightarrow> Inr (v, [])
      | None \<Rightarrow> Inl (if q = BeginValue \<and> st = [] then ErrEOF else err_unexpected_eof))"
| "read_value q st (c # s) e = (case step q st c of
       Scan q' st' \<Rightarrow> read_value q' st' s e
     | Final v \<Rightarrow> Inr (v, s)
     | FinalBefore v \<Rightarrow> Inr (v, c # s)
     | Syntax \<Rightarrow> Inl err_json_syntax)"

section \<open>Strings survive\<close>

text \<open>A chunk the scanner passes over inside a string, keeping its bytes.\<close>

definition passes :: "gostring \<Rightarrow> bool" where
  "passes x \<longleftrightarrow> (\<forall>acc st s e.
     read_value (InStr acc) st (x @ s) e = read_value (InStr (rev x @ acc)) st s e)"

lemma passes_append: "passes x \<Longrightarrow> passes y \<Longrightarrow> passes (x @ y)"
  by (simp add: passes_def)

lemma passes_plain: "\<forall>c \<in> set x. 0x20 \<le> byte_of c \<and> c \<noteq> dquote \<and> c \<noteq> bslash \<Longrightarrow> passes x"
proof (induction x)
  case (Cons c x)
  then have "passes x" by simp
  with Cons.prems show ?case by (simp add: passes_def)
qed (simp add: passes_def)

lemma hex_value_hex_char: "n < 16 \<Longrightarrow> hex_value (hex_char n) = Some n"
proof -
  have "\<forall>n \<in> {..<16}. hex_value (hex_char n) = Some n" by code_simp
  then show "n < 16 \<Longrightarrow> hex_value (hex_char n) = Some n" by simp
qed

lemma passes_unicode:
  assumes "hex_value a = Some w" "hex_value b = Some x" "hex_value c = Some y" "hex_value d = Some z"
  shows "passes [bslash, CHR ''u'', a, b, c, d]"
  using assms by (simp add: passes_def numeral_eq_Suc)

lemma hex_values: "hex_value (CHR ''0'') = Some 0" "hex_value (CHR ''2'') = Some 2"
    "hex_value (CHR ''f'') = Some 15" "hex_value (CHR ''d'') = Some 13"
  by code_simp+

lemma short_escapes_sound:
  assumes "(r, e) \<in> set short_escapes"
  shows "r < 0x80" "e \<noteq> CHR ''u''" "escaped_byte e = Some (char_of r)"
proof -
  have "list_all (\<lambda>(r, e). r < 0x80 \<and> e \<noteq> CHR ''u'' \<and> escaped_byte e = Some (char_of r)) short_escapes"
    by code_simp
  with assms show "r < 0x80" "e \<noteq> CHR ''u''" "escaped_byte e = Some (char_of r)"
    by (auto simp: list_all_iff)
qed

text \<open>The three shapes of an escaped rune.\<close>

lemma escape_rune_cases:
  obtains (short) e where "(r, e) \<in> set short_escapes" "escape_rune r = [bslash, e]"
  | (hex) d2 d3 d4 w x y where "escape_rune r = [bslash, CHR ''u'', d2, CHR ''0'', d3, d4]"
      "hex_value d2 = Some w" "hex_value d3 = Some x" "hex_value d4 = Some y"
      "r = w * 0x1000 + x * 0x10 + y" "\<not> is_surrogate r"
  | (plain) "0x20 \<le> r" "r \<noteq> 0x22" "r \<noteq> 0x5C" "escape_rune r = encode_rune r"
proof (cases "map_of short_escapes r")
  case (Some e)
  then have "(r, e) \<in> set short_escapes" by (rule map_of_SomeD)
  with Some show ?thesis by (intro short) (simp_all add: escape_rune_def)
next
  case None
  then have ne: "r \<noteq> 0x22" "r \<noteq> 0x5C" by (auto simp: short_escapes_def)
  consider "r < 0x20 \<or> r \<in> {0x3C, 0x3E, 0x26}" | "0x20 \<le> r" "r = 0x2028 \<or> r = 0x2029"
    | "0x20 \<le> r" "\<not> (r < 0x20 \<or> r \<in> {0x3C, 0x3E, 0x26})" "\<not> (r = 0x2028 \<or> r = 0x2029)" by linarith
  then show ?thesis
  proof cases
    case 1
    then have "r div 16 < 16" by auto
    then show ?thesis using None 1
      by (intro hex [of "CHR ''0''" "hex_char (r div 16)" "hex_char (r mod 16)" 0 "r div 16" "r mod 16"])
        (auto simp: escape_rune_def hex_value_hex_char hex_values is_surrogate_def)
  next
    case 2
    then show ?thesis using None
      by (intro hex [of "CHR ''2''" "CHR ''2''" "hex_char (r mod 16)" 2 2 "r mod 16"])
        (auto simp: escape_rune_def hex_value_hex_char hex_values is_surrogate_def)
  next
    case 3
    then show ?thesis using None ne by (intro plain) (simp_all add: escape_rune_def)
  qed
qed

lemma encode_rune_bytes: "0x80 \<le> r \<Longrightarrow> c \<in> set (encode_rune r) \<Longrightarrow> 0x80 \<le> byte_of c"
  by (auto simp: encode_rune_def rune_bytes_def valid_rune_def rune_error_def byte_of_char_of Let_def
      of_char_of split: if_splits)

lemma passes_escape_rune: "passes (escape_rune r)"
proof (cases rule: escape_rune_cases [of r])
  case (short e)
  then show ?thesis by (auto simp: short_escapes_def passes_def)
next
  case (hex d2 d3 d4 w x y)
  with passes_unicode [OF hex(2) hex_values(1) hex(3,4)] show ?thesis by simp
next
  case plain
  have "0x20 \<le> byte_of c \<and> c \<noteq> dquote \<and> c \<noteq> bslash" if "c \<in> set (encode_rune r)" for c
  proof (cases "r < 0x80")
    case True
    with that have "c = char_of r" by (simp add: encode_ascii)
    with True have "byte_of c = r" by (simp add: byte_of_char_of)
    with plain show ?thesis by auto
  next
    case False
    with that encode_rune_bytes [of r c] show ?thesis by auto
  qed
  with plain(4) show ?thesis by (simp add: passes_plain)
qed

lemma passes_escape: "passes (escape s)"
proof (induction s rule: escape.induct)
  case (2 c s)
  obtain r n where d: "decode_rune (c # s) = (r, n)" by fastforce
  have "passes (bslash # ''ufffd'')"
    using passes_unicode [OF hex_values(3,3,3,4)] by simp
  with 2 [OF d [symmetric]] d passes_escape_rune [of r] show ?case
    by (simp add: passes_append)
qed (simp add: passes_def)

lemma unquote_plain:
  assumes "valid_rune r" "r \<noteq> 0x5C"
  shows "unquote (encode_rune r @ s) = encode_rune r @ unquote s"
proof -
  obtain c t where ct: "encode_rune r = c # t" using encode_rune_nonempty [of r] by (cases "encode_rune r") auto
  have "c \<noteq> bslash"
  proof (cases "r < 0x80")
    case True
    with ct have "c = char_of r" by (simp add: encode_ascii)
    with True have "byte_of c = r" by (simp add: byte_of_char_of)
    with assms(2) show ?thesis by auto
  next
    case False
    with encode_rune_bytes [of r c] ct show ?thesis by auto
  qed
  with decode_encoded [OF assms(1), of s] show ?thesis by (simp add: ct)
qed

lemma unquote_escape_rune:
  assumes "valid_rune r"
  shows "unquote (escape_rune r @ s) = encode_rune r @ unquote s"
proof (cases rule: escape_rune_cases [of r])
  case (short e)
  from short_escapes_sound [OF short(1)] show ?thesis by (simp add: short(2) encode_ascii)
next
  case (hex d2 d3 d4 w x y)
  then have h: "hex4 (d2 # CHR ''0'' # d3 # d4 # s) = Some r" by (simp add: hex_values)
  with hex(6) show ?thesis by (simp add: hex(1))
next
  case plain
  with unquote_plain [OF assms] show ?thesis by simp
qed

lemma escape_encode:
  assumes "valid_rune r"
  shows "escape (encode_rune r @ s) = escape_rune r @ escape s"
proof -
  obtain c t where ct: "encode_rune r = c # t" using encode_rune_nonempty [of r] by (cases "encode_rune r") auto
  have "r \<noteq> rune_error \<or> length (encode_rune r) \<noteq> 1"
    using encode_rune_error_length by (cases "r = rune_error") auto
  with decode_encoded [OF assms, of s] show ?thesis by (auto simp add: ct)
qed

lemma unquote_escape: "valid_utf8 s \<Longrightarrow> unquote (escape s) = s"
  by (induction s rule: valid_utf8_induct) (simp_all add: escape_encode unquote_escape_rune)

text \<open>What the decoder delivers is valid UTF-8, whatever it was sent.\<close>

lemma valid_utf8_ascii: "byte_of c < 0x80 \<Longrightarrow> valid_utf8 (c # s) \<longleftrightarrow> valid_utf8 s"
  by (simp add: decode_rune.simps rune_error_def)

lemma escaped_byte_ascii: "escaped_byte c = Some b \<Longrightarrow> byte_of b < 0x80"
  unfolding escaped_byte_def by (drule map_of_SomeD) auto

lemma valid_utf8_unquote: "valid_utf8 (unquote s)"
proof (induction s rule: unquote.induct)
  case (2 c s)
  show ?case
  proof (cases "c = bslash")
    case c: True
    show ?thesis
    proof (cases s)
      case s: (Cons e t)
      show ?thesis
      proof (cases "e = CHR ''u''")
        case u: True
        show ?thesis
        proof (cases "hex4 t")
          case h: (Some r)
          show ?thesis
          proof (cases "is_surrogate r")
            case surrogate: True
            note IH = 2(1,2) [OF c s u h refl surrogate]
            show ?thesis
            proof (cases "if r < 0xDC00 then low_surrogate (drop 4 t) else None")
              case None
              with IH(1) surrogate show ?thesis
                by (simp add: c s u h valid_utf8_encode_any Let_def split del: if_split)
            next
              case (Some r1)
              with IH(2) [OF Some] surrogate show ?thesis
                by (simp add: c s u h valid_utf8_encode_any Let_def split del: if_split)
            qed
          next
            case False
            from 2(3) [OF c s u h refl False] False show ?thesis
              by (simp add: c s u h valid_utf8_encode_any)
          qed
        qed (simp add: c s u)
      next
        case False
        show ?thesis
        proof (cases "escaped_byte e")
          case (Some b)
          with 2(4) [OF c s False Some] c s False show ?thesis
            by (simp add: valid_utf8_ascii escaped_byte_ascii del: valid_utf8.simps(2))
        qed (simp add: c s False)
      qed
    qed (simp add: c)
  next
    case False
    obtain r n where d: "decode_rune (c # s) = (r, n)" by fastforce
    with 2(5) [OF False d [symmetric] refl] False show ?thesis by (simp add: valid_utf8_encode_any)
  qed
qed simp

section \<open>Values survive\<close>

fun depth :: "json \<Rightarrow> nat" where
  "depth (JArr vs) = Suc (fold max (map depth vs) 0)"
| "depth (JObj kvs) = Suc (fold max (map (\<lambda>(k, v). depth v) kvs) 0)"
| "depth _ = 0"

text \<open>What the program sends: integers, and strings that are valid UTF-8.\<close>

fun sendable :: "json \<Rightarrow> bool" where
  "sendable (JNum n) = (\<exists>i. n = FormatInt i)"
| "sendable (JStr s) = valid_utf8 s"
| "sendable (JArr vs) = (\<forall>v \<in> set vs. sendable v)"
| "sendable (JObj kvs) = (\<forall>(k, v) \<in> set kvs. valid_utf8 k \<and> sendable v)"
| "sendable _ = True"

text \<open>Running on from the effect of a byte.\<close>

fun resume :: "scan \<Rightarrow> gostring \<Rightarrow> gerror \<Rightarrow> gerror + (json \<times> gostring)" where
  "resume (Scan q st) s e = read_value q st s e"
| "resume (Final v) s e = Inr (v, s)"
| "resume (FinalBefore v) s e = Inr (v, s)"
| "resume Syntax s e = Inl err_json_syntax"

lemma read_string:
  assumes "valid_utf8 k" "q \<in> {BeginValue, BeginValueOrEmpty, BeginKey, BeginKeyOrEmpty}"
  shows "read_value q st (quoted k @ s) e = resume (complete (JStr k) st) s e"
proof -
  have "read_value q st (quoted k @ s) e = read_value (InStr []) st (escape k @ dquote # s) e"
    using assms(2) by (auto simp: quoted_def json_space_def begin_value_def)
  also have "\<dots> = read_value (InStr (rev (escape k))) st (dquote # s) e"
    using passes_escape [of k] by (simp add: passes_def)
  also have "\<dots> = resume (complete (JStr k) st) s e"
    using unquote_escape [OF assms(1)] by (cases "(JStr k, st)" rule: complete.cases) auto
  finally show ?thesis .
qed

lemma read_digits:
  assumes "list_all is_digit ds"
  shows "read_value (InNum N1 acc) st (ds @ s) e = read_value (InNum N1 (rev ds @ acc)) st s e"
  using assms by (induction ds arbitrary: acc) auto

lemma decimal_first: "0 < n \<Longrightarrow> \<exists>c ds. decimal n = c # ds \<and> is_digit c \<and> c \<noteq> CHR ''0''"
proof (induction n rule: decimal.induct)
  case (1 n)
  show ?case
  proof (cases "n < 10")
    case True
    with 1(2) have "digit_char n \<noteq> CHR ''0''"
      using byte_of_digit_char [of n] by auto
    with True show ?thesis by (subst decimal.simps) (simp add: is_digit_digit_char)
  next
    case False
    then have "0 < n div 10" by simp
    with 1(1) [OF False] show ?thesis by (subst decimal.simps) (use False in auto)
  qed
qed

text \<open>The bytes that follow a value inside a container.\<close>

definition delimiter :: "char \<Rightarrow> bool" where
  "delimiter d \<longleftrightarrow> d \<in> {CHR '','', CHR '']'', CHR ''}''}"

lemma read_natural:
  assumes "q \<in> {BeginValue, BeginValueOrEmpty} \<and> acc = [] \<or> (\<exists>a. q = InNum NNeg a \<and> acc = a)"
  shows "\<exists>p \<in> {N0, N1}. read_value q st (decimal n @ s) e = read_value (InNum p (rev (decimal n) @ acc)) st s e"
proof (cases "n = 0")
  case True
  have "decimal 0 = ''0''" by (subst decimal.simps) code_simp
  with True assms show ?thesis by (auto simp: json_space_def begin_value_def)
next
  case False
  then obtain c ds where c: "decimal n = c # ds" "is_digit c" "c \<noteq> CHR ''0''"
    using decimal_first [of n] by auto
  have other: "c \<notin> {CHR '' '', CHR 0x09, CHR 0x0A, CHR 0x0D, CHR '']'', CHR ''{'', CHR ''['', dquote, CHR ''-''}"
    using c(2) by (auto simp: is_digit_def)
  have "list_all is_digit ds" using decimal_digits [of n] c(1) by simp
  with read_digits [of ds "c # acc" st s e] assms c other show ?thesis
    by (auto simp: json_space_def begin_value_def)
qed

lemma end_number_delimiter:
  assumes "delimiter d" "p \<in> {N0, N1}"
  shows "num_step p acc st d = end_number acc st d"
  using assms by (auto simp: delimiter_def is_digit_def fraction_or_exponent_def)

text \<open>A value may come next: inside an array, or in an object behind a key.\<close>

fun value_next :: "frame list \<Rightarrow> bool" where
  "value_next (InArr vs # st) = True"
| "value_next (InObj kvs (Some k) # st) = True"
| "value_next _ = False"

lemma complete_value_next:
  assumes "value_next st"
  obtains st' where "complete v st = Scan EndValue st'" "length st' = length st"
  using assms by (cases st rule: value_next.cases) auto

lemma read_number:
  assumes "value_next st" "delimiter d" "q \<in> {BeginValue, BeginValueOrEmpty}"
  shows "read_value q st (FormatInt i @ d # s) e = resume (complete (JNum (FormatInt i)) st) (d # s) e"
proof -
  have start: "\<exists>p \<in> {N0, N1}. read_value q st (FormatInt i @ d # s) e
      = read_value (InNum p (rev (FormatInt i))) st (d # s) e"
  proof (cases "i < 0")
    case True
    then have "read_value q st (FormatInt i @ d # s) e
        = read_value (InNum NNeg ''-'') st (decimal (nat (- i)) @ d # s) e"
      using assms(3) by (auto simp: FormatInt_def json_space_def begin_value_def)
    with read_natural [of "InNum NNeg ''-''" "''-''" st "nat (- i)" "d # s" e] True show ?thesis
      by (auto simp: FormatInt_def)
  next
    case False
    with read_natural [of q "[]" st "nat i" "d # s" e] assms(3) show ?thesis
      by (auto simp: FormatInt_def)
  qed
  obtain st' where c: "complete (JNum (FormatInt i)) st = Scan EndValue st'"
    using complete_value_next [OF assms(1)] by metis
  from start c show ?thesis by (auto simp: end_number_delimiter [OF assms(2)] end_number_def)
qed

lemma read_literal:
  assumes "value_next st" "q \<in> {BeginValue, BeginValueOrEmpty}" "v \<in> {JNull, JBool True, JBool False}"
  shows "read_value q st (marshal v @ s) e = resume (complete v st) s e"
proof -
  obtain st' where c: "complete v st = Scan EndValue st'"
    using complete_value_next [OF assms(1)] by metis
  then show ?thesis using assms(2,3)
    by (auto simp: json_space_def begin_value_def is_digit_def)
qed

text \<open>One value inside a container, given that this holds of its parts.\<close>

definition reads_back :: "json \<Rightarrow> bool" where
  "reads_back v \<longleftrightarrow> (\<forall>q st d s e. q \<in> {BeginValue, BeginValueOrEmpty} \<longrightarrow> value_next st \<longrightarrow> delimiter d \<longrightarrow>
     length st + depth v \<le> max_depth \<longrightarrow>
     read_value q st (marshal v @ d # s) e = resume (complete v st) (d # s) e)"

lemma depth_member: "v \<in> set vs \<Longrightarrow> depth v \<le> fold max (map depth vs) 0"
proof -
  assume "v \<in> set vs"
  then have "depth v \<in> set (0 # map depth vs)" by simp
  then show ?thesis by (simp add: Max.set_eq_fold [symmetric] del: set_simps list.set)
qed

lemma reads_backD:
  "reads_back v \<Longrightarrow> q \<in> {BeginValue, BeginValueOrEmpty} \<Longrightarrow> value_next st \<Longrightarrow> delimiter d \<Longrightarrow>
     length st + depth v \<le> max_depth \<Longrightarrow>
     read_value q st (marshal v @ d # s) e = resume (complete v st) (d # s) e"
  by (simp only: reads_back_def)

lemma complete_not_before [simp]: "complete v st \<noteq> FinalBefore w"
  by (cases "(v, st)" rule: complete.cases) auto

lemma read_elements:
  assumes "vs \<noteq> []" "q \<in> {BeginValue, BeginValueOrEmpty}"
    and "\<forall>v \<in> set vs. reads_back v \<and> Suc (length st) + depth v \<le> max_depth"
  shows "read_value q (InArr acc # st) (join_comma (map marshal vs) @ CHR '']'' # s) e
    = read_value EndValue (InArr (rev vs @ acc) # st) (CHR '']'' # s) e"
  using assms
proof (induction vs arbitrary: q acc)
  case (Cons v vs)
  have read: "read_value q (InArr acc # st) (marshal v @ d # t) e
      = read_value EndValue (InArr (v # acc) # st) (d # t) e" if "delimiter d" for d t
    using reads_backD [of v q "InArr acc # st" d t e] Cons.prems(2,3) that
    by (simp del: read_value.simps)
  show ?case
  proof (cases vs)
    case Nil
    with read [of "CHR '']''" s] show ?thesis by (simp add: delimiter_def del: read_value.simps)
  next
    case (Cons w ws)
    have "read_value BeginValue (InArr (v # acc) # st) (join_comma (map marshal vs) @ CHR '']'' # s) e
        = read_value EndValue (InArr (rev vs @ v # acc) # st) (CHR '']'' # s) e"
      by (rule Cons.IH) (use Cons.prems(3) Cons in auto)
    with read [of "CHR '',''" "join_comma (map marshal vs) @ CHR '']'' # s"] Cons show ?thesis
      by (simp add: delimiter_def end_value_def json_space_def)
  qed
qed simp

definition member :: "gostring \<times> json \<Rightarrow> gostring" where
  "member kv = (case kv of (k, v) \<Rightarrow> quoted k @ '':'' @ marshal v)"

lemma read_members:
  assumes "kvs \<noteq> []" "q \<in> {BeginKey, BeginKeyOrEmpty}"
    and "\<forall>(k, v) \<in> set kvs. valid_utf8 k \<and> reads_back v \<and> Suc (length st) + depth v \<le> max_depth"
  shows "read_value q (InObj acc None # st) (join_comma (map member kvs) @ CHR ''}'' # s) e
    = read_value EndValue (InObj (rev kvs @ acc) None # st) (CHR ''}'' # s) e"
  using assms
proof (induction kvs arbitrary: q acc)
  case (Cons kv kvs)
  obtain k v where kv: "kv = (k, v)" by fastforce
  have v: "valid_utf8 k" "reads_back v" "Suc (length st) + depth v \<le> max_depth"
    using Cons.prems(3) by (simp_all add: kv)
  have key: "read_value q (InObj acc None # st) (quoted k @ CHR '':'' # t) e
      = read_value BeginValue (InObj acc (Some k) # st) t e" for t
    using read_string [OF v(1), of q "InObj acc None # st" "CHR '':'' # t" e] Cons.prems(2)
    by (auto simp: json_space_def)
  have read: "read_value q (InObj acc None # st) (member kv @ d # t) e
      = read_value EndValue (InObj (kv # acc) None # st) (d # t) e" if "delimiter d" for d t
    using reads_backD [OF v(2) _ _ that, of BeginValue "InObj acc (Some k) # st" t e] v(3)
      key [of "marshal v @ d # t"]
    by (simp add: kv member_def del: read_value.simps)
  show ?case
  proof (cases kvs)
    case Nil
    with read [of "CHR ''}''" s] show ?thesis by (simp add: delimiter_def del: read_value.simps)
  next
    case (Cons w ws)
    have "read_value BeginKey (InObj (kv # acc) None # st) (join_comma (map member kvs) @ CHR ''}'' # s) e
        = read_value EndValue (InObj (rev kvs @ kv # acc) None # st) (CHR ''}'' # s) e"
      by (rule Cons.IH) (use Cons.prems(3) Cons in auto)
    with read [of "CHR '',''" "join_comma (map member kvs) @ CHR ''}'' # s"] Cons show ?thesis
      by (simp add: delimiter_def end_value_def json_space_def)
  qed
qed simp

lemma read_array:
  assumes "q \<in> {BeginValue, BeginValueOrEmpty}" "length st + depth (JArr vs) \<le> max_depth"
    and "\<forall>v \<in> set vs. reads_back v"
  shows "read_value q st (marshal (JArr vs) @ s) e = resume (close_container (JArr vs) st) s e"
proof -
  have "read_value q st (marshal (JArr vs) @ s) e
      = read_value BeginValueOrEmpty (InArr [] # st) (join_comma (map marshal vs) @ CHR '']'' # s) e"
    using assms(1,2) by (auto simp: json_space_def begin_value_def open_container_def)
  also have "\<dots> = read_value EndValue (InArr (rev vs) # st) (CHR '']'' # s) e"
  proof (cases "vs = []")
    case True
    then show ?thesis by (simp add: json_space_def)
  next
    case False
    have "\<forall>v \<in> set vs. reads_back v \<and> Suc (length st) + depth v \<le> max_depth"
      using assms(2,3) depth_member [of _ vs] by fastforce
    from read_elements [OF False _ this] show ?thesis by simp
  qed
  also have "\<dots> = resume (close_container (JArr vs) st) s e"
    by (cases "close_container (JArr vs) st") (simp_all add: end_value_def json_space_def close_container_def
      split: if_splits)
  finally show ?thesis .
qed

lemma read_object:
  assumes "q \<in> {BeginValue, BeginValueOrEmpty}" "length st + depth (JObj kvs) \<le> max_depth"
    and "\<forall>(k, v) \<in> set kvs. valid_utf8 k \<and> reads_back v"
  shows "read_value q st (marshal (JObj kvs) @ s) e = resume (close_container (JObj kvs) st) s e"
proof -
  have "read_value q st (marshal (JObj kvs) @ s) e
      = read_value BeginKeyOrEmpty (InObj [] None # st) (join_comma (map member kvs) @ CHR ''}'' # s) e"
    using assms(1,2)
    by (auto simp: json_space_def begin_value_def open_container_def member_def [abs_def])
  also have "\<dots> = read_value EndValue (InObj (rev kvs) None # st) (CHR ''}'' # s) e"
  proof (cases "kvs = []")
    case True
    then show ?thesis by (simp add: json_space_def)
  next
    case False
    have "\<forall>(k, v) \<in> set kvs. valid_utf8 k \<and> reads_back v \<and> Suc (length st) + depth v \<le> max_depth"
      using assms(2,3) depth_member [of _ "map snd kvs"] by (fastforce simp: case_prod_unfold o_def)
    from read_members [OF False _ this] show ?thesis by simp
  qed
  also have "\<dots> = resume (close_container (JObj kvs) st) s e"
    by (cases "close_container (JObj kvs) st") (simp_all add: end_value_def json_space_def close_container_def
      split: if_splits)
  finally show ?thesis .
qed

lemma close_value_next: "value_next st \<Longrightarrow> close_container v st = complete v st"
  by (auto simp: close_container_def)

lemma sendable_reads_back: "sendable v \<Longrightarrow> reads_back v"
proof (induction v)
  case (JBool b)
  have "JBool b \<in> {JNull, JBool True, JBool False}" by (cases b) auto
  then show ?case unfolding reads_back_def using read_literal by blast
next
  case (JArr vs)
  then show ?case
    by (auto simp: reads_back_def close_value_next read_array simp del: read_value.simps marshal.simps depth.simps)
next
  case (JObj kvs)
  then have "\<forall>(k, v) \<in> set kvs. valid_utf8 k \<and> reads_back v" by fastforce
  then show ?case
    by (auto simp: reads_back_def close_value_next read_object simp del: read_value.simps marshal.simps depth.simps)
next
  case (JNum n)
  then show ?case by (auto simp: reads_back_def read_number simp del: read_value.simps)
next
  case (JStr s)
  then show ?case by (auto simp: reads_back_def read_string simp del: read_value.simps)
next
  case JNull
  have "JNull \<in> {JNull, JBool True, JBool False}" by simp
  then show ?case unfolding reads_back_def using read_literal by blast
qed

text \<open>The decoder reads back every object the encoder wrote, whatever follows it.\<close>

lemma read_value_marshal:
  assumes "sendable (JObj kvs)" "depth (JObj kvs) \<le> max_depth"
  shows "read_value BeginValue [] (marshal (JObj kvs) @ s) e = Inr (JObj kvs, s)"
proof -
  have "\<forall>(k, v) \<in> set kvs. valid_utf8 k \<and> reads_back v"
    using assms(1) by (auto intro: sendable_reads_back)
  from read_object [of BeginValue "[]" kvs s e, OF _ _ this] assms(2) show ?thesis
    by (simp add: close_container_def)
qed

section \<open>Delivered strings are valid UTF-8\<close>

fun utf8_json :: "json \<Rightarrow> bool" where
  "utf8_json (JStr s) = valid_utf8 s"
| "utf8_json (JArr vs) = (\<forall>v \<in> set vs. utf8_json v)"
| "utf8_json (JObj kvs) = (\<forall>(k, v) \<in> set kvs. valid_utf8 k \<and> utf8_json v)"
| "utf8_json _ = True"

fun utf8_frame :: "frame \<Rightarrow> bool" where
  "utf8_frame (InArr vs) = (\<forall>v \<in> set vs. utf8_json v)"
| "utf8_frame (InObj kvs k) =
     ((\<forall>(k, v) \<in> set kvs. valid_utf8 k \<and> utf8_json v) \<and> (\<forall>k'. k = Some k' \<longrightarrow> valid_utf8 k'))"

fun utf8_state :: "jstate \<Rightarrow> bool" where
  "utf8_state (InLit s v) = utf8_json v"
| "utf8_state (TopDone v) = utf8_json v"
| "utf8_state _ = True"

fun utf8_scan :: "scan \<Rightarrow> bool" where
  "utf8_scan (Scan q st) = (utf8_state q \<and> list_all utf8_frame st)"
| "utf8_scan (Final v) = utf8_json v"
| "utf8_scan (FinalBefore v) = utf8_json v"
| "utf8_scan Syntax = True"

lemma utf8_complete: "utf8_json v \<Longrightarrow> list_all utf8_frame st \<Longrightarrow> utf8_scan (complete v st)"
  by (cases "(v, st)" rule: complete.cases) auto

lemma utf8_close: "utf8_json v \<Longrightarrow> list_all utf8_frame st \<Longrightarrow> utf8_scan (close_container v st)"
  by (simp add: close_container_def utf8_complete)

lemma utf8_end_value: "list_all utf8_frame st \<Longrightarrow> utf8_scan (end_value st c)"
  by (cases st rule: value_next.cases)
    (auto simp: end_value_def intro!: utf8_close split: frame.splits option.splits)

lemma utf8_begin_value: "list_all utf8_frame st \<Longrightarrow> utf8_scan (begin_value st c)"
  by (simp add: begin_value_def open_container_def)

lemma utf8_end_number: "list_all utf8_frame st \<Longrightarrow> utf8_scan (end_number acc st c)"
  using utf8_complete [of "JNum (rev acc)" st] 
  by (auto simp: end_number_def intro: utf8_end_value split: scan.splits jstate.splits)

lemma utf8_num_step: "list_all utf8_frame st \<Longrightarrow> utf8_scan (num_step p acc st c)"
  by (cases p) (simp_all add: fraction_or_exponent_def exponent_digit_def utf8_end_number)

lemma utf8_step: "utf8_state q \<Longrightarrow> list_all utf8_frame st \<Longrightarrow> utf8_scan (step q st c)"
  by (cases "(q, st, c)" rule: step.cases)
    (simp_all add: utf8_begin_value utf8_end_value utf8_num_step utf8_complete valid_utf8_unquote)

lemma utf8_read_value:
  "read_value q st s e = Inr (v, rest) \<Longrightarrow> utf8_state q \<Longrightarrow> list_all utf8_frame st \<Longrightarrow> utf8_json v"
proof (induction q st s e rule: read_value.induct)
  case (1 q st e)
  then show ?case by (cases q) (auto split: if_splits option.splits)
next
  case (2 q st c s e)
  with utf8_step [of q st c] show ?case by (cases "step q st c") auto
qed

lemma utf8_decoded: "read_value BeginValue [] s e = Inr (v, rest) \<Longrightarrow> utf8_json v"
  by (erule utf8_read_value) simp_all

text \<open>Printable ASCII without the characters that are escaped is sent as it is.\<close>

definition plain_char :: "char \<Rightarrow> bool" where
  "plain_char c \<longleftrightarrow> 0x20 \<le> byte_of c \<and> byte_of c < 0x80 \<and> byte_of c \<notin> {0x22, 0x26, 0x3C, 0x3E, 0x5C}"

lemma escape_plain: "list_all plain_char s \<Longrightarrow> escape s = s"
proof (induction s)
  case (Cons c s)
  let ?b = "byte_of c"
  have b: "0x20 \<le> ?b" "?b < 0x80" "?b \<notin> {0x22, 0x26, 0x3C, 0x3E, 0x5C}"
    using Cons.prems by (simp_all add: plain_char_def)
  then have "map_of short_escapes ?b = None" by (auto simp: short_escapes_def)
  with b have "escape_rune ?b = [c]" by (auto simp: escape_rune_def encode_ascii)
  with Cons b(2) show ?case by (simp add: decode_rune.simps rune_error_def)
qed simp

lemma valid_utf8_plain: "list_all plain_char s \<Longrightarrow> valid_utf8 s"
  by (induction s) (auto simp: plain_char_def decode_rune.simps rune_error_def)

lemma runes_plain: "list_all plain_char s \<Longrightarrow> runes s = map byte_of s"
  by (induction s) (auto simp: plain_char_def decode_rune.simps)

lemma quoted_plain: "list_all plain_char s \<Longrightarrow> quoted s = dquote # s @ [dquote]"
  by (simp add: quoted_def escape_plain)

end
