(* ===== verification/Apigen.thy ===== *)
theory Apigen
  imports Go_Json Go_Time
begin

text \<open>
  The data types generated from the OpenAPI contract (\<open>internal/httpapi/apigen\<close>) that the
  handlers fill or read, and how \<open>encoding/json\<close> renders each: its fields in their order under
  the names of the tags. A time whose year has more than four digits, is negative, or whose zone
  is a day or more away from UTC cannot be rendered; everything else can.
\<close>

type_synonym payload = "gerror + json"

datatype HealthResponseStatus = Ok | OtherStatus gostring

fun status_text :: "HealthResponseStatus \<Rightarrow> gostring" where
  "status_text Ok = ''ok''"
| "status_text (OtherStatus s) = s"

definition HealthResponseStatus_Valid :: "HealthResponseStatus \<Rightarrow> bool" where
  "HealthResponseStatus_Valid e = (case e of Ok \<Rightarrow> True | _ \<Rightarrow> False)"

record HealthResponse =
  hr_Status :: HealthResponseStatus

record ApiWidget =
  api_CreatedAt :: gotime
  api_ID :: int64
  api_Name :: gostring
  api_UpdatedAt :: gotime

record ApiWidgetList =
  list_Items :: "ApiWidget list"
  list_Limit :: int32
  list_NextCursor :: "gostring option"

record CreateWidgetJSONRequestBody =
  request_Name :: gostring

section \<open>Rendering\<close>

definition HealthResponse_json :: "HealthResponse \<Rightarrow> payload" where
  "HealthResponse_json h = Inr (JObj [(''status'', JStr (status_text (hr_Status h)))])"

definition time_json :: "gotime \<Rightarrow> payload" where
  "time_json t =
     (if Year t < 0 \<or> 9999 < Year t then Inl (NewError ''year outside of range [0,9999]'')
      else if 24 \<le> \<bar>zone_offset t\<bar> div 3600 then Inl (NewError ''timezone hour outside of range [0,23]'')
      else Inr (JStr (Format_RFC3339Nano t)))"

definition ApiWidget_json :: "ApiWidget \<Rightarrow> payload" where
  "ApiWidget_json w =
     (case time_json (api_CreatedAt w) of
        Inl e \<Rightarrow> Inl e
      | Inr created \<Rightarrow>
          (case time_json (api_UpdatedAt w) of
             Inl e \<Rightarrow> Inl e
           | Inr updated \<Rightarrow>
               Inr (JObj [(''createdAt'', created), (''id'', JNum (FormatInt (sint (api_ID w)))),
                          (''name'', JStr (api_Name w)), (''updatedAt'', updated)])))"

fun all_json :: "payload list \<Rightarrow> gerror + json list" where
  "all_json [] = Inr []"
| "all_json (p # ps) = (case p of
       Inl e \<Rightarrow> Inl e
     | Inr j \<Rightarrow> (case all_json ps of Inl e \<Rightarrow> Inl e | Inr js \<Rightarrow> Inr (j # js)))"

definition ApiWidgetList_json :: "ApiWidgetList \<Rightarrow> payload" where
  "ApiWidgetList_json l =
     (case all_json (map ApiWidget_json (list_Items l)) of
        Inl e \<Rightarrow> Inl e
      | Inr items \<Rightarrow>
          Inr (JObj [(''items'', JArr items), (''limit'', JNum (FormatInt (sint (list_Limit l)))),
                     (''nextCursor'', (case list_NextCursor l of None \<Rightarrow> JNull | Some s \<Rightarrow> JStr s))]))"

section \<open>What can be rendered\<close>

definition time_renders :: "gotime \<Rightarrow> bool" where
  "time_renders t \<longleftrightarrow> 0 \<le> Year t \<and> Year t \<le> 9999 \<and> zone_offset t = 0"

lemma time_json_renders: "time_renders t \<Longrightarrow> time_json t = Inr (JStr (Format_RFC3339Nano t))"
  by (simp add: time_json_def time_renders_def)

definition widget_renders :: "ApiWidget \<Rightarrow> bool" where
  "widget_renders w \<longleftrightarrow> time_renders (api_CreatedAt w) \<and> time_renders (api_UpdatedAt w)"

definition widget_object :: "ApiWidget \<Rightarrow> json" where
  "widget_object w =
     JObj [(''createdAt'', JStr (Format_RFC3339Nano (api_CreatedAt w))),
           (''id'', JNum (FormatInt (sint (api_ID w)))), (''name'', JStr (api_Name w)),
           (''updatedAt'', JStr (Format_RFC3339Nano (api_UpdatedAt w)))]"

lemma ApiWidget_json_renders: "widget_renders w \<Longrightarrow> ApiWidget_json w = Inr (widget_object w)"
  by (simp add: ApiWidget_json_def widget_renders_def time_json_renders widget_object_def)

lemma all_json_renders: "all_json (map (\<lambda>x. Inr (f x)) xs) = Inr (map f xs)"
  by (induction xs) auto

lemma all_widgets_render:
  "\<forall>w \<in> set ws. widget_renders w \<Longrightarrow> all_json (map ApiWidget_json ws) = Inr (map widget_object ws)"
  by (induction ws) (auto simp: ApiWidget_json_renders)

end
