(* ===== verification/Http.thy ===== *)
theory Http
  imports Go_Json
begin

text \<open>
  What the program uses of \<open>net/http\<close> and \<open>log/slog\<close>: response writers, requests, handlers
  that may panic, and loggers. A handler works on a \<open>world\<close>: the response being written, the
  state of the application behind it, the log, the clock and whether the client is still there.
\<close>

section \<open>Response writers\<close>

text \<open>
  The header map, the status (0 until one is written), the headers as they went out with it, the
  body so far, the error every write meets once the connection is broken, and whether the writer
  is the wrapper of the request log, which alone can be asked for its status.
\<close>

record response =
  rs_header :: "gostring \<rightharpoonup> gostring"
  rs_status :: nat
  rs_sent :: "gostring \<rightharpoonup> gostring"
  rs_body :: gostring
  rs_broken :: "gerror option"
  rs_recorder :: bool

definition fresh_response :: response where
  "fresh_response = \<lparr>rs_header = Map.empty, rs_status = 0, rs_sent = Map.empty, rs_body = [],
     rs_broken = None, rs_recorder = False\<rparr>"

definition Header_Set :: "gostring \<Rightarrow> gostring \<Rightarrow> response \<Rightarrow> response" where
  "Header_Set k v r = r\<lparr>rs_header := (rs_header r)(k \<mapsto> v)\<rparr>"

text \<open>Only the first status counts; headers set later miss the response.\<close>

definition WriteHeader :: "nat \<Rightarrow> response \<Rightarrow> response" where
  "WriteHeader status r =
     (if rs_status r \<noteq> 0 then r else r\<lparr>rs_status := status, rs_sent := rs_header r\<rparr>)"

definition Write :: "gostring \<Rightarrow> response \<Rightarrow> gerror option \<times> response" where
  "Write b r =
     (let r = WriteHeader 200 r in
      case rs_broken r of
        Some e \<Rightarrow> (Some e, r)
      | None \<Rightarrow> (None, r\<lparr>rs_body := rs_body r @ b\<rparr>))"

section \<open>Requests\<close>

text \<open>
  \<open>rq_header\<close> is \<open>Header.Get\<close>, \<open>rq_query\<close> the raw query, \<open>rq_body\<close> the bytes of the body and the
  error of the read behind them (\<open>io.EOF\<close> for a body that ends), \<open>rq_param\<close> the router's
  \<open>URLParam\<close>.
\<close>

record request =
  rq_method :: gostring
  rq_path :: gostring
  rq_query :: gostring
  rq_header :: "gostring \<Rightarrow> gostring"
  rq_body :: "gostring \<times> gerror"
  rq_param :: "gostring \<Rightarrow> gostring"
  rq_ctx :: ctx

section \<open>Logging\<close>

datatype level = LevelDebug | LevelInfo | LevelWarn | LevelError

fun severity :: "level \<Rightarrow> int" where
  "severity LevelDebug = -4"
| "severity LevelInfo = 0"
| "severity LevelWarn = 4"
| "severity LevelError = 8"

text \<open>\<open>AttrStack\<close> is the text of a goroutine's stack.\<close>

datatype attr_value = AttrString gostring | AttrInt int | AttrDuration int | AttrError gerror | AttrStack
  | AttrInts "int64 list"

text \<open>An attribute with the groups that qualify its key, outermost first.\<close>

type_synonym attr = "gostring list \<times> attr_value"

record log_record =
  lr_level :: level
  lr_message :: gostring
  lr_attrs :: "attr list"

definition AddAttrs :: "attr list \<Rightarrow> log_record \<Rightarrow> log_record" where
  "AddAttrs as r = r\<lparr>lr_attrs := lr_attrs r @ as\<rparr>"

text \<open>
  A sink writes the records at or above its level, with the attributes and groups of the logger
  in front; \<open>RequestIDHandler\<close> is the program's own handler around another one.
\<close>

datatype slog_handler =
    Sink level "gostring list" "attr list"
  | RequestIDHandler slog_handler

section \<open>Worlds and handlers\<close>

text \<open>
  The clock in nanoseconds, the time at which the client hung up, and the bytes \<open>crypto/rand\<close>
  will deliver.
\<close>

record 's world =
  wd_resp :: response
  wd_state :: 's
  wd_log :: "log_record list"
  wd_now :: int
  wd_gone :: "int option"
  wd_random :: "nat \<Rightarrow> char"

definition rand_Read :: "nat \<Rightarrow> 's world \<Rightarrow> gostring \<times> 's world" where
  "rand_Read n w = (map (wd_random w) [0..<n], w\<lparr>wd_random := (\<lambda>i. wd_random w (i + n))\<rparr>)"

text \<open>
  The error of a context is that of the first cause: the client that hung up or the deadline.
\<close>

definition ctx_Err :: "ctx \<Rightarrow> 's world \<Rightarrow> gerror option" where
  "ctx_Err c w =
     (let left = (case wd_gone w of Some t \<Rightarrow> t \<le> wd_now w | None \<Rightarrow> False);
          passed = (case ctx_deadline c of Some d \<Rightarrow> d \<le> wd_now w | None \<Rightarrow> False)
      in if left \<and> (passed \<longrightarrow> the (wd_gone w) < the (ctx_deadline c)) then Some Canceled
         else if passed then Some DeadlineExceeded else None)"

text \<open>\<open>context.WithTimeout\<close>: an earlier deadline of the parent stays.\<close>

definition WithTimeout :: "int \<Rightarrow> int \<Rightarrow> ctx \<Rightarrow> ctx" where
  "WithTimeout now timeout c = c\<lparr>ctx_deadline := Some (case ctx_deadline c of
       None \<Rightarrow> now + timeout
     | Some d \<Rightarrow> min d (now + timeout))\<rparr>"

text \<open>The world as a request finds it.\<close>

definition fresh_world :: "'s \<Rightarrow> 's world" where
  "fresh_world s = \<lparr>wd_resp = fresh_response, wd_state = s, wd_log = [], wd_now = 0, wd_gone = None,
     wd_random = (\<lambda>_. CHR 0x00)\<rparr>"

text \<open>A handler returns or panics with a value; error values are the ones that matter.\<close>

datatype panic_value = PanicError gerror | PanicValue gostring
datatype outcome = Returned | Panicked panic_value

type_synonym 's handler = "request \<Rightarrow> 's world \<Rightarrow> outcome \<times> 's world"

definition update_resp :: "(response \<Rightarrow> response) \<Rightarrow> 's world \<Rightarrow> 's world" where
  "update_resp f w = w\<lparr>wd_resp := f (wd_resp w)\<rparr>"

lemma update_resp_simps [simp]:
  "wd_resp (update_resp f w) = f (wd_resp w)" "wd_state (update_resp f w) = wd_state w"
  "wd_log (update_resp f w) = wd_log w" "wd_now (update_resp f w) = wd_now w"
  "wd_gone (update_resp f w) = wd_gone w" "wd_random (update_resp f w) = wd_random w"
  by (simp_all add: update_resp_def)

lemma Header_Set_simps [simp]:
  "rs_header (Header_Set k v r) = (rs_header r)(k \<mapsto> v)" "rs_status (Header_Set k v r) = rs_status r"
  "rs_sent (Header_Set k v r) = rs_sent r" "rs_body (Header_Set k v r) = rs_body r"
  "rs_broken (Header_Set k v r) = rs_broken r" "rs_recorder (Header_Set k v r) = rs_recorder r"
  by (simp_all add: Header_Set_def)

lemma WriteHeader_simps [simp]:
  "rs_header (WriteHeader n r) = rs_header r" "rs_body (WriteHeader n r) = rs_body r"
  "rs_broken (WriteHeader n r) = rs_broken r" "rs_recorder (WriteHeader n r) = rs_recorder r"
  "rs_status (WriteHeader n r) = (if rs_status r = 0 then n else rs_status r)"
  "rs_sent (WriteHeader n r) = (if rs_status r = 0 then rs_header r else rs_sent r)"
  by (simp_all add: WriteHeader_def)

end
