(* ===== verification/Go_Net.thy ===== *)
theory Go_Net
  imports Go_Strings
begin

text \<open>
  What the program uses of Go's \<open>mime\<close> and \<open>net/url\<close>: \<open>mime.ParseMediaType\<close>, of which only the
  media type and the failure matter here, and the first value of a query parameter as
  \<open>URL.Query().Get\<close> finds it.
\<close>

section \<open>Media types\<close>

definition tspecial :: "char \<Rightarrow> bool" where
  "tspecial c \<longleftrightarrow> c \<in> set (CHR 0x5C # CHR 0x22 # ''()<>@,;:/[]?='')"

definition token_char :: "char \<Rightarrow> bool" where
  "token_char c \<longleftrightarrow> 0x20 < byte_of c \<and> byte_of c < 0x7F \<and> \<not> tspecial c"

definition lower_byte :: "char \<Rightarrow> char" where
  "lower_byte c = (if 65 \<le> byte_of c \<and> byte_of c \<le> 90 then char_of (byte_of c + 32) else c)"

text \<open>
  \<open>strings.ToLower\<close> as far as tokens can tell: two runes beyond ASCII have an ASCII lower case
  (\<open>U+0130\<close> and \<open>U+212A\<close>); the others stay beyond ASCII, which no token admits, so their bytes
  are kept.
\<close>

fun ToLower :: "gostring \<Rightarrow> gostring" where
  "ToLower [] = []"
| "ToLower (c # s) =
     (if byte_of c < 0x80 then lower_byte c # ToLower s
      else let (r, n) = decode_rune (c # s) in
        (if r = 0x130 then ''i'' else if r = 0x212A then ''k'' else c # take (n - 1) s)
        @ ToLower (drop (n - 1) s))"

definition consume_token :: "gostring \<Rightarrow> gostring \<times> gostring" where
  "consume_token v = (takeWhile token_char v, dropWhile token_char v)"

text \<open>\<open>checkMediaTypeDisposition\<close> on a media type.\<close>

definition media_type_ok :: "gostring \<Rightarrow> bool" where
  "media_type_ok s = (let (typ, rest) = consume_token s in
     typ \<noteq> [] \<and> (rest = [] \<or>
       (hd rest = CHR ''/'' \<and> (let (subtype, rest') = consume_token (tl rest) in subtype \<noteq> [] \<and> rest' = []))))"

text \<open>A quoted string behind its opening quote: the value and what follows the closing quote.\<close>

fun consume_quoted :: "gostring \<Rightarrow> gostring \<Rightarrow> (gostring \<times> gostring) option" where
  "consume_quoted acc [] = None"
| "consume_quoted acc [c] = (if c = CHR 0x22 then Some (rev acc, []) else None)"
| "consume_quoted acc (c # d # s) =
     (if c = CHR 0x22 then Some (rev acc, d # s)
      else if c = CHR 0x5C \<and> tspecial d then consume_quoted (d # acc) s
      else if c = CHR 0x0D \<or> c = CHR 0x0A then None
      else consume_quoted (c # acc) (d # s))"

definition consume_value :: "gostring \<Rightarrow> (gostring \<times> gostring) option" where
  "consume_value v = (case v of
       [] \<Rightarrow> None
     | c # s \<Rightarrow>
         if c = CHR 0x22 then consume_quoted [] s
         else if token_char c then Some (consume_token v) else None)"

text \<open>\<open>consumeMediaParam\<close>: one \<open>; key=value\<close>, or nothing when the text is not of that form.\<close>

definition consume_param :: "gostring \<Rightarrow> (gostring \<times> gostring \<times> gostring) option" where
  "consume_param v = (case trim_left v of
       [] \<Rightarrow> None
     | c # s \<Rightarrow>
         if c \<noteq> CHR '';'' then None
         else let (key, s) = consume_token (trim_left s) in
           if key = [] then None
           else (case trim_left s of
               [] \<Rightarrow> None
             | c # s \<Rightarrow>
                 if c \<noteq> CHR ''='' then None
                 else (case consume_value (trim_left s) of
                     None \<Rightarrow> None
                   | Some (value, rest) \<Rightarrow> Some (map lower_byte key, value, rest))))"

lemma length_trim_left: "length (trim_left s) \<le> length s"
  using trim_left_suffix [of s] by auto

lemma consume_quoted_length: "consume_quoted acc s = Some (value, rest) \<Longrightarrow> length rest < length s"
  by (induction acc s rule: consume_quoted.induct) (auto split: if_splits)

lemma consume_value_length: "consume_value v = Some (value, rest) \<Longrightarrow> length rest \<le> length v"
  using length_dropWhile_le [of token_char v]
  by (auto simp: consume_value_def consume_token_def dest: consume_quoted_length
      split: list.splits if_splits)

lemma consume_param_length:
  assumes "consume_param v = Some (key, value, rest)"
  shows "length rest < length v"
proof -
  obtain s1 s2 where v: "trim_left v = CHR '';'' # s1"
    and s2: "trim_left (snd (consume_token (trim_left s1))) = CHR ''='' # s2"
    and val: "consume_value (trim_left s2) = Some (value, rest)"
    using assms by (auto simp: consume_param_def Let_def split: list.splits if_splits option.splits prod.splits)
  have "length rest \<le> length s2"
    using consume_value_length [OF val] length_trim_left [of s2] by linarith
  also have "Suc (length s2) \<le> length s1"
    using length_trim_left [of "snd (consume_token (trim_left s1))"] s2
      length_dropWhile_le [of token_char "trim_left s1"] length_trim_left [of s1]
    by (simp add: consume_token_def)
  also have "length s1 < length v" using length_trim_left [of v] v by simp
  finally show ?thesis by simp
qed

text \<open>The loop over the parameters: a key given twice must have the same value.\<close>

function params_ok :: "(gostring \<times> gostring) list \<Rightarrow> gostring \<Rightarrow> bool" where
  "params_ok seen v =
     (let v = trim_left v in
      if v = [] then True
      else case consume_param v of
        None \<Rightarrow> TrimSpace v = '';''
      | Some (key, value, rest) \<Rightarrow>
          (case map_of seen key of
             Some value' \<Rightarrow> value' = value \<and> params_ok seen rest
           | None \<Rightarrow> params_ok ((key, value) # seen) rest))"
  by pat_completeness auto
termination
proof (relation "measure (\<lambda>(seen, v). length v)")
  show "wf (measure (\<lambda>(seen, v). length v))" by simp
qed (use consume_param_length length_trim_left in \<open>fastforce dest: order_less_le_trans\<close>)+

declare params_ok.simps [simp del]

definition ParseMediaType :: "gostring \<Rightarrow> gostring option" where
  "ParseMediaType v =
     (let (base, _, _) = Cut (CHR '';'') v;
          mediatype = TrimSpace (ToLower base)
      in if media_type_ok mediatype \<and> params_ok [] (drop (length base) v) then Some mediatype else None)"

section \<open>Query strings\<close>

definition unhex :: "char \<Rightarrow> nat option" where
  "unhex c = (let b = byte_of c in
     if 48 \<le> b \<and> b \<le> 57 then Some (b - 48)
     else if 97 \<le> b \<and> b \<le> 102 then Some (b - 87)
     else if 65 \<le> b \<and> b \<le> 70 then Some (b - 55)
     else None)"

text \<open>\<open>url.QueryUnescape\<close>.\<close>

fun QueryUnescape :: "gostring \<Rightarrow> gostring option" where
  "QueryUnescape [] = Some []"
| "QueryUnescape (c # s) =
     (if c = CHR ''%'' then
        (case s of
           a # b # t \<Rightarrow>
             (case (unhex a, unhex b) of
                (Some x, Some y) \<Rightarrow> map_option (\<lambda>r. char_of (x * 16 + y) # r) (QueryUnescape t)
              | _ \<Rightarrow> None)
         | _ \<Rightarrow> None)
      else if c = CHR ''+'' then map_option (\<lambda>r. CHR '' '' # r) (QueryUnescape s)
      else map_option (\<lambda>r. c # r) (QueryUnescape s))"

definition max_query_params :: nat where
  "max_query_params = 10000"

text \<open>
  \<open>url.ParseQuery\<close> with its error dropped, as \<open>URL.Query\<close> does: a part with a semicolon or with
  a malformed escape is left out, and so is the whole query beyond the limit of parameters.
\<close>

definition query_part :: "gostring \<Rightarrow> (gostring \<times> gostring) option" where
  "query_part part =
     (if part = [] \<or> CHR '';'' \<in> set part then None
      else let (key, value, _) = Cut (CHR ''='') part in
        (case (QueryUnescape key, QueryUnescape value) of
           (Some k, Some v) \<Rightarrow> Some (k, v)
         | _ \<Rightarrow> None))"

definition Query_values :: "gostring \<Rightarrow> (gostring \<times> gostring) list" where
  "Query_values raw =
     (let parts = Split (CHR ''&'') raw in
      if max_query_params < length parts then [] else List.map_filter query_part parts)"

text \<open>\<open>Values.Get\<close>: the first value of the key, or the empty string.\<close>

definition Query_Get :: "gostring \<Rightarrow> gostring \<Rightarrow> gostring" where
  "Query_Get raw key = (case map_of (Query_values raw) key of None \<Rightarrow> [] | Some v \<Rightarrow> v)"

section \<open>Queries without escapes\<close>

lemma QueryUnescape_plain: "CHR ''%'' \<notin> set s \<Longrightarrow> CHR ''+'' \<notin> set s \<Longrightarrow> QueryUnescape s = Some s"
  by (induction s) auto

lemma Split_single: "c \<notin> set s \<Longrightarrow> Split c s = [s]"
  by (induction s) auto

lemma Split_append: "c \<notin> set a \<Longrightarrow> Split c (a @ c # b) = a # Split c b"
  by (induction a) auto

definition query_plain :: "gostring \<Rightarrow> bool" where
  "query_plain s \<longleftrightarrow> (\<forall>c \<in> set s. c \<notin> {CHR ''%'', CHR ''+'', CHR ''&'', CHR ''='', CHR '';''})"

lemma query_part_plain:
  assumes "query_plain k" "query_plain v"
  shows "query_part (k @ CHR ''='' # v) = Some (k, v)"
proof -
  have "Cut (CHR ''='') (k @ CHR ''='' # v) = (k, v, True)"
    using assms(1) by (intro Cut_append) (auto simp: query_plain_def)
  moreover have "QueryUnescape k = Some k" "QueryUnescape v = Some v"
    using assms by (auto simp: query_plain_def intro!: QueryUnescape_plain)
  ultimately show ?thesis using assms by (auto simp: query_part_def query_plain_def)
qed

lemma no_ampersand: "query_plain k \<Longrightarrow> query_plain v \<Longrightarrow> CHR ''&'' \<notin> set (k @ CHR ''='' # v)"
  by (auto simp: query_plain_def)

lemma Query_values_one:
  assumes "query_plain k" "query_plain v"
  shows "Query_values (k @ CHR ''='' # v) = [(k, v)]"
  using Split_single [OF no_ampersand [OF assms]]
  by (simp add: Query_values_def max_query_params_def List.map_filter_def query_part_plain [OF assms])

lemma Query_values_two:
  assumes "query_plain k" "query_plain v" "query_plain k'" "query_plain v'"
  shows "Query_values ((k @ CHR ''='' # v) @ CHR ''&'' # (k' @ CHR ''='' # v')) = [(k, v), (k', v')]"
  unfolding Query_values_def Split_append [OF no_ampersand [OF assms(1,2)]]
    Split_single [OF no_ampersand [OF assms(3,4)]]
  by (simp add: max_query_params_def List.map_filter_def query_part_plain [OF assms(1,2)]
      query_part_plain [OF assms(3,4)])

end
