(* ===== verification/Httpkit.thy ===== *)
theory Httpkit
  imports Apigen Http Go_Net
begin

text \<open>
  The transport helpers of \<open>internal/platform/httpkit\<close>: the strict JSON request decoder with its
  body limit and validation, the JSON response writers, the public error envelope, and the
  response to a failed request context. The validation library is a parameter of the decoder.
\<close>

abbreviation newline :: gostring where
  "newline \<equiv> [CHR 0x0A]"

section \<open>Public errors\<close>

text \<open>The details of an error, in the order of their keys; the encoder omits an empty map.\<close>

record APIError =
  err_Code :: gostring
  err_Message :: gostring
  err_Details :: "(gostring \<times> json) list"

definition ErrorResponse_json :: "APIError \<Rightarrow> payload" where
  "ErrorResponse_json e =
     Inr (JObj [(''error'',
       JObj ([(''code'', JStr (err_Code e)), (''message'', JStr (err_Message e))]
         @ (if err_Details e = [] then [] else [(''details'', JObj (err_Details e))])))])"

definition FieldViolation_json :: "FieldViolation \<Rightarrow> json" where
  "FieldViolation_json v = JObj [(''field'', JStr (Field v)), (''rule'', JStr (Rule v))]"

definition internalErrorJSON :: gostring where
  \<open>internalErrorJSON =
     ''{"error":{"code":"internal_error","message":"An internal error occurred."}}'' @ newline\<close>

section \<open>Responses\<close>

definition writeJSONBytes :: "nat \<Rightarrow> gostring \<Rightarrow> response \<Rightarrow> gerror option \<times> response" where
  "writeJSONBytes status body r =
     (let r = Header_Set ''Content-Type'' ''application/json; charset=utf-8'' r;
          r = WriteHeader status r
      in case Write body r of
           (Some e, r) \<Rightarrow> (Some (Wrapped ''write JSON response'' e), r)
         | (None, r) \<Rightarrow> (None, r))"

text \<open>A payload of \<open>None\<close> is the nil interface.\<close>

definition WriteJSON :: "nat \<Rightarrow> payload option \<Rightarrow> response \<Rightarrow> gerror option \<times> response" where
  "WriteJSON status payload r =
     (if status = 204 then (None, WriteHeader status r)
      else case payload of
        None \<Rightarrow> (None, WriteHeader status r)
      | Some (Inl err) \<Rightarrow>
          (case writeJSONBytes 500 internalErrorJSON r of
             (writeErr, r) \<Rightarrow>
               (errors_Join (Wrapped ''encode JSON response'' err
                  # (case writeErr of None \<Rightarrow> [] | Some e \<Rightarrow> [e])), r))
      | Some (Inr j) \<Rightarrow> writeJSONBytes status (marshal j @ newline) r)"

definition WriteErrorDetails ::
  "nat \<Rightarrow> gostring \<Rightarrow> gostring \<Rightarrow> (gostring \<times> json) list \<Rightarrow> response \<Rightarrow> response" where
  "WriteErrorDetails status code message details r =
     snd (WriteJSON status
       (Some (ErrorResponse_json \<lparr>err_Code = code, err_Message = message, err_Details = details\<rparr>)) r)"

definition WriteError :: "nat \<Rightarrow> gostring \<Rightarrow> gostring \<Rightarrow> response \<Rightarrow> response" where
  "WriteError status code message r = WriteErrorDetails status code message [] r"

text \<open>
  The response to a failed request context, and whether the error described one: a passed
  deadline is answered, a client that hung up is not.
\<close>

definition WriteContextError :: "gerror \<Rightarrow> response \<Rightarrow> bool \<times> response" where
  "WriteContextError err r =
     (if errors_Is err DeadlineExceeded
      then (True, WriteError 504 ''request_timeout'' ''The request took too long to complete.'' r)
      else if errors_Is err Canceled then (True, r)
      else (False, r))"

section \<open>Requests\<close>

definition isJSONContentType :: "gostring \<Rightarrow> bool" where
  "isJSONContentType v = (case ParseMediaType v of
       None \<Rightarrow> False
     | Some mediaType \<Rightarrow> mediaType = ''application/json'' \<or> HasSuffix mediaType ''+json'')"

text \<open>The name a violated field is reported under: its JSON name, or its own without one.\<close>

definition tag_name :: "gostring \<Rightarrow> gostring \<Rightarrow> gostring" where
  "tag_name json_tag field_name =
     (let (name, _, _) = Cut (CHR '','') json_tag in
      if name = [] \<or> name = ''-'' then field_name else name)"

text \<open>What \<open>validator.Struct\<close> answers: the violated fields with their tags, or another error.\<close>

datatype validation = Valid | ValidationErrors "(gostring \<times> gostring) list" | InvalidValidation gerror

record 'a JSONDecoder =
  maxRequestBytes :: int64
  dec_validator :: "'a \<Rightarrow> validation"

text \<open>The validation library is given the naming function; a limit below 1 panics.\<close>

definition NewJSONDecoder ::
  "((gostring \<Rightarrow> gostring \<Rightarrow> gostring) \<Rightarrow> 'a \<Rightarrow> validation) \<Rightarrow> int64 \<Rightarrow> gostring + 'a JSONDecoder" where
  "NewJSONDecoder validate maxBytes =
     (if sint maxBytes < 1 then Inl ''maximum request bytes must be at least 1''
      else Inr \<lparr>maxRequestBytes = maxBytes, dec_validator = validate tag_name\<rparr>)"

text \<open>
  \<open>http.MaxBytesReader\<close>: a body within the limit is read as it is; of a longer one the limit is
  delivered and the next read fails.
\<close>

definition MaxBytesReader :: "int64 \<Rightarrow> gostring \<times> gerror \<Rightarrow> gostring \<times> gerror" where
  "MaxBytesReader limit body =
     (if int (length (fst body)) \<le> sint limit then body
      else (take (nat (sint limit)) (fst body), MaxBytesError))"

text \<open>
  \<open>Decode\<close>: \<open>unmarshal\<close> stores one value in the destination type, unknown fields disallowed.
  The second decoding asks whether the body ends behind the first value.
\<close>

definition Decode :: "'a JSONDecoder \<Rightarrow> (json \<Rightarrow> gerror + 'a) \<Rightarrow> request \<Rightarrow> gerror + 'a" where
  "Decode decoder unmarshal r =
     (if \<not> isJSONContentType (rq_header r ''Content-Type'') then Inl ErrUnsupportedMediaType
      else let (bytes, end_error) = MaxBytesReader (maxRequestBytes decoder) (rq_body r) in
        case read_value BeginValue [] bytes end_error of
          Inl err \<Rightarrow> Inl (Wrapped ''decode JSON body'' err)
        | Inr (j, rest) \<Rightarrow>
            (case unmarshal j of
               Inl err \<Rightarrow> Inl (Wrapped ''decode JSON body'' err)
             | Inr destination \<Rightarrow>
                 if (case read_value BeginValue [] rest end_error of
                       Inl err \<Rightarrow> \<not> errors_Is err ErrEOF
                     | Inr _ \<Rightarrow> True)
                 then Inl (NewError ''request body must contain one JSON value'')
                 else (case dec_validator decoder destination of
                     Valid \<Rightarrow> Inr destination
                   | InvalidValidation err \<Rightarrow> Inl (Wrapped ''validate JSON body'' err)
                   | ValidationErrors fs \<Rightarrow>
                       Inl (ValidationError (map (\<lambda>(f, tag). \<lparr>Field = f, Rule = tag\<rparr>) fs)))))"

section \<open>What is written\<close>

text \<open>A response nothing has been written to, on a connection that works.\<close>

definition unwritten :: "response \<Rightarrow> bool" where
  "unwritten r \<longleftrightarrow> rs_status r = 0 \<and> rs_broken r = None \<and> rs_body r = []"

lemma unwritten_fresh [simp]:
  "unwritten (wd_resp (fresh_world s))" "wd_state (fresh_world s) = s" "rs_status (wd_resp (fresh_world s)) = 0"
  by (simp_all add: unwritten_def fresh_world_def fresh_response_def)

definition json_response :: "nat \<Rightarrow> json \<Rightarrow> response \<Rightarrow> response" where
  "json_response status j r =
     r\<lparr>rs_header := (rs_header r)(''Content-Type'' \<mapsto> ''application/json; charset=utf-8''),
       rs_status := status,
       rs_sent := (rs_header r)(''Content-Type'' \<mapsto> ''application/json; charset=utf-8''),
       rs_body := marshal j @ newline\<rparr>"

definition error_object :: "gostring \<Rightarrow> gostring \<Rightarrow> json" where
  "error_object code message =
     JObj [(''error'', JObj [(''code'', JStr code), (''message'', JStr message)])]"

lemma json_response_simps [simp]:
  "rs_status (json_response status j r) = status" "rs_body (json_response status j r) = marshal j @ newline"
  "rs_broken (json_response status j r) = rs_broken r"
  "rs_header (json_response status j r) =
     (rs_header r)(''Content-Type'' \<mapsto> ''application/json; charset=utf-8'')"
  "rs_sent (json_response status j r) =
     (rs_header r)(''Content-Type'' \<mapsto> ''application/json; charset=utf-8'')"
  by (simp_all add: json_response_def)

lemma writeJSONBytes_unwritten:
  "unwritten r \<Longrightarrow> 0 < status \<Longrightarrow> writeJSONBytes status (marshal j @ newline) r = (None, json_response status j r)"
  by (simp add: writeJSONBytes_def Write_def unwritten_def json_response_def Header_Set_def WriteHeader_def
      Let_def)

lemma WriteJSON_unwritten:
  "unwritten r \<Longrightarrow> 0 < status \<Longrightarrow> status \<noteq> 204 \<Longrightarrow>
     WriteJSON status (Some (Inr j)) r = (None, json_response status j r)"
  by (simp add: WriteJSON_def writeJSONBytes_unwritten)

lemma internalErrorJSON_object:
  "internalErrorJSON = marshal (error_object ''internal_error'' ''An internal error occurred.'') @ newline"
  by (simp add: internalErrorJSON_def error_object_def quoted_plain plain_char_def)

lemma WriteJSON_unencodable:
  "unwritten r \<Longrightarrow> status \<noteq> 204 \<Longrightarrow> WriteJSON status (Some (Inl e)) r =
     (Some (Joined [Wrapped ''encode JSON response'' e]),
      json_response 500 (error_object ''internal_error'' ''An internal error occurred.'') r)"
  by (simp add: WriteJSON_def internalErrorJSON_object writeJSONBytes_unwritten errors_Join_def)

lemma WriteError_unwritten:
  "unwritten r \<Longrightarrow> 0 < status \<Longrightarrow> status \<noteq> 204 \<Longrightarrow>
     WriteError status code message r = json_response status (error_object code message) r"
  by (simp add: WriteError_def WriteErrorDetails_def ErrorResponse_json_def WriteJSON_unwritten error_object_def)

lemma WriteErrorDetails_unwritten:
  "unwritten r \<Longrightarrow> 0 < status \<Longrightarrow> status \<noteq> 204 \<Longrightarrow> details \<noteq> [] \<Longrightarrow>
     WriteErrorDetails status code message details r =
       json_response status
         (JObj [(''error'', JObj [(''code'', JStr code), (''message'', JStr message), (''details'', JObj details)])]) r"
  by (simp add: WriteErrorDetails_def ErrorResponse_json_def WriteJSON_unwritten)

text \<open>No helper changes a status that is already written, and none shortens the body.\<close>

lemma writeJSONBytes_status: "rs_status (snd (writeJSONBytes status b r)) =
    (if rs_status r \<noteq> 0 then rs_status r else if status \<noteq> 0 then status else 200)"
  by (simp add: writeJSONBytes_def Write_def Let_def split: option.splits)

lemma WriteJSON_status: "rs_status r \<noteq> 0 \<Longrightarrow> rs_status (snd (WriteJSON status p r)) = rs_status r"
  using writeJSONBytes_status
  by (auto simp: WriteJSON_def split: option.splits sum.splits prod.splits)
    (metis (no_types, lifting) snd_conv)+

section \<open>What is accepted\<close>

lemma read_value_error:
  assumes "read_value q st s e = Inl err"
  shows "err = e \<or> err = err_json_syntax \<or> (e = ErrEOF \<and> err = err_unexpected_eof)"
  using assms
  by (induction q st s e rule: read_value.induct) (auto split: if_splits option.splits scan.splits)

text \<open>Only a stream of white space, ended by its end, is the end of input.\<close>

lemma complete_states:
  "complete v st = Scan q' st' \<Longrightarrow> (q' = EndKey \<longrightarrow> st' \<noteq> []) \<and> q' \<noteq> BeginValue"
  by (cases "(v, st)" rule: complete.cases) auto

lemma close_states:
  "close_container v st = Scan q' st' \<Longrightarrow> (q' = EndKey \<longrightarrow> st' \<noteq> []) \<and> q' \<noteq> BeginValue"
  by (auto simp: close_container_def dest: complete_states split: if_splits)

lemma end_value_states:
  "end_value st c = Scan q' st' \<Longrightarrow> (q' = EndKey \<longrightarrow> st' \<noteq> []) \<and> (q' = BeginValue \<longrightarrow> st' \<noteq> [])"
  by (cases st rule: value_next.cases)
    (auto simp: end_value_def split: if_splits option.splits frame.splits dest: close_states)

lemma end_number_states:
  "end_number acc st c = Scan q' st' \<Longrightarrow> (q' = EndKey \<longrightarrow> st' \<noteq> []) \<and> (q' = BeginValue \<longrightarrow> st' \<noteq> [])"
  by (auto simp: end_number_def split: scan.splits jstate.splits dest: end_value_states)

lemma num_step_states:
  "num_step p acc st c = Scan q' st' \<Longrightarrow> (q' = EndKey \<longrightarrow> st' \<noteq> []) \<and> (q' = BeginValue \<longrightarrow> st' \<noteq> [])"
  by (cases p) (auto simp: fraction_or_exponent_def exponent_digit_def
      dest: end_number_states split: if_splits)

lemma begin_value_states:
  "begin_value st c = Scan q' st' \<Longrightarrow> q' \<noteq> EndKey \<and> q' \<noteq> BeginValue"
  by (auto simp: begin_value_def open_container_def split: if_splits)

lemma step_states:
  assumes "step q st c = Scan q' st'" "q = EndKey \<longrightarrow> st \<noteq> []"
  shows "(q' = EndKey \<longrightarrow> st' \<noteq> []) \<and>
    (q' = BeginValue \<and> st' = [] \<longrightarrow> q = BeginValue \<and> st = [] \<and> json_space c)"
  using assms
  by (cases "(q, st, c)" rule: step.cases)
    (auto split: if_splits dest: begin_value_states end_value_states num_step_states complete_states)

lemma read_value_eof:
  assumes "read_value q st s ErrEOF = Inl ErrEOF" "q = EndKey \<longrightarrow> st \<noteq> []"
  shows "q = BeginValue \<and> st = [] \<and> list_all json_space s"
  using assms
proof (induction s arbitrary: q st)
  case (Cons c s)
  then obtain q' st' where step: "step q st c = Scan q' st'"
    and rest: "read_value q' st' s ErrEOF = Inl ErrEOF"
    by (auto split: scan.splits)
  note states = step_states [OF step Cons.prems(2)]
  from Cons.IH [OF rest] states show ?case by auto
qed (auto split: if_splits option.splits)

lemma read_value_spaces:
  "list_all json_space s \<Longrightarrow> read_value BeginValue [] s e = Inl (if e = ErrEOF then ErrEOF else e)"
  by (induction s) auto

lemma end_of_input:
  "read_value BeginValue [] s ErrEOF = Inl err \<and> errors_Is err ErrEOF \<longleftrightarrow> err = ErrEOF \<and> list_all json_space s"
proof -
  have "err = ErrEOF" if "read_value BeginValue [] s ErrEOF = Inl err" "errors_Is err ErrEOF"
    using read_value_error [OF that(1)] that(2) by auto
  with read_value_eof [of BeginValue "[]" s] read_value_spaces [of s ErrEOF] show ?thesis by auto
qed

lemma MaxBytesReader_within:
  "int (length (fst body)) \<le> sint limit \<Longrightarrow> MaxBytesReader limit body = body"
  by (simp add: MaxBytesReader_def)

text \<open>A body beyond the limit is never accepted, whatever its first value is.\<close>

lemma Decode_oversize:
  assumes "sint (maxRequestBytes d) < int (length (fst (rq_body r)))"
  shows "\<exists>err. Decode d u r = Inl err"
proof -
  define bs where "bs = take (nat (sint (maxRequestBytes d))) (fst (rq_body r))"
  have limited: "MaxBytesReader (maxRequestBytes d) (rq_body r) = (bs, MaxBytesError)"
    using assms by (simp add: MaxBytesReader_def bs_def)
  have never: "\<not> errors_Is err ErrEOF" if "read_value BeginValue [] s MaxBytesError = Inl err" for s err
    using read_value_error [OF that] by auto
  have refused: "(case read_value BeginValue [] s MaxBytesError of Inl err \<Rightarrow> \<not> errors_Is err ErrEOF | Inr _ \<Rightarrow> True)" for s
    using never by (cases "read_value BeginValue [] s MaxBytesError") simp_all
  show ?thesis
    unfolding Decode_def limited Let_def prod.case
    by (cases "read_value BeginValue [] bs MaxBytesError") (simp_all add: refused split: prod.split sum.split)
qed

text \<open>Which bodies are accepted, among those that arrive completely.\<close>

lemma Decode_accepts:
  assumes "rq_body r = (bs, ErrEOF)"
  shows "Decode d u r = Inr x \<longleftrightarrow>
    isJSONContentType (rq_header r ''Content-Type'') \<and> int (length bs) \<le> sint (maxRequestBytes d)
    \<and> (\<exists>j rest. read_value BeginValue [] bs ErrEOF = Inr (j, rest) \<and> list_all json_space rest \<and> u j = Inr x)
    \<and> dec_validator d x = Valid"
proof (cases "int (length bs) \<le> sint (maxRequestBytes d)")
  case False
  with Decode_oversize [of d r u] assms show ?thesis by fastforce
next
  case True
  then have within: "MaxBytesReader (maxRequestBytes d) (rq_body r) = (bs, ErrEOF)"
    using assms by (simp add: MaxBytesReader_def)
  have ends: "(case read_value BeginValue [] rest ErrEOF of Inl err \<Rightarrow> \<not> errors_Is err ErrEOF | Inr _ \<Rightarrow> True)
      \<longleftrightarrow> \<not> list_all json_space rest" for rest
    using end_of_input [of rest] read_value_spaces [of rest ErrEOF]
    by (cases "read_value BeginValue [] rest ErrEOF") (simp_all, blast+)
  show ?thesis
    unfolding Decode_def within Let_def prod.case ends
    using True by (auto split: sum.splits validation.splits)
qed

text \<open>The body a well-behaved client sends: one encoded object within the limit.\<close>

lemma Decode_object:
  assumes "isJSONContentType (rq_header r ''Content-Type'')"
    and "rq_body r = (marshal (JObj kvs), ErrEOF)"
    and "sendable (JObj kvs)" "depth (JObj kvs) \<le> max_depth"
    and "int (length (marshal (JObj kvs))) \<le> sint (maxRequestBytes d)"
  shows "Decode d u r = (case u (JObj kvs) of
      Inl err \<Rightarrow> Inl (Wrapped ''decode JSON body'' err)
    | Inr x \<Rightarrow> (case dec_validator d x of
          Valid \<Rightarrow> Inr x
        | InvalidValidation err \<Rightarrow> Inl (Wrapped ''validate JSON body'' err)
        | ValidationErrors fs \<Rightarrow> Inl (ValidationError (map (\<lambda>(f, tag). \<lparr>Field = f, Rule = tag\<rparr>) fs))))"
proof -
  have within: "MaxBytesReader (maxRequestBytes d) (rq_body r) = (marshal (JObj kvs), ErrEOF)"
    using assms(2,5) by (simp add: MaxBytesReader_def del: marshal.simps)
  have read: "read_value BeginValue [] (marshal (JObj kvs)) ErrEOF = Inr (JObj kvs, [])"
    using read_value_marshal [OF assms(3,4), of "[]" ErrEOF] by (simp del: marshal.simps read_value.simps)
  show ?thesis
    unfolding Decode_def within Let_def prod.case read sum.case
    using assms(1) by (simp split: sum.splits)
qed

text \<open>The errors of decoding, as the handlers tell them apart.\<close>

lemma Decode_unsupported:
  "\<not> isJSONContentType (rq_header r ''Content-Type'') \<Longrightarrow> Decode d u r = Inl ErrUnsupportedMediaType"
  by (simp add: Decode_def)

end
