(* ===== verification/Http_Log.thy ===== *)
theory Http_Log
  imports Http
begin

text \<open>
  The log handler of \<open>internal/httpapi/logging.go\<close>: it adds the request's ID to every record
  logged with the request's context, and keeps doing so for loggers derived from it.
\<close>

fun enabled :: "slog_handler \<Rightarrow> level \<Rightarrow> bool" where
  "enabled (Sink l gs as) lv = (severity l \<le> severity lv)"
| "enabled (RequestIDHandler h) lv = enabled h lv"

text \<open>A nil handler makes the constructor panic.\<close>

definition NewLogHandler :: "slog_handler option \<Rightarrow> gostring + slog_handler" where
  "NewLogHandler handler = (case handler of
       None \<Rightarrow> Inl ''log handler must not be nil''
     | Some h \<Rightarrow> Inr (RequestIDHandler h))"

text \<open>\<open>Handle\<close>: the records written for one record logged with a context.\<close>

fun Handle :: "slog_handler \<Rightarrow> ctx \<Rightarrow> log_record \<Rightarrow> log_record list" where
  "Handle (Sink l gs as) c r =
     [r\<lparr>lr_attrs := as @ map (\<lambda>(k, v). (gs @ k, v)) (lr_attrs r)\<rparr>]"
| "Handle (RequestIDHandler h) c r =
     (let requestID = ctx_request_id c in
      if requestID = [] then Handle h c r
      else Handle h c (AddAttrs [([''requestID''], AttrString requestID)] r))"

fun WithAttrs :: "slog_handler \<Rightarrow> attr list \<Rightarrow> slog_handler" where
  "WithAttrs (Sink l gs as) attrs = Sink l gs (as @ map (\<lambda>(k, v). (gs @ k, v)) attrs)"
| "WithAttrs (RequestIDHandler h) attrs = RequestIDHandler (WithAttrs h attrs)"

text \<open>A group with an empty name changes nothing.\<close>

fun WithGroup :: "slog_handler \<Rightarrow> gostring \<Rightarrow> slog_handler" where
  "WithGroup (Sink l gs as) name = Sink l (if name = [] then gs else gs @ [name]) as"
| "WithGroup (RequestIDHandler h) name = RequestIDHandler (WithGroup h name)"

text \<open>\<open>Logger.InfoContext\<close> and its siblings, on the world.\<close>

definition log_context ::
  "slog_handler \<Rightarrow> level \<Rightarrow> ctx \<Rightarrow> gostring \<Rightarrow> (gostring \<times> attr_value) list \<Rightarrow> 's world \<Rightarrow> 's world" where
  "log_context h lv c msg attrs w =
     (if enabled h lv
      then w\<lparr>wd_log := wd_log w
        @ Handle h c \<lparr>lr_level = lv, lr_message = msg, lr_attrs = map (\<lambda>(k, v). ([k], v)) attrs\<rparr>\<rparr>
      else w)"

lemma log_context_simps [simp]:
  "wd_resp (log_context h lv c msg attrs w) = wd_resp w"
  "wd_state (log_context h lv c msg attrs w) = wd_state w"
  "wd_now (log_context h lv c msg attrs w) = wd_now w"
  "wd_gone (log_context h lv c msg attrs w) = wd_gone w"
  "wd_random (log_context h lv c msg attrs w) = wd_random w"
  by (simp_all add: log_context_def)

section \<open>Derived loggers\<close>

datatype derivation = DeriveAttrs "attr list" | DeriveGroup gostring

fun derive :: "slog_handler \<Rightarrow> derivation \<Rightarrow> slog_handler" where
  "derive h (DeriveAttrs as) = WithAttrs h as"
| "derive h (DeriveGroup g) = WithGroup h g"

definition derive_all :: "slog_handler \<Rightarrow> derivation list \<Rightarrow> slog_handler" where
  "derive_all h ds = fold (\<lambda>d h. derive h d) ds h"

lemma derive_all_wrapped: "\<exists>h'. derive_all (RequestIDHandler h) ds = RequestIDHandler h'"
proof -
  have "\<exists>h'. fold (\<lambda>d h. derive h d) ds (RequestIDHandler h) = RequestIDHandler h'" for h
  proof (induction ds arbitrary: h)
    case (Cons d ds)
    then show ?case by (cases d) auto
  qed simp
  then show ?thesis by (simp add: derive_all_def)
qed

lemma Handle_nonempty: "Handle h c r \<noteq> []"
  by (induction h arbitrary: r) (auto simp: Let_def)

text \<open>Whatever a record carries reaches the sink, below the groups of the logger.\<close>

lemma Handle_carries:
  "(k, v) \<in> set (lr_attrs r) \<Longrightarrow> out \<in> set (Handle h c r) \<Longrightarrow> \<exists>gs. (gs @ k, v) \<in> set (lr_attrs out)"
proof (induction h arbitrary: r)
  case (RequestIDHandler h)
  show ?case
  proof (cases "ctx_request_id c = []")
    case True
    with RequestIDHandler show ?thesis by (simp add: Let_def)
  next
    case False
    let ?r = "AddAttrs [([''requestID''], AttrString (ctx_request_id c))] r"
    have "(k, v) \<in> set (lr_attrs ?r)" using RequestIDHandler.prems(1) by (simp add: AddAttrs_def)
    from RequestIDHandler.IH [OF this] RequestIDHandler.prems(2) False show ?thesis
      by (simp add: Let_def)
  qed
qed force

lemma Handle_request_id:
  assumes "ctx_request_id c \<noteq> []" "out \<in> set (Handle (RequestIDHandler h) c r)"
  shows "\<exists>gs. (gs @ [''requestID''], AttrString (ctx_request_id c)) \<in> set (lr_attrs out)"
  using assms Handle_carries [of "[''requestID'']" "AttrString (ctx_request_id c)"
      "AddAttrs [([''requestID''], AttrString (ctx_request_id c))] r" out h c]
  by (simp add: AddAttrs_def)

lemma Handle_keeps: "out \<in> set (Handle h c r) \<Longrightarrow> lr_level out = lr_level r \<and> lr_message out = lr_message r"
  by (induction h arbitrary: r) (auto simp: Let_def AddAttrs_def split: if_splits)

end
