(* ===== verification/Go_Base64.thy ===== *)
theory Go_Base64
  imports Prelude
begin

text \<open>
  Go's \<open>base64.RawURLEncoding\<close>: the URL alphabet, no padding, and the lenient decoder the
  standard library uses by default (carriage returns and newlines are skipped, the unused low
  bits of a short final group are not checked, a single left-over character is an error).
\<close>

definition base64_url :: "char list" where
  "base64_url = ''ABCDEFGHIJKLMNOPQRSTUVWXYZabcdefghijklmnopqrstuvwxyz0123456789-_''"

definition sextet_char :: "nat \<Rightarrow> char" where
  "sextet_char n = base64_url ! n"

definition char_sextet :: "char \<Rightarrow> nat option" where
  "char_sextet c = (let b = byte_of c in
     if 65 \<le> b \<and> b \<le> 90 then Some (b - 65)
     else if 97 \<le> b \<and> b \<le> 122 then Some (b - 71)
     else if 48 \<le> b \<and> b \<le> 57 then Some (b + 4)
     else if b = 45 then Some 62
     else if b = 95 then Some 63
     else None)"

text \<open>\<open>EncodeToString\<close> on the byte values: three bytes become four sextets.\<close>

fun sextets_of :: "nat list \<Rightarrow> nat list" where
  "sextets_of (a # b # c # s) =
     [a div 4, a mod 4 * 16 + b div 16, b mod 16 * 4 + c div 64, c mod 64] @ sextets_of s"
| "sextets_of [a, b] = [a div 4, a mod 4 * 16 + b div 16, b mod 16 * 4]"
| "sextets_of [a] = [a div 4, a mod 4 * 16]"
| "sextets_of [] = []"

definition EncodeToString :: "gostring \<Rightarrow> gostring" where
  "EncodeToString s = map sextet_char (sextets_of (map byte_of s))"

text \<open>\<open>DecodeString\<close>: four sextets become three bytes; a final group of one sextet is corrupt.\<close>

fun octets_of :: "nat list \<Rightarrow> nat list option" where
  "octets_of (w # x # y # z # s) =
     map_option (\<lambda>r. [w * 4 + x div 16, x mod 16 * 16 + y div 4, y mod 4 * 64 + z] @ r) (octets_of s)"
| "octets_of [w, x, y] = Some [w * 4 + x div 16, x mod 16 * 16 + y div 4]"
| "octets_of [w, x] = Some [w * 4 + x div 16]"
| "octets_of [w] = None"
| "octets_of [] = Some []"

fun all_sextets :: "gostring \<Rightarrow> nat list option" where
  "all_sextets [] = Some []"
| "all_sextets (c # s) =
     (case char_sextet c of None \<Rightarrow> None | Some n \<Rightarrow> map_option (Cons n) (all_sextets s))"

definition DecodeString :: "gostring \<Rightarrow> gerror + gostring" where
  "DecodeString s =
     (case all_sextets (filter (\<lambda>c. c \<noteq> CHR 0x0A \<and> c \<noteq> CHR 0x0D) s) of
        None \<Rightarrow> Inl (NewError ''illegal base64 data'')
      | Some ns \<Rightarrow> (case octets_of ns of
            None \<Rightarrow> Inl (NewError ''illegal base64 data'')
          | Some bs \<Rightarrow> Inr (map char_of bs)))"

lemma base64_url_sextets: "map char_sextet base64_url = map Some [0..<64]"
  by (simp add: base64_url_def char_sextet_def Let_def upt_conv_Cons)

lemma sextet_char_inverse: "n < 64 \<Longrightarrow> char_sextet (sextet_char n) = Some n"
proof -
  assume n: "n < 64"
  have len: "length base64_url = 64" by (simp add: base64_url_def)
  have "char_sextet (base64_url ! n) = map char_sextet base64_url ! n" using n len by simp
  also have "\<dots> = Some n" using n by (simp add: base64_url_sextets)
  finally show ?thesis by (simp add: sextet_char_def)
qed

lemma char_sextet_newline: "char_sextet (CHR 0x0A) = None" "char_sextet (CHR 0x0D) = None"
  by (simp_all add: char_sextet_def)

text \<open>Splitting two adjacent bit fields again.\<close>

lemma field_bounds:
  fixes b :: nat
  assumes "b < 256"
  shows "b div 4 < 64" "b div 16 < 16" "b div 64 < 4" "b mod 4 < 4" "b mod 16 < 16" "b mod 64 < 64"
  using assms by auto

lemma pair_bound: "(x :: nat) < m \<Longrightarrow> y < k \<Longrightarrow> m * k = 64 \<Longrightarrow> x * k + y < 64"
  by (metis less_mult_imp_div_less fields_div mult_less_cancel2 add_lessD1 div_less_iff_less_mult
      gr_implies_not0 neq0_conv)

lemma sextets_bound: "list_all (\<lambda>b. b < 256) bs \<Longrightarrow> list_all (\<lambda>n. n < 64) (sextets_of bs)"
proof (induction bs rule: sextets_of.induct)
  case (1 a b c s)
  then have "a < 256" "b < 256" "c < 256" by simp_all
  note f = field_bounds [OF this(1)] field_bounds [OF this(2)] field_bounds [OF this(3)]
  have "a mod 4 * 16 + b div 16 < 64" "b mod 16 * 4 + c div 64 < 64"
    by (rule pair_bound, rule f, rule f, simp)+
  with 1 f show ?case by simp
next
  case (2 a b)
  then have "a < 256" "b < 256" by simp_all
  note f = field_bounds [OF this(1)] field_bounds [OF this(2)]
  have "a mod 4 * 16 + b div 16 < 64" "b mod 16 * 4 < 64"
    using pair_bound [OF f(5) f(8)] pair_bound [of "b mod 16" 16 0 4] f by simp_all
  with f show ?case by simp
next
  case (3 a)
  then have "a < 256" by simp
  note f = field_bounds [OF this]
  have "a mod 4 * 16 < 64" using pair_bound [of "a mod 4" 4 0 16] f by simp
  with f show ?case by simp
qed simp

lemma join_fields:
  assumes "(y :: nat) < m"
  shows "a div k * k + (a mod k * m + y) div m = a"
  by (simp only: fields_div [OF assms] div_mult_mod_eq)

lemma join_fields_mid:
  assumes "b div 16 < 16" "(z :: nat) < 4"
  shows "(x * 16 + b div 16) mod 16 * 16 + (b mod 16 * 4 + z) div 4 = b"
  by (simp only: fields_div [OF assms(2)] fields_mod [OF assms(1)] div_mult_mod_eq)

lemma join_fields_end:
  assumes "(c :: nat) div 64 < 4"
  shows "(x * 4 + c div 64) mod 4 * 64 + c mod 64 = c"
  by (simp only: fields_mod [OF assms] div_mult_mod_eq)

lemma octets_sextets: "list_all (\<lambda>b. b < 256) bs \<Longrightarrow> octets_of (sextets_of bs) = Some bs"
proof (induction bs rule: sextets_of.induct)
  case (1 a b c s)
  then have "a < 256" "b < 256" "c < 256" and IH: "octets_of (sextets_of s) = Some s" by simp_all
  note f = field_bounds [OF this(2)] field_bounds [OF this(3)]
  show ?case
    by (simp only: sextets_of.simps append_Cons append_Nil octets_of.simps IH option.map
        join_fields [OF f(2)] join_fields_mid [OF f(2) f(9)] join_fields_end [OF f(9)])
next
  case (2 a b)
  then have "b < 256" by simp
  note f = field_bounds [OF this]
  show ?case
    using join_fields_mid [OF f(2), of 0 "a mod 4"]
    by (simp only: sextets_of.simps octets_of.simps join_fields [OF f(2)]) simp
next
  case (3 a)
  show ?case using join_fields [of 0 16 a 4] by simp
qed simp

lemma all_sextets_encode: "\<forall>n \<in> set ns. n < 64 \<Longrightarrow> all_sextets (map sextet_char ns) = Some ns"
  by (induction ns) (auto simp: sextet_char_inverse)

lemma encoded_no_newline:
  assumes "\<forall>n \<in> set ns. n < 64"
  shows "filter (\<lambda>c. c \<noteq> CHR 0x0A \<and> c \<noteq> CHR 0x0D) (map sextet_char ns) = map sextet_char ns"
proof -
  have "sextet_char n \<noteq> CHR 0x0A \<and> sextet_char n \<noteq> CHR 0x0D" if "n < 64" for n
    using sextet_char_inverse [OF that] char_sextet_newline by auto
  with assms show ?thesis by (auto simp: filter_id_conv)
qed

lemma DecodeString_EncodeToString: "DecodeString (EncodeToString s) = Inr s"
proof -
  let ?bs = "map byte_of s"
  have bytes: "list_all (\<lambda>b. b < 256) ?bs" by (simp add: list_all_iff byte_of_less)
  then have six: "\<forall>n \<in> set (sextets_of ?bs). n < 64"
    using sextets_bound [of ?bs] by (simp add: list_all_iff)
  have "map char_of ?bs = s" by (simp add: map_idI)
  with six show ?thesis
    by (simp add: DecodeString_def EncodeToString_def encoded_no_newline all_sextets_encode
        octets_sextets [OF bytes])
qed

lemma EncodeToString_empty: "EncodeToString s = [] \<longleftrightarrow> s = []"
  by (cases "map byte_of s" rule: sextets_of.cases) (auto simp: EncodeToString_def)

text \<open>An encoded string holds characters of the URL alphabet only.\<close>

lemma EncodeToString_alphabet: "c \<in> set (EncodeToString s) \<Longrightarrow> c \<in> set base64_url"
proof -
  assume "c \<in> set (EncodeToString s)"
  then obtain n where n: "n \<in> set (sextets_of (map byte_of s))" "c = base64_url ! n"
    by (auto simp: EncodeToString_def sextet_char_def)
  have "n < 64"
    using sextets_bound [of "map byte_of s"] n(1) by (simp add: list_all_iff byte_of_less)
  moreover have "length base64_url = 64" by (simp add: base64_url_def)
  ultimately show "c \<in> set base64_url" using n(2) by simp
qed

end
