(* ===== verification/Widget_Http.thy ===== *)
theory Widget_Http
  imports Httpkit Http_Log Widget Go_Base64
begin

text \<open>
  The HTTP adapter of the widget capability (\<open>internal/widget/widgethttp/handler.go\<close>): the four
  handlers over the \<open>Service\<close> interface, their error mapping, the parsing of the identifier and
  of the page size, and the opaque cursors.
\<close>

section \<open>The handler\<close>

text \<open>The \<open>Service\<close> interface, on a state of type \<open>'s\<close>.\<close>

record 's service =
  svc_Create :: "ctx \<Rightarrow> gostring \<Rightarrow> 's \<Rightarrow> (gerror + Widget) \<times> 's"
  svc_Get :: "ctx \<Rightarrow> int64 \<Rightarrow> 's \<Rightarrow> (gerror + Widget) \<times> 's"
  svc_List :: "ctx \<Rightarrow> ListOptions \<Rightarrow> 's \<Rightarrow> (gerror + Page) \<times> 's"
  svc_Delete :: "ctx \<Rightarrow> int64 \<Rightarrow> 's \<Rightarrow> (gerror + unit) \<times> 's"

definition service_over :: "'s repository \<Rightarrow> 's service" where
  "service_over repo =
     \<lparr>svc_Create = service_Create repo, svc_Get = service_Get repo,
      svc_List = service_List repo, svc_Delete = service_Delete repo\<rparr>"

record 's Handler =
  h_service :: "'s service"
  h_logger :: slog_handler
  h_decoder :: "CreateWidgetJSONRequestBody JSONDecoder"

definition NewHandler ::
  "'s service option \<Rightarrow> slog_handler option \<Rightarrow> CreateWidgetJSONRequestBody JSONDecoder option
    \<Rightarrow> gostring + 's Handler" where
  "NewHandler service logger decoder = (case (service, logger, decoder) of
       (Some s, Some l, Some d) \<Rightarrow> Inr \<lparr>h_service = s, h_logger = l, h_decoder = d\<rparr>
     | _ \<Rightarrow> Inl ''widget handler dependencies must not be nil'')"

definition minimumListLimit :: int where
  "minimumListLimit = 1"

section \<open>Parameters and cursors\<close>

definition pathID :: "request \<Rightarrow> gerror + int64" where
  "pathID r = (case ParseInt 64 (rq_param r ''widgetID'') of
       Inl e \<Rightarrow> Inl e
     | Inr i \<Rightarrow> Inr (word_of_int i))"

definition listLimit :: "request \<Rightarrow> gerror + int32" where
  "listLimit r =
     (let v = Query_Get (rq_query r) ''limit'' in
      if v = [] then Inr DefaultListLimit
      else case ParseInt 32 v of
        Inl err \<Rightarrow> Inl (Wrapped ''parse limit'' err)
      | Inr parsed \<Rightarrow>
          if parsed < minimumListLimit then Inl (NewError ''limit is below the documented minimum'')
          else Inr (word_of_int parsed))"

definition encodeListCursor :: "ListCursor \<Rightarrow> gostring" where
  "encodeListCursor cursor =
     EncodeToString (Format_RFC3339Nano (UTC (CursorCreatedAt cursor)) @ ''|'' @ FormatInt (sint (CursorID cursor)))"

definition decodeListCursor :: "gostring \<Rightarrow> gerror + ListCursor option" where
  "decodeListCursor v =
     (if v = [] then Inr None
      else case DecodeString v of
        Inl err \<Rightarrow> Inl (Wrapped ''decode cursor'' err)
      | Inr payload \<Rightarrow>
          (let (createdAtValue, idValue, found) = Cut (CHR ''|'') payload in
           if \<not> found then Inl (NewError ''cursor separator is missing'')
           else case Parse_RFC3339Nano createdAtValue of
             Inl err \<Rightarrow> Inl (Wrapped ''parse cursor timestamp'' err)
           | Inr createdAt \<Rightarrow>
               (case ParseInt 64 idValue of
                  Inl err \<Rightarrow> Inl (NewError ''cursor identifier is invalid'')
                | Inr i \<Rightarrow>
                    if i < 1 then Inl (NewError ''cursor identifier is invalid'')
                    else Inr (Some \<lparr>CursorCreatedAt = UTC createdAt, CursorID = word_of_int i\<rparr>))))"

definition widgetToResponse :: "Widget \<Rightarrow> ApiWidget" where
  "widgetToResponse w =
     \<lparr>api_CreatedAt = CreatedAt w, api_ID = ID w, api_Name = Name w, api_UpdatedAt = UpdatedAt w\<rparr>"

section \<open>Decoding the request to create\<close>

text \<open>
  \<open>json.Unmarshal\<close> into \<open>CreateWidgetJSONRequestBody\<close> with unknown fields disallowed: a key
  names the field when it equals \<open>name\<close> but for the case of ASCII letters (no rune beyond ASCII
  folds to one of its letters), \<open>null\<close> leaves the field alone, the last of several values wins,
  and the first error is reported after the whole object is read.
\<close>

definition names_field :: "gostring \<Rightarrow> gostring \<Rightarrow> bool" where
  "names_field field key \<longleftrightarrow> map lower_byte key = field"

abbreviation err_unknown_field :: gerror where
  "err_unknown_field \<equiv> NewError ''json: unknown field''"

abbreviation err_unmarshal_type :: gerror where
  "err_unmarshal_type \<equiv> NewError ''json: cannot unmarshal''"

definition save_error :: "gerror option \<Rightarrow> gerror \<Rightarrow> gerror option" where
  "save_error saved e = (case saved of None \<Rightarrow> Some e | Some e' \<Rightarrow> Some e')"

fun store_fields :: "CreateWidgetJSONRequestBody \<Rightarrow> gerror option \<Rightarrow> (gostring \<times> json) list
    \<Rightarrow> gerror + CreateWidgetJSONRequestBody" where
  "store_fields b saved [] = (case saved of None \<Rightarrow> Inr b | Some e \<Rightarrow> Inl e)"
| "store_fields b saved ((k, v) # kvs) =
     (if names_field ''name'' k
      then (case v of
              JStr s \<Rightarrow> store_fields (b\<lparr>request_Name := s\<rparr>) saved kvs
            | JNull \<Rightarrow> store_fields b saved kvs
            | _ \<Rightarrow> store_fields b (save_error saved err_unmarshal_type) kvs)
      else store_fields b (save_error saved err_unknown_field) kvs)"

definition unmarshal_create :: "json \<Rightarrow> gerror + CreateWidgetJSONRequestBody" where
  "unmarshal_create j = (case j of
       JObj kvs \<Rightarrow> store_fields \<lparr>request_Name = []\<rparr> None kvs
     | JNull \<Rightarrow> Inr \<lparr>request_Name = []\<rparr>
     | _ \<Rightarrow> Inl err_unmarshal_type)"

section \<open>Handlers\<close>

text \<open>One call of the service on the state of the world.\<close>

definition call_service :: "('s \<Rightarrow> 'r \<times> 's) \<Rightarrow> 's world \<Rightarrow> 'r \<times> 's world" where
  "call_service f w = (case f (wd_state w) of (res, s) \<Rightarrow> (res, w\<lparr>wd_state := s\<rparr>))"

definition writeJSON :: "'s Handler \<Rightarrow> request \<Rightarrow> nat \<Rightarrow> payload option \<Rightarrow> 's world \<Rightarrow> 's world" where
  "writeJSON h r status payload w =
     (case WriteJSON status payload (wd_resp w) of
        (err, resp) \<Rightarrow>
          (let w = w\<lparr>wd_resp := resp\<rparr> in
           case err of
             None \<Rightarrow> w
           | Some err \<Rightarrow>
               log_context (h_logger h) LevelError (rq_ctx r) ''HTTP response failed''
                 [(''status'', AttrInt (int status)), (''error'', AttrError err)] w))"

definition failRequest :: "'s Handler \<Rightarrow> request \<Rightarrow> gostring \<Rightarrow> gerror \<Rightarrow> 's world \<Rightarrow> 's world" where
  "failRequest h r operation err w =
     (case WriteContextError err (wd_resp w) of
        (True, resp) \<Rightarrow>
          log_context (h_logger h) LevelWarn (rq_ctx r) ''HTTP request did not complete''
            [(''operation'', AttrString operation), (''error'', AttrError err)] (w\<lparr>wd_resp := resp\<rparr>)
      | (False, resp) \<Rightarrow>
          update_resp (WriteError 500 ''internal_error'' ''An internal error occurred.'')
            (log_context (h_logger h) LevelError (rq_ctx r) ''HTTP request failed''
              [(''operation'', AttrString operation), (''error'', AttrError err)] (w\<lparr>wd_resp := resp\<rparr>)))"

definition handler_create :: "'s Handler \<Rightarrow> request \<Rightarrow> 's world \<Rightarrow> 's world" where
  "handler_create h r w =
     (case Decode (h_decoder h) unmarshal_create r of
        Inl err \<Rightarrow>
          update_resp
            (if errors_Is err ErrUnsupportedMediaType
             then WriteError 415 ''unsupported_media_type'' ''Content-Type must be application/json.''
             else if errors_As_MaxBytesError err
             then WriteError 413 ''request_too_large'' ''The request body is too large.''
             else case errors_As_ValidationError err of
               Some violations \<Rightarrow>
                 WriteErrorDetails 422 ''validation_failed'' ''Request validation failed.''
                   [(''fields'', JArr (map FieldViolation_json violations))]
             | None \<Rightarrow> WriteError 400 ''invalid_request'' ''The request body is invalid.'') w
      | Inr request \<Rightarrow>
          (case call_service (svc_Create (h_service h) (rq_ctx r) (request_Name request)) w of
             (Inl err, w) \<Rightarrow>
               if errors_Is err ErrInvalidName
               then update_resp (WriteError 422 ''invalid_widget_name'' ''Name must contain 1 to 120 characters.'') w
               else failRequest h r ''create widget'' err w
           | (Inr result, w) \<Rightarrow>
               writeJSON h r 201 (Some (ApiWidget_json (widgetToResponse result))) w))"

abbreviation widget_not_found :: "response \<Rightarrow> response" where
  "widget_not_found \<equiv> WriteError 404 ''widget_not_found'' ''Widget was not found.''"

definition handler_get :: "'s Handler \<Rightarrow> request \<Rightarrow> 's world \<Rightarrow> 's world" where
  "handler_get h r w =
     (case pathID r of
        Inl err \<Rightarrow> update_resp widget_not_found w
      | Inr widget_id \<Rightarrow>
          (case call_service (svc_Get (h_service h) (rq_ctx r) widget_id) w of
             (Inl err, w) \<Rightarrow>
               if errors_Is err ErrNotFound then update_resp widget_not_found w
               else failRequest h r ''get widget'' err w
           | (Inr result, w) \<Rightarrow>
               writeJSON h r 200 (Some (ApiWidget_json (widgetToResponse result))) w))"

abbreviation pagination_invalid :: "response \<Rightarrow> response" where
  "pagination_invalid \<equiv> WriteError 400 ''invalid_pagination'' ''Pagination parameters are invalid.''"

definition page_response :: "Page \<Rightarrow> ApiWidgetList" where
  "page_response page =
     \<lparr>list_Items = map widgetToResponse (Items page), list_Limit = PageLimit page,
      list_NextCursor = map_option encodeListCursor (NextCursor page)\<rparr>"

definition handler_list :: "'s Handler \<Rightarrow> request \<Rightarrow> 's world \<Rightarrow> 's world" where
  "handler_list h r w =
     (case listLimit r of
        Inl err \<Rightarrow> update_resp pagination_invalid w
      | Inr limit \<Rightarrow>
          (case decodeListCursor (Query_Get (rq_query r) ''cursor'') of
             Inl err \<Rightarrow> update_resp pagination_invalid w
           | Inr cursor \<Rightarrow>
               (case call_service (svc_List (h_service h) (rq_ctx r) \<lparr>Limit = limit, Cursor = cursor\<rparr>) w of
                  (Inl err, w) \<Rightarrow>
                    if errors_Is err ErrInvalidPagination then update_resp pagination_invalid w
                    else failRequest h r ''list widgets'' err w
                | (Inr page, w) \<Rightarrow>
                    writeJSON h r 200 (Some (ApiWidgetList_json (page_response page))) w)))"

definition handler_delete :: "'s Handler \<Rightarrow> request \<Rightarrow> 's world \<Rightarrow> 's world" where
  "handler_delete h r w =
     (case pathID r of
        Inl err \<Rightarrow> update_resp widget_not_found w
      | Inr widget_id \<Rightarrow>
          (case call_service (svc_Delete (h_service h) (rq_ctx r) widget_id) w of
             (Inl err, w) \<Rightarrow>
               if errors_Is err ErrNotFound then update_resp widget_not_found w
               else failRequest h r ''delete widget'' err w
           | (Inr u, w) \<Rightarrow> writeJSON h r 204 None w))"

text \<open>The routes, each a method and a pattern of the router with its handler.\<close>

datatype endpoint = EndpointList | EndpointCreate | EndpointGet | EndpointDelete

fun run_endpoint :: "'s Handler \<Rightarrow> endpoint \<Rightarrow> 's handler" where
  "run_endpoint h EndpointList r w = (Returned, handler_list h r w)"
| "run_endpoint h EndpointCreate r w = (Returned, handler_create h r w)"
| "run_endpoint h EndpointGet r w = (Returned, handler_get h r w)"
| "run_endpoint h EndpointDelete r w = (Returned, handler_delete h r w)"

definition Router :: "'s Handler \<Rightarrow> (gostring \<times> gostring \<times> 's handler) list" where
  "Router h =
     [(''GET'', ''/'', run_endpoint h EndpointList),
      (''POST'', ''/'', run_endpoint h EndpointCreate),
      (''GET'', ''/{widgetID}'', run_endpoint h EndpointGet),
      (''DELETE'', ''/{widgetID}'', run_endpoint h EndpointDelete)]"

section \<open>Cursors survive the round trip\<close>

lemma decode_encode_cursor:
  assumes "1 \<le> sint (CursorID c)" "0 \<le> Year (UTC (CursorCreatedAt c))" "Year (UTC (CursorCreatedAt c)) \<le> 9999"
  shows "decodeListCursor (encodeListCursor c) = Inr (Some (c\<lparr>CursorCreatedAt := UTC (CursorCreatedAt c)\<rparr>))"
proof -
  let ?t = "UTC (CursorCreatedAt c)"
  let ?payload = "Format_RFC3339Nano ?t @ ''|'' @ FormatInt (sint (CursorID c))"
  have "encodeListCursor c \<noteq> []" by (simp add: encodeListCursor_def EncodeToString_empty)
  moreover have "DecodeString (encodeListCursor c) = Inr ?payload"
    by (simp add: encodeListCursor_def DecodeString_EncodeToString)
  moreover have "Cut (CHR ''|'') ?payload = (Format_RFC3339Nano ?t, FormatInt (sint (CursorID c)), True)"
    using Cut_append [OF Format_no_bar] by simp
  moreover have "Parse_RFC3339Nano (Format_RFC3339Nano ?t) = Inr ?t"
    using assms(2,3) by (intro Parse_Format_RFC3339Nano) simp_all
  moreover note ParseInt_FormatInt_sint [of "CursorID c"]
  ultimately show ?thesis using assms(1) by (simp add: decodeListCursor_def)
qed

text \<open>A decoded cursor names a positive identifier and a time in UTC.\<close>

lemma decoded_cursor:
  assumes "decodeListCursor v = Inr (Some c)"
  shows "1 \<le> sint (CursorID c) \<and> zone_offset (CursorCreatedAt c) = 0"
proof -
  have "\<exists>i t d. c = \<lparr>CursorCreatedAt = UTC t, CursorID = word_of_int i\<rparr> \<and> 1 \<le> i \<and> ParseInt 64 d = Inr i"
    using assms by (fastforce simp: decodeListCursor_def not_less split: if_splits sum.splits prod.splits)
  then obtain i t d where c: "c = \<lparr>CursorCreatedAt = UTC t, CursorID = word_of_int i\<rparr>" "1 \<le> i"
    and parse: "ParseInt 64 d = Inr i" by blast
  from ParseInt_bounds [OF parse] have "- (2 ^ 63) \<le> i \<and> i < 2 ^ 63" by simp
  then have "sint (word_of_int i :: int64) = i" by (intro sint_of_int64) simp_all
  with c show ?thesis by simp
qed

lemma listLimit_accepts:
  assumes "listLimit r = Inr lim"
  shows "1 \<le> sint lim"
proof (cases "Query_Get (rq_query r) ''limit'' = []")
  case True
  with assms show ?thesis by (simp add: listLimit_def DefaultListLimit_def)
next
  case False
  then obtain i where parse: "ParseInt 32 (Query_Get (rq_query r) ''limit'') = Inr i"
    and lim: "1 \<le> i" "lim = word_of_int i"
    using assms by (auto simp: listLimit_def minimumListLimit_def split: sum.splits if_splits)
  from ParseInt_bounds [OF parse] have "sint (word_of_int i :: int32) = i"
    by (intro sint_of_int32) simp_all
  with lim show ?thesis by simp
qed

section \<open>What the handlers answer\<close>

lemma call_service_simps [simp]:
  "f (wd_state w) = (res, s) \<Longrightarrow> call_service f w = (res, w\<lparr>wd_state := s\<rparr>)"
  by (simp add: call_service_def)

text \<open>The status and body for a failed operation: nothing of the error itself.\<close>

definition failure_response :: "gerror \<Rightarrow> response \<Rightarrow> response" where
  "failure_response err r =
     (if errors_Is err DeadlineExceeded
      then json_response 504 (error_object ''request_timeout'' ''The request took too long to complete.'') r
      else if errors_Is err Canceled then r
      else json_response 500 (error_object ''internal_error'' ''An internal error occurred.'') r)"

lemma failRequest_resp:
  "unwritten (wd_resp w) \<Longrightarrow> wd_resp (failRequest h r operation err w) = failure_response err (wd_resp w)"
  by (simp add: failRequest_def WriteContextError_def failure_response_def WriteError_unwritten)

lemma failRequest_state [simp]: "wd_state (failRequest h r operation err w) = wd_state w"
  by (simp add: failRequest_def split: prod.splits bool.splits)

lemma writeJSON_resp:
  "unwritten (wd_resp w) \<Longrightarrow> 0 < status \<Longrightarrow> status \<noteq> 204 \<Longrightarrow>
     wd_resp (writeJSON h r status (Some (Inr j)) w) = json_response status j (wd_resp w)"
  by (simp add: writeJSON_def WriteJSON_unwritten)

lemma writeJSON_unencodable:
  "unwritten (wd_resp w) \<Longrightarrow> status \<noteq> 204 \<Longrightarrow>
     wd_resp (writeJSON h r status (Some (Inl e)) w) =
       json_response 500 (error_object ''internal_error'' ''An internal error occurred.'') (wd_resp w)"
  by (simp add: writeJSON_def WriteJSON_unencodable)

lemma writeJSON_state [simp]: "wd_state (writeJSON h r status p w) = wd_state w"
  by (simp add: writeJSON_def Let_def split: prod.splits option.splits)

definition not_found_object :: json where
  "not_found_object = error_object ''widget_not_found'' ''Widget was not found.''"

definition pagination_object :: json where
  "pagination_object = error_object ''invalid_pagination'' ''Pagination parameters are invalid.''"

text \<open>Rendering a payload as the response of a successful operation.\<close>

definition payload_response :: "nat \<Rightarrow> payload \<Rightarrow> response \<Rightarrow> response" where
  "payload_response status p r = (case p of
       Inr j \<Rightarrow> json_response status j r
     | Inl e \<Rightarrow> json_response 500 (error_object ''internal_error'' ''An internal error occurred.'') r)"

lemma writeJSON_payload:
  "unwritten (wd_resp w) \<Longrightarrow> 0 < status \<Longrightarrow> status \<noteq> 204 \<Longrightarrow>
     wd_resp (writeJSON h r status (Some p) w) = payload_response status p (wd_resp w)"
  by (cases p) (simp_all add: payload_response_def writeJSON_resp writeJSON_unencodable)

lemma handler_get_response:
  assumes "unwritten (wd_resp w)"
  shows "wd_resp (handler_get h r w) = (case pathID r of
      Inl e \<Rightarrow> json_response 404 not_found_object (wd_resp w)
    | Inr i \<Rightarrow> (case fst (svc_Get (h_service h) (rq_ctx r) i (wd_state w)) of
          Inr v \<Rightarrow> payload_response 200 (ApiWidget_json (widgetToResponse v)) (wd_resp w)
        | Inl e \<Rightarrow> if errors_Is e ErrNotFound then json_response 404 not_found_object (wd_resp w)
                   else failure_response e (wd_resp w)))"
  using assms
  by (auto simp: handler_get_def call_service_def WriteError_unwritten not_found_object_def
      failRequest_resp writeJSON_payload split: sum.splits prod.splits)

lemma handler_delete_response:
  assumes "unwritten (wd_resp w)"
  shows "wd_resp (handler_delete h r w) = (case pathID r of
      Inl e \<Rightarrow> json_response 404 not_found_object (wd_resp w)
    | Inr i \<Rightarrow> (case fst (svc_Delete (h_service h) (rq_ctx r) i (wd_state w)) of
          Inr u \<Rightarrow> WriteHeader 204 (wd_resp w)
        | Inl e \<Rightarrow> if errors_Is e ErrNotFound then json_response 404 not_found_object (wd_resp w)
                   else failure_response e (wd_resp w)))"
  using assms
  by (auto simp: handler_delete_def call_service_def WriteError_unwritten not_found_object_def
      failRequest_resp writeJSON_def WriteJSON_def split: sum.splits prod.splits)

lemma handler_list_response:
  assumes "unwritten (wd_resp w)"
  shows "wd_resp (handler_list h r w) = (case (listLimit r, decodeListCursor (Query_Get (rq_query r) ''cursor'')) of
      (Inr lim, Inr cur) \<Rightarrow>
        (case fst (svc_List (h_service h) (rq_ctx r) \<lparr>Limit = lim, Cursor = cur\<rparr> (wd_state w)) of
          Inr page \<Rightarrow> payload_response 200 (ApiWidgetList_json (page_response page)) (wd_resp w)
        | Inl e \<Rightarrow> if errors_Is e ErrInvalidPagination then json_response 400 pagination_object (wd_resp w)
                   else failure_response e (wd_resp w))
    | _ \<Rightarrow> json_response 400 pagination_object (wd_resp w))"
  using assms
  by (auto simp: handler_list_def call_service_def WriteError_unwritten pagination_object_def
      failRequest_resp writeJSON_payload split: sum.splits prod.splits)

text \<open>The state after a handler is the one its single service call leaves.\<close>

lemma handler_list_state:
  "wd_state (handler_list h r w) = (case (listLimit r, decodeListCursor (Query_Get (rq_query r) ''cursor'')) of
      (Inr lim, Inr cur) \<Rightarrow> snd (svc_List (h_service h) (rq_ctx r) \<lparr>Limit = lim, Cursor = cur\<rparr> (wd_state w))
    | _ \<Rightarrow> wd_state w)"
  by (auto simp: handler_list_def call_service_def split: sum.splits prod.splits)

text \<open>The response to a body that is not accepted.\<close>

definition refusal_response :: "gerror \<Rightarrow> response \<Rightarrow> response" where
  "refusal_response err r =
     (if errors_Is err ErrUnsupportedMediaType
      then json_response 415 (error_object ''unsupported_media_type'' ''Content-Type must be application/json.'') r
      else if errors_As_MaxBytesError err
      then json_response 413 (error_object ''request_too_large'' ''The request body is too large.'') r
      else case errors_As_ValidationError err of
        Some violations \<Rightarrow>
          json_response 422 (JObj [(''error'', JObj [(''code'', JStr ''validation_failed''),
            (''message'', JStr ''Request validation failed.''),
            (''details'', JObj [(''fields'', JArr (map FieldViolation_json violations))])])]) r
      | None \<Rightarrow> json_response 400 (error_object ''invalid_request'' ''The request body is invalid.'') r)"

lemma handler_create_response:
  assumes "unwritten (wd_resp w)"
  shows "wd_resp (handler_create h r w) = (case Decode (h_decoder h) unmarshal_create r of
      Inl err \<Rightarrow> refusal_response err (wd_resp w)
    | Inr b \<Rightarrow> (case fst (svc_Create (h_service h) (rq_ctx r) (request_Name b) (wd_state w)) of
          Inr v \<Rightarrow> payload_response 201 (ApiWidget_json (widgetToResponse v)) (wd_resp w)
        | Inl e \<Rightarrow>
            if errors_Is e ErrInvalidName
            then json_response 422 (error_object ''invalid_widget_name'' ''Name must contain 1 to 120 characters.'') (wd_resp w)
            else failure_response e (wd_resp w)))"
  using assms
  by (auto simp: handler_create_def call_service_def WriteError_unwritten WriteErrorDetails_unwritten
      refusal_response_def failRequest_resp writeJSON_payload split: sum.splits prod.splits option.splits)

lemma handler_create_state:
  "wd_state (handler_create h r w) = (case Decode (h_decoder h) unmarshal_create r of
      Inl err \<Rightarrow> wd_state w
    | Inr b \<Rightarrow> snd (svc_Create (h_service h) (rq_ctx r) (request_Name b) (wd_state w)))"
  by (auto simp: handler_create_def call_service_def split: sum.splits prod.splits option.splits)

lemma handler_get_state:
  "wd_state (handler_get h r w) = (case pathID r of
      Inl err \<Rightarrow> wd_state w | Inr i \<Rightarrow> snd (svc_Get (h_service h) (rq_ctx r) i (wd_state w)))"
  by (auto simp: handler_get_def call_service_def split: sum.splits prod.splits)

lemma handler_delete_state:
  "wd_state (handler_delete h r w) = (case pathID r of
      Inl err \<Rightarrow> wd_state w | Inr i \<Rightarrow> snd (svc_Delete (h_service h) (rq_ctx r) i (wd_state w)))"
  by (auto simp: handler_delete_def call_service_def split: sum.splits prod.splits)

lemma failure_response_status:
  "rs_status r = 0 \<Longrightarrow> rs_status (failure_response e r) =
     (if errors_Is e DeadlineExceeded then 504 else if errors_Is e Canceled then 0 else 500)"
  by (simp add: failure_response_def)

lemma payload_response_status: "rs_status (payload_response status p r) \<in> {status, 500}"
  by (cases p) (simp_all add: payload_response_def)

lemma refusal_response_status: "rs_status (refusal_response e r) \<in> {400, 413, 415, 422}"
  by (simp add: refusal_response_def split: option.splits)

section \<open>The request to create\<close>

text \<open>
  The documented behaviour of the validation library on the tags of the request: \<open>required\<close>
  refuses the empty string, \<open>max=120\<close> more than 120 runes, and the first violated tag of a field
  is the one reported.
\<close>

definition create_rules :: "gostring \<Rightarrow> CreateWidgetJSONRequestBody \<Rightarrow> validation" where
  "create_rules field b =
     (if request_Name b = [] then ValidationErrors [(field, ''required'')]
      else if 120 < length (runes (request_Name b)) then ValidationErrors [(field, ''max'')]
      else Valid)"

definition checks_create_tags :: "CreateWidgetJSONRequestBody JSONDecoder \<Rightarrow> bool" where
  "checks_create_tags d \<longleftrightarrow> (\<forall>b. dec_validator d b = create_rules (tag_name ''name'' ''Name'') b)"

lemma tag_name_create: "tag_name ''name'' ''Name'' = ''name''"
  by (simp add: tag_name_def Cut_missing)

definition create_object :: "gostring \<Rightarrow> json" where
  "create_object name = JObj [(''name'', JStr name)]"

lemma unmarshal_create_object: "unmarshal_create (create_object name) = Inr \<lparr>request_Name = name\<rparr>"
proof -
  have "map lower_byte ''name'' = ''name''" by (simp add: lower_byte_def)
  then show ?thesis by (simp add: unmarshal_create_def create_object_def names_field_def)
qed

text \<open>A request as a client sends it: the encoded object, with a JSON content type.\<close>

definition create_request :: "request \<Rightarrow> gostring \<Rightarrow> int64 \<Rightarrow> bool" where
  "create_request r name limit \<longleftrightarrow>
     isJSONContentType (rq_header r ''Content-Type'') \<and> rq_body r = (marshal (create_object name), ErrEOF)
     \<and> int (length (marshal (create_object name))) \<le> sint limit"

lemma Decode_create:
  assumes "create_request r name (maxRequestBytes d)" "valid_utf8 name" "checks_create_tags d"
  shows "Decode d unmarshal_create r =
    (if name = [] then Inl (ValidationError [\<lparr>Field = ''name'', Rule = ''required''\<rparr>])
     else if 120 < length (runes name) then Inl (ValidationError [\<lparr>Field = ''name'', Rule = ''max''\<rparr>])
     else Inr \<lparr>request_Name = name\<rparr>)"
proof -
  have "valid_utf8 ''name''" by (rule valid_utf8_plain) (simp add: plain_char_def)
  then have ok: "sendable (create_object name)" "depth (create_object name) \<le> max_depth"
    using assms(2) by (simp_all add: create_object_def max_depth_def del: valid_utf8.simps)
  show ?thesis
    using Decode_object [of r "[(''name'', JStr name)]" d unmarshal_create, folded create_object_def]
      assms ok
    by (simp add: create_request_def unmarshal_create_object checks_create_tags_def create_rules_def
        tag_name_create)
qed

text \<open>Names are valid UTF-8 whatever body they were read from.\<close>

lemma store_fields_utf8:
  assumes "store_fields b saved kvs = Inr b'" "valid_utf8 (request_Name b)"
    and "\<forall>(k, v) \<in> set kvs. utf8_json v"
  shows "valid_utf8 (request_Name b')"
  using assms
  by (induction b saved kvs rule: store_fields.induct)
    (auto split: option.splits json.splits if_splits)

lemma Decode_create_utf8:
  assumes "Decode d unmarshal_create r = Inr b"
  shows "valid_utf8 (request_Name b)"
proof -
  obtain bytes e where body: "MaxBytesReader (maxRequestBytes d) (rq_body r) = (bytes, e)" by fastforce
  obtain j rest where j: "read_value BeginValue [] bytes e = Inr (j, rest)" "unmarshal_create j = Inr b"
    using assms unfolding Decode_def body
    by (auto simp: Let_def split: if_splits sum.splits validation.splits)
  from utf8_decoded [OF j(1)] j(2) show ?thesis
    by (auto simp: unmarshal_create_def split: json.splits elim!: store_fields_utf8)
qed

end
