(* ===== verification/Widget_Client.thy ===== *)
theory Widget_Client
  imports Widget_Http
begin

text \<open>
  A client of the list endpoint: it sends a page size and the cursor token of the previous page
  as a query, and reads the items and the next token from the JSON body. The walk of such a
  client is, page by page, the walk of the service's pages: the locale \<open>presentable_repository\<close>
  adds to the repository contract that stored widgets can be rendered, and
  \<open>http_pages_refines\<close> transfers what is known of the service's walks to the bytes on the wire.
\<close>

section \<open>Queries\<close>

definition page_query :: "int32 \<Rightarrow> gostring option \<Rightarrow> gostring" where
  "page_query lim token =
     (''limit'' @ CHR ''='' # FormatInt (sint lim))
     @ (case token of None \<Rightarrow> [] | Some t \<Rightarrow> CHR ''&'' # (''cursor'' @ CHR ''='' # t))"

lemma query_plain_FormatInt: "query_plain (FormatInt i)"
  using FormatInt_chars [of _ i] by (fastforce simp: query_plain_def is_digit_def)

lemma query_plain_base64: "query_plain (EncodeToString s)"
proof -
  have "list_all (\<lambda>c. c \<notin> {CHR ''%'', CHR ''+'', CHR ''&'', CHR ''='', CHR '';''}) base64_url"
    by code_simp
  then show ?thesis
    using EncodeToString_alphabet [of _ s] unfolding query_plain_def list_all_iff by blast
qed

lemma query_plain_names: "query_plain ''limit''" "query_plain ''cursor''"
  by (simp_all add: query_plain_def)

lemma Query_values_page:
  "Query_values (page_query lim None) = [(''limit'', FormatInt (sint lim))]"
  "query_plain t \<Longrightarrow> Query_values (page_query lim (Some t)) = [(''limit'', FormatInt (sint lim)), (''cursor'', t)]"
  using Query_values_one [OF query_plain_names(1) query_plain_FormatInt]
    Query_values_two [OF query_plain_names(1) query_plain_FormatInt query_plain_names(2)]
  unfolding page_query_def by simp_all

lemma listLimit_query:
  assumes "valid_limit lim" "Query_Get q ''limit'' = FormatInt (sint lim)" "rq_query r = q"
  shows "listLimit r = Inr lim"
proof -
  have "ParseInt 32 (FormatInt (sint lim)) = Inr (sint lim)"
    using assms(1) by (intro ParseInt_FormatInt) (simp_all add: valid_limit_def)
  then show ?thesis
    using assms by (simp add: listLimit_def FormatInt_nonempty minimumListLimit_def valid_limit_def)
qed

text \<open>Cursors whose times can be rendered, as those of the pages are.\<close>

definition wire_cursor :: "ListCursor option \<Rightarrow> bool" where
  "wire_cursor cur \<longleftrightarrow> valid_cursor cur \<and> (\<forall>k. cur = Some k \<longrightarrow> time_renders (CursorCreatedAt k))"

lemma decode_token:
  assumes "wire_cursor (Some k)"
  shows "decodeListCursor (encodeListCursor k) = Inr (Some k)"
proof -
  have utc: "UTC (CursorCreatedAt k) = CursorCreatedAt k"
    using assms by (cases "CursorCreatedAt k") (simp add: wire_cursor_def time_renders_def UTC_def)
  have "1 \<le> sint (CursorID k)" "0 \<le> Year (CursorCreatedAt k)" "Year (CursorCreatedAt k) \<le> 9999"
    using assms by (simp_all add: wire_cursor_def valid_cursor_def invalid_cursor_def time_renders_def)
  with decode_encode_cursor [of k] show ?thesis by (simp add: utc)
qed

lemma page_request:
  assumes "valid_limit lim" "wire_cursor cur"
    and "rq_query r = page_query lim (map_option encodeListCursor cur)"
  shows "listLimit r = Inr lim" "decodeListCursor (Query_Get (rq_query r) ''cursor'') = Inr cur"
proof -
  have "query_plain (encodeListCursor k)" for k by (simp add: encodeListCursor_def query_plain_base64)
  then have vals: "Query_Get (rq_query r) ''limit'' = FormatInt (sint lim)"
    "Query_Get (rq_query r) ''cursor'' = (case cur of None \<Rightarrow> [] | Some k \<Rightarrow> encodeListCursor k)"
    using assms(3) by (cases cur; simp add: Query_Get_def Query_values_page)+
  show "listLimit r = Inr lim" using assms(1) vals(1) by (rule listLimit_query) (rule refl)
  show "decodeListCursor (Query_Get (rq_query r) ''cursor'') = Inr cur"
  proof (cases cur)
    case None
    with vals(2) show ?thesis by (simp add: decodeListCursor_def)
  next
    case (Some k)
    with vals(2) assms(2) show ?thesis by (simp add: decode_token)
  qed
qed

section \<open>Pages on the wire\<close>

definition item_object :: "Widget \<Rightarrow> json" where
  "item_object w = widget_object (widgetToResponse w)"

definition presentable :: "Widget \<Rightarrow> bool" where
  "presentable w \<longleftrightarrow> time_renders (CreatedAt w) \<and> time_renders (UpdatedAt w) \<and> valid_utf8 (Name w)"

definition page_object :: "Page \<Rightarrow> json" where
  "page_object page =
     JObj [(''items'', JArr (map item_object (Items page))),
           (''limit'', JNum (FormatInt (sint (PageLimit page)))),
           (''nextCursor'', (case NextCursor page of None \<Rightarrow> JNull | Some k \<Rightarrow> JStr (encodeListCursor k)))]"

lemma widget_payload: "presentable w \<Longrightarrow> ApiWidget_json (widgetToResponse w) = Inr (item_object w)"
  by (simp add: presentable_def item_object_def ApiWidget_json_renders widget_renders_def widgetToResponse_def)

lemma page_payload:
  assumes "\<forall>w \<in> set (Items page). presentable w"
  shows "ApiWidgetList_json (page_response page) = Inr (page_object page)"
proof -
  have "all_json (map ApiWidget_json (list_Items (page_response page))) = Inr (map item_object (Items page))"
    using all_widgets_render [of "map widgetToResponse (Items page)"] assms
    by (simp add: page_response_def widget_renders_def presentable_def widgetToResponse_def
        item_object_def o_def)
  then show ?thesis
    by (simp add: ApiWidgetList_json_def page_object_def page_response_def split: option.splits)
qed

lemma ascii_valid: "(\<forall>c \<in> set s. byte_of c < 0x80) \<Longrightarrow> valid_utf8 s"
  by (induction s) (auto simp: decode_rune.simps rune_error_def)

lemma Format_valid_utf8: "valid_utf8 (Format_RFC3339Nano t)"
  using Format_chars [of _ t] by (intro ascii_valid) (fastforce simp: is_digit_def)

lemma base64_valid_utf8: "valid_utf8 (EncodeToString s)"
proof (rule ascii_valid)
  have "list_all (\<lambda>c. byte_of c < 0x80) base64_url" by code_simp
  then show "\<forall>c \<in> set (EncodeToString s). byte_of c < 0x80"
    using EncodeToString_alphabet [of _ s] unfolding list_all_iff by blast
qed

lemma plain_valid: "list_all plain_char s \<Longrightarrow> valid_utf8 s"
  by (rule valid_utf8_plain)

lemma names_valid:
  "valid_utf8 ''createdAt''" "valid_utf8 ''id''" "valid_utf8 ''name''" "valid_utf8 ''updatedAt''"
  "valid_utf8 ''items''" "valid_utf8 ''limit''" "valid_utf8 ''nextCursor''"
  by (rule plain_valid, simp add: plain_char_def)+

lemma sendable_item: "presentable w \<Longrightarrow> sendable (item_object w)"
  by (auto simp: item_object_def widget_object_def names_valid Format_valid_utf8 presentable_def
      widgetToResponse_def simp del: valid_utf8.simps)

lemma depth_item: "depth (item_object w) = 1"
  by (simp add: item_object_def widget_object_def)

lemma fold_max_replicate: "fold max (map depth (map item_object ws)) m = (if ws = [] then m else max m 1)"
  by (induction ws arbitrary: m) (auto simp: depth_item)

lemma sendable_page:
  "\<forall>w \<in> set (Items page). presentable w \<Longrightarrow> sendable (page_object page)"
  by (auto simp: page_object_def names_valid sendable_item encodeListCursor_def base64_valid_utf8
      simp del: valid_utf8.simps split: option.splits)

lemma depth_page: "depth (page_object page) \<le> 3"
  using fold_max_replicate [of "Items page" 0] by (simp add: page_object_def split: option.splits)

text \<open>The client's reading of a list response.\<close>

definition read_page :: "gostring \<Rightarrow> (json list \<times> gostring option) option" where
  "read_page body = (case read_value BeginValue [] body ErrEOF of
       Inr (JObj kvs, _) \<Rightarrow>
         (case (map_of kvs ''items'', map_of kvs ''nextCursor'') of
            (Some (JArr items), Some JNull) \<Rightarrow> Some (items, None)
          | (Some (JArr items), Some (JStr t)) \<Rightarrow> Some (items, Some t)
          | _ \<Rightarrow> None)
     | _ \<Rightarrow> None)"

lemma read_page_object:
  assumes "\<forall>w \<in> set (Items page). presentable w"
  shows "read_page (marshal (page_object page) @ newline)
    = Some (map item_object (Items page), map_option encodeListCursor (NextCursor page))"
proof -
  have "depth (page_object page) \<le> max_depth" using depth_page [of page] by (simp add: max_depth_def)
  with sendable_page [OF assms]
  have "read_value BeginValue [] (marshal (page_object page) @ newline) ErrEOF = Inr (page_object page, newline)"
    unfolding page_object_def by (rule read_value_marshal)
  then show ?thesis by (simp add: read_page_def page_object_def split: option.splits)
qed

section \<open>Walking over HTTP\<close>

text \<open>A walk over HTTP ends as the service's does, or with the status of a failed request.\<close>

datatype http_walk = HttpComplete "json list" | HttpUnfinished "json list" | HttpFailed nat

fun http_append :: "json list \<Rightarrow> http_walk \<Rightarrow> http_walk" where
  "http_append xs (HttpComplete ys) = HttpComplete (xs @ ys)"
| "http_append xs (HttpUnfinished ys) = HttpUnfinished (xs @ ys)"
| "http_append xs (HttpFailed n) = HttpFailed n"

fun http_pages ::
  "'s Handler \<Rightarrow> request \<Rightarrow> int32 \<Rightarrow> gostring option \<Rightarrow> ('s \<Rightarrow> 's) list \<Rightarrow> 's \<Rightarrow> http_walk" where
  "http_pages h base lim token [] s = HttpUnfinished []"
| "http_pages h base lim token (env # envs) s =
     (let w = handler_list h (base\<lparr>rq_query := page_query lim token\<rparr>) (fresh_world (env s)) in
      if rs_status (wd_resp w) \<noteq> 200 then HttpFailed (rs_status (wd_resp w))
      else case read_page (rs_body (wd_resp w)) of
        None \<Rightarrow> HttpFailed 200
      | Some (items, None) \<Rightarrow> HttpComplete items
      | Some (items, Some t) \<Rightarrow> http_append items (http_pages h base lim (Some t) envs (wd_state w)))"

definition failure_status :: "gerror \<Rightarrow> nat" where
  "failure_status e =
     (if errors_Is e ErrInvalidPagination then 400
      else if errors_Is e DeadlineExceeded then 504
      else if errors_Is e Canceled then 0
      else 500)"

fun on_the_wire :: "walk \<Rightarrow> http_walk" where
  "on_the_wire (Complete ws) = HttpComplete (map item_object ws)"
| "on_the_wire (Unfinished ws) = HttpUnfinished (map item_object ws)"
| "on_the_wire (Failed e) = HttpFailed (failure_status e)"

lemma on_the_wire_append: "on_the_wire (walk_append ws v) = http_append (map item_object ws) (on_the_wire v)"
  by (cases v) simp_all

locale presentable_repository = widget_repository +
  assumes rows_presentable: "inv s \<Longrightarrow> w \<in> set (rows s) \<Longrightarrow> presentable w"
begin

lemma page_at_presentable: "inv s \<Longrightarrow> w \<in> set (Items (page_at cur lim (rows s))) \<Longrightarrow> presentable w"
  using set_after_cursor_subset [of cur "rows s"]
  by (auto simp: page_at_Items intro!: rows_presentable dest!: in_set_takeD)

lemma next_cursor_wire:
  assumes "inv s" "valid_limit lim" "NextCursor (page_at cur lim (rows s)) = Some k"
  shows "wire_cursor (Some k)"
proof -
  let ?w = "after_cursor cur (rows s) ! (nat (sint lim) - 1)"
  from assms(3) have k: "k = cursor_at ?w" "nat (sint lim) < length (after_cursor cur (rows s))"
    by (auto simp: page_at_def Let_def split: if_splits)
  then have "?w \<in> set (rows s)"
    using set_after_cursor_subset [of cur "rows s"] by (auto simp: subset_iff)
  from rows_presentable [OF assms(1) this] have "time_renders (CreatedAt ?w)" by (simp add: presentable_def)
  with next_cursor_valid [OF assms] k(1) show ?thesis by (simp add: wire_cursor_def cursor_at_def)
qed

text \<open>One request: the body carries the service's page, and the state is the service's.\<close>

lemma list_request:
  assumes "inv s" "valid_limit lim" "wire_cursor cur"
    and "h_service h = service_over repo" "rq_query r = page_query lim (map_option encodeListCursor cur)"
    and "service_List repo (rq_ctx r) \<lparr>Limit = lim, Cursor = cur\<rparr> s = (res, s')"
  shows "wd_state (handler_list h r (fresh_world s)) = s'"
    and "res = Inr page \<Longrightarrow> rs_status (wd_resp (handler_list h r (fresh_world s))) = 200
      \<and> rs_body (wd_resp (handler_list h r (fresh_world s))) = marshal (page_object page) @ newline
      \<and> (\<forall>w \<in> set (Items page). presentable w)"
    and "res = Inl e \<Longrightarrow> rs_status (wd_resp (handler_list h r (fresh_world s))) = failure_status e"
proof -
  note request = page_request [OF assms(2,3,5)]
  note call = assms(6)
  show "wd_state (handler_list h r (fresh_world s)) = s'"
    using request call by (simp add: handler_list_state assms(4) service_over_def)
  show "rs_status (wd_resp (handler_list h r (fresh_world s))) = 200
      \<and> rs_body (wd_resp (handler_list h r (fresh_world s))) = marshal (page_object page) @ newline
      \<and> (\<forall>w \<in> set (Items page). presentable w)" if res: "res = Inr page"
  proof -
    have cur: "valid_cursor cur" using assms(3) by (simp add: wire_cursor_def)
    have page: "page = page_at cur lim (rows s)"
      using service_List_Inr(1) [OF assms(1,2) cur] call res by blast
    have all: "\<forall>w \<in> set (Items page). presentable w"
      using page_at_presentable [OF assms(1)] by (simp add: page)
    with request call res show ?thesis
      by (simp add: handler_list_response assms(4) service_over_def page_payload payload_response_def)
  qed
  show "rs_status (wd_resp (handler_list h r (fresh_world s))) = failure_status e" if "res = Inl e"
    using request call that
    by (simp add: handler_list_response assms(4) service_over_def failure_status_def failure_response_def)
qed

lemma http_pages_refines:
  assumes "inv s" "valid_limit lim" "wire_cursor cur" "h_service h = service_over repo"
    and "\<forall>env \<in> set envs. \<forall>t. inv t \<longrightarrow> inv (env t)"
  shows "http_pages h base lim (map_option encodeListCursor cur) envs s
    = on_the_wire (walk_pages repo (rq_ctx base) lim cur envs s)"
  using assms(1,3,5)
proof (induction envs arbitrary: s cur)
  case (Cons env envs)
  let ?r = "base\<lparr>rq_query := page_query lim (map_option encodeListCursor cur)\<rparr>"
  have inv: "inv (env s)" using Cons.prems by simp
  obtain res s' where call: "service_List repo (rq_ctx ?r) \<lparr>Limit = lim, Cursor = cur\<rparr> (env s) = (res, s')"
    by fastforce
  have q: "rq_query ?r = page_query lim (map_option encodeListCursor cur)" by simp
  note req = list_request [OF inv assms(2) Cons.prems(2) assms(4) q call]
  show ?case
  proof (cases res)
    case (Inl e)
    then have "failure_status e \<noteq> 200" by (simp add: failure_status_def)
    with req(3) [OF Inl] call Inl show ?thesis by (simp add: Let_def)
  next
    case (Inr page)
    note ok = req(2) [OF Inr]
    have read: "read_page (rs_body (wd_resp (handler_list h ?r (fresh_world (env s)))))
        = Some (map item_object (Items page), map_option encodeListCursor (NextCursor page))"
      using ok read_page_object by simp
    show ?thesis
    proof (cases "NextCursor page")
      case None
      with ok read call Inr show ?thesis by (simp add: Let_def)
    next
      case (Some k)
      have cur: "valid_cursor cur" using Cons.prems(2) by (simp add: wire_cursor_def)
      have call': "service_List repo (rq_ctx ?r) \<lparr>Limit = lim, Cursor = cur\<rparr> (env s) = (Inr page, s')"
        using call Inr by simp
      note page = service_List_Inr [OF inv assms(2) cur call']
      have "wire_cursor (Some k)"
        using next_cursor_wire [OF inv assms(2)] Some page(1) by simp
      from Cons.IH [OF page(2) this] Cons.prems(3)
      have "http_pages h base lim (Some (encodeListCursor k)) envs s'
          = on_the_wire (walk_pages repo (rq_ctx base) lim (Some k) envs s')" by simp
      with ok read call Inr Some req(1) show ?thesis by (simp add: Let_def on_the_wire_append)
    qed
  qed
qed simp

end

end
