(* ===== verification/Postgres_Table.thy ===== *)
theory Postgres_Table
  imports Widget_Postgres Widget_Client
begin

text \<open>
  A reference database for the \<open>widgets\<close> table: the schema of \<open>db/migrations\<close> (identity column,
  the two CHECK constraints, the timestamp defaults) and the five SQL texts of the query layer,
  executed on a list of rows. The environment supplies a clock and may make any statement fail,
  before it takes effect or after (the answer is lost). It interprets \<open>postgres_widgets\<close>, and
  through the adapter every guarantee of the widget service holds on it.
\<close>

section \<open>State\<close>

datatype fault = Answers | Refuses gerror | LosesAnswer gerror

record pg =
  pg_table :: "DbWidget list"
  pg_next :: int
  pg_tick :: nat
  pg_fault :: "nat \<Rightarrow> fault"
  pg_clock :: "nat \<Rightarrow> gotime"

definition tick :: "pg \<Rightarrow> pg" where
  "tick s = s\<lparr>pg_tick := Suc (pg_tick s)\<rparr>"

text \<open>One statement: the environment decides whether it runs and whether its answer arrives.\<close>

definition statement :: "(pg \<Rightarrow> (gerror + 'a) \<times> pg) \<Rightarrow> pg \<Rightarrow> (gerror + 'a) \<times> pg" where
  "statement f s = (case pg_fault s (pg_tick s) of
       Answers \<Rightarrow> f (tick s)
     | Refuses e \<Rightarrow> (Inl e, tick s)
     | LosesAnswer e \<Rightarrow> (Inl e, snd (f (tick s))))"

text \<open>\<open>CURRENT_TIMESTAMP\<close> as a \<open>timestamptz\<close> column keeps it: whole microseconds.\<close>

definition current_timestamp :: "pg \<Rightarrow> gotime" where
  "current_timestamp s =
     (let t = pg_clock s (pg_tick s) in t\<lparr>instant := instant t div 1000 * 1000\<rparr>)"

section \<open>Statements\<close>

text \<open>The two CHECK constraints; \<open>btrim\<close> strips blanks only, \<open>char_length\<close> counts characters.\<close>

definition widgets_name_not_blank :: "gostring \<Rightarrow> bool" where
  "widgets_name_not_blank name \<longleftrightarrow> (\<exists>c \<in> set name. c \<noteq> CHR '' '')"

definition widgets_name_length :: "gostring \<Rightarrow> bool" where
  "widgets_name_length name \<longleftrightarrow> length (runes name) \<le> 120"

text \<open>A \<open>text\<close> value: PostgreSQL refuses invalid UTF-8 and the zero byte.\<close>

definition text_value :: "gostring \<Rightarrow> bool" where
  "text_value name \<longleftrightarrow> valid_utf8 name \<and> CHR 0x00 \<notin> set name"

lemma text_value_plain: "list_all plain_char s \<Longrightarrow> text_value s"
  by (auto simp: text_value_def valid_utf8_plain plain_char_def list_all_iff)

definition max_bigint :: int where
  "max_bigint = 2 ^ 63 - 1"

definition run_insert :: "gostring \<Rightarrow> pg \<Rightarrow> (gerror + sqlval list) \<times> pg" where
  "run_insert name s =
     (if \<not> text_value name then (Inl (NewError ''invalid byte sequence for encoding UTF8''), s)
      else if max_bigint < pg_next s then (Inl (NewError ''reached maximum value of sequence''), s)
      else let now = current_timestamp s;
               r = \<lparr>row_ID = word_of_int (pg_next s), row_Name = name,
                    row_CreatedAt = now, row_UpdatedAt = now\<rparr>;
               s1 = s\<lparr>pg_next := pg_next s + 1\<rparr>
        in if \<not> widgets_name_not_blank name \<or> \<not> widgets_name_length name
           then (Inl (NewError ''violates check constraint''), s1)
           else (Inr (row_columns r), s1\<lparr>pg_table := r # pg_table s\<rparr>))"

definition run_select :: "int64 \<Rightarrow> pg \<Rightarrow> (gerror + sqlval list) \<times> pg" where
  "run_select i s = (case filter (\<lambda>r. row_ID r = i) (pg_table s) of
       [] \<Rightarrow> (Inl ErrNoRows, s)
     | r # _ \<Rightarrow> (Inr (row_columns r), s))"

definition run_list :: "(DbWidget \<Rightarrow> bool) \<Rightarrow> int32 \<Rightarrow> pg \<Rightarrow> (gerror + pgx_rows) \<times> pg" where
  "run_list P limit s =
     (if sint limit < 0 then (Inl (NewError ''LIMIT must not be negative''), s)
      else (Inr \<lparr>rows_values = map row_columns (take (nat (sint limit)) (filter P (newest_rows (pg_table s)))),
                 rows_Err = None\<rparr>, s))"

definition run_delete :: "int64 \<Rightarrow> pg \<Rightarrow> (gerror + int64) \<times> pg" where
  "run_delete i s =
     (Inr (word_of_int (int (length (filter (\<lambda>r. row_ID r = i) (pg_table s))))),
      s\<lparr>pg_table := filter (\<lambda>r. row_ID r \<noteq> i) (pg_table s)\<rparr>)"

abbreviation unknown_statement :: gerror where
  "unknown_statement \<equiv> NewError ''unknown statement''"

definition pg_QueryRow :: "ctx \<Rightarrow> gostring \<Rightarrow> sqlval list \<Rightarrow> pg \<Rightarrow> (gerror + sqlval list) \<times> pg" where
  "pg_QueryRow c sql args =
     statement (\<lambda>s. (case args of
         [SqlText name] \<Rightarrow> if sql = createWidget then run_insert name s else (Inl unknown_statement, s)
       | [SqlInt8 i] \<Rightarrow> if sql = getWidget then run_select i s else (Inl unknown_statement, s)
       | _ \<Rightarrow> (Inl unknown_statement, s)))"

definition pg_Query :: "ctx \<Rightarrow> gostring \<Rightarrow> sqlval list \<Rightarrow> pg \<Rightarrow> (gerror + pgx_rows) \<times> pg" where
  "pg_Query c sql args =
     statement (\<lambda>s. (case args of
         [SqlInt4 n] \<Rightarrow>
           if sql = listWidgets then run_list (\<lambda>_. True) n s else (Inl unknown_statement, s)
       | [SqlTimestamptz t, SqlInt8 i, SqlInt4 n] \<Rightarrow>
           if sql = listWidgetsAfter
           then run_list (\<lambda>r. row_key_of r < RowKey (micros t) (sint i)) n s
           else (Inl unknown_statement, s)
       | _ \<Rightarrow> (Inl unknown_statement, s)))"

definition pg_Exec :: "ctx \<Rightarrow> gostring \<Rightarrow> sqlval list \<Rightarrow> pg \<Rightarrow> (gerror + int64) \<times> pg" where
  "pg_Exec c sql args =
     statement (\<lambda>s. (case args of
         [SqlInt8 i] \<Rightarrow> if sql = deleteWidget then run_delete i s else (Inl unknown_statement, s)
       | _ \<Rightarrow> (Inl unknown_statement, s)))"

definition pg_db :: "pg DBTX" where
  "pg_db = \<lparr>Exec = pg_Exec, Query = pg_Query, QueryRow = pg_QueryRow\<rparr>"

section \<open>Invariant\<close>

text \<open>
  Identifiers are distinct, positive and below the next value of the sequence; creation and
  update times lie strictly after the zero time and in the years up to 9999, as the clock does; the failures
  the environment injects are driver failures, not the sentinels for a missing row.
\<close>

definition latest_instant :: int where
  "latest_instant = days_before_year 10000 * 86400 * second_ns"

definition clock_ok :: "gotime \<Rightarrow> bool" where
  "clock_ok t \<longleftrightarrow> 1000 \<le> instant t \<and> instant t < latest_instant"

definition driver_error :: "gerror \<Rightarrow> bool" where
  "driver_error e \<longleftrightarrow> \<not> errors_Is e ErrNotFound \<and> \<not> errors_Is e ErrNoRows"

fun fault_ok :: "fault \<Rightarrow> bool" where
  "fault_ok Answers = True"
| "fault_ok (Refuses e) = driver_error e"
| "fault_ok (LosesAnswer e) = driver_error e"

definition row_ok :: "int \<Rightarrow> DbWidget \<Rightarrow> bool" where
  "row_ok limit r \<longleftrightarrow> 1 \<le> sint (row_ID r) \<and> sint (row_ID r) < limit
     \<and> 0 < instant (row_CreatedAt r) \<and> instant (row_CreatedAt r) < latest_instant
     \<and> 0 < instant (row_UpdatedAt r) \<and> instant (row_UpdatedAt r) < latest_instant
     \<and> text_value (row_Name r) \<and> widgets_name_not_blank (row_Name r) \<and> widgets_name_length (row_Name r)"

definition environment_ok :: "pg \<Rightarrow> bool" where
  "environment_ok s \<longleftrightarrow> (\<forall>n. clock_ok (pg_clock s n) \<and> fault_ok (pg_fault s n))"

definition pg_inv :: "pg \<Rightarrow> bool" where
  "pg_inv s \<longleftrightarrow> 1 \<le> pg_next s \<and> pg_next s \<le> max_bigint + 1
     \<and> distinct (map row_ID (pg_table s))
     \<and> list_all (row_ok (pg_next s)) (pg_table s)
     \<and> environment_ok s"

lemma current_timestamp_ok:
  "environment_ok s \<Longrightarrow> 0 < instant (current_timestamp s) \<and> instant (current_timestamp s) < latest_instant"
proof -
  assume "environment_ok s"
  then have c: "1000 \<le> instant (pg_clock s (pg_tick s))" "instant (pg_clock s (pg_tick s)) < latest_instant"
    by (simp_all add: environment_ok_def clock_ok_def)
  let ?i = "instant (pg_clock s (pg_tick s))"
  have "?i div 1000 * 1000 \<le> ?i" using div_bounds [of 1000 ?i] by simp
  moreover have "1 \<le> ?i div 1000" using zdiv_mono1 [OF c(1), of 1000] by simp
  ultimately show ?thesis using c(2) by (simp add: current_timestamp_def Let_def)
qed

lemma pg_inv_tick: "pg_inv (tick s) = pg_inv s"
  by (simp add: pg_inv_def tick_def environment_ok_def)

lemma pg_table_tick [simp]: "pg_table (tick s) = pg_table s"
  by (simp add: tick_def)

lemma row_ok_mono: "row_ok a r \<Longrightarrow> a \<le> b \<Longrightarrow> row_ok b r"
  by (simp add: row_ok_def)

lemma fault_errors:
  "pg_inv s \<Longrightarrow> pg_fault s n = Refuses e \<or> pg_fault s n = LosesAnswer e \<Longrightarrow> driver_error e"
  by (auto simp: pg_inv_def environment_ok_def) (metis fault_ok.simps)+

text \<open>What the inserted row adds, and that every way an insertion ends keeps the invariant.\<close>

lemma run_insert_inv:
  assumes inv: "pg_inv s"
  shows "pg_inv (snd (run_insert name s))"
proof (cases "text_value name \<and> pg_next s \<le> max_bigint")
  case True
  note inv' = inv [unfolded pg_inv_def]
  have nx: "sint (word_of_int (pg_next s) :: int64) = pg_next s"
    using True inv' by (intro sint_of_int64) (auto simp: max_bigint_def)
  have old: "list_all (row_ok (pg_next s + 1)) (pg_table s)"
    using inv' by (auto simp: list_all_iff intro: row_ok_mono)
  have fresh: "word_of_int (pg_next s) \<notin> row_ID ` set (pg_table s)"
    using inv' nx by (auto simp: list_all_iff row_ok_def)
  show ?thesis
    using True inv' old fresh nx current_timestamp_ok [of s]
    by (simp add: run_insert_def Let_def pg_inv_def environment_ok_def row_ok_def not_less)
next
  case False
  then show ?thesis using inv by (auto simp: run_insert_def)
qed

lemma run_insert_row:
  assumes inv: "pg_inv s" and run: "run_insert name s = (Inr vs, s')"
  shows "\<exists>r. vs = row_columns r \<and> row_Name r = name \<and> row_ID r \<notin> row_ID ` set (pg_table s)
    \<and> set (pg_table s') = insert r (set (pg_table s))"
proof -
  note inv' = inv [unfolded pg_inv_def]
  from run have "pg_next s \<le> max_bigint" by (auto simp: run_insert_def Let_def split: if_splits)
  then have nx: "sint (word_of_int (pg_next s) :: int64) = pg_next s"
    using inv' by (intro sint_of_int64) (auto simp: max_bigint_def)
  have fresh: "word_of_int (pg_next s) \<notin> row_ID ` set (pg_table s)"
    using inv' nx by (auto simp: list_all_iff row_ok_def)
  from run fresh show ?thesis by (auto simp: run_insert_def Let_def split: if_splits)
qed

section \<open>The reference database keeps PostgreSQL's contract\<close>

lemma statement_Inr:
  "statement f s = (Inr v, s') \<Longrightarrow> f (tick s) = (Inr v, s')"
  by (auto simp: statement_def split: fault.splits)

lemma statement_Inl:
  "pg_inv s \<Longrightarrow> statement f s = (Inl e, s') \<Longrightarrow> driver_error e \<or> f (tick s) = (Inl e, s')"
  by (auto simp: statement_def split: fault.splits dest: fault_errors)

lemma statement_inv:
  assumes "pg_inv s" "\<And>t. pg_inv t \<Longrightarrow> pg_inv (snd (f t))" "statement f s = (r, s')"
  shows "pg_inv s'"
proof -
  have t: "pg_inv (tick s)" using assms(1) by (simp add: pg_inv_tick)
  from assms(2) [OF t] t assms(3) show ?thesis
    by (auto simp: statement_def split: fault.splits)
qed

lemma statement_read:
  assumes "\<And>t. snd (f t) = t" "statement f s = (r, s')"
  shows "s' = tick s"
  using assms(1) [of "tick s"] assms(2) by (auto simp: statement_def split: fault.splits)

lemma run_select_read [simp]: "snd (run_select i s) = s"
  by (simp add: run_select_def split: list.splits)

lemma run_list_read [simp]: "snd (run_list P n s) = s"
  by (simp add: run_list_def)

lemma pg_Query_read: "pg_Query c sql args s = (r, s') \<Longrightarrow> s' = tick s"
  unfolding pg_Query_def
  by (erule statement_read [rotated]) (auto split: list.splits sqlval.splits)

lemma pg_QueryRow_get_read: "pg_QueryRow c getWidget [SqlInt8 i] s = (r, s') \<Longrightarrow> s' = tick s"
  unfolding pg_QueryRow_def by (erule statement_read [rotated]) simp

lemma run_delete_inv: "pg_inv s \<Longrightarrow> pg_inv (snd (run_delete i s))"
  by (auto simp: run_delete_def pg_inv_def environment_ok_def list_all_iff distinct_map_filter)

lemma filter_key_count:
  "distinct (map f xs) \<Longrightarrow> length (filter (\<lambda>x. f x = k) xs) \<le> 1"
  by (induction xs) (auto simp: filter_empty_conv image_iff)

lemma run_delete_count:
  assumes "distinct (map row_ID (pg_table s))" "run_delete i s = (Inr m, s')"
  shows "m = 0 \<longleftrightarrow> i \<notin> row_ID ` set (pg_table s)"
proof -
  let ?n = "length (filter (\<lambda>r. row_ID r = i) (pg_table s))"
  have "?n = 0 \<or> ?n = 1" using filter_key_count [OF assms(1), of i] by linarith
  moreover have "m = word_of_int (int ?n)" using assms(2) by (simp add: run_delete_def)
  moreover have "?n = 0 \<longleftrightarrow> i \<notin> row_ID ` set (pg_table s)" by (auto simp: filter_empty_conv)
  ultimately show ?thesis by auto
qed

lemma statement_keeps:
  assumes "\<And>t. P t \<subseteq> P (snd (f t))" "P (tick s) = P s" "statement f s = (r, s')"
  shows "P s \<subseteq> P s'"
  using assms(1) [of "tick s"] assms(2,3) by (auto simp: statement_def split: fault.splits)

lemma run_insert_keeps: "set (pg_table t) \<subseteq> set (pg_table (snd (run_insert name t)))"
  by (auto simp: run_insert_def Let_def)

lemma run_delete_keeps:
  "{r \<in> set (pg_table t). row_ID r \<noteq> i} \<subseteq> {r \<in> set (pg_table (snd (run_delete i t))). row_ID r \<noteq> i}"
  by (auto simp: run_delete_def)

interpretation pg: postgres_widgets pg_db pg_table pg_inv
proof (unfold_locales, goal_cases)
  case (1 s)
  then show ?case by (simp add: pg_inv_def)
next
  case (2 s r)
  then show ?case by (auto simp: pg_inv_def list_all_iff row_ok_def IsZero_def)
next
  case (3 s c name r s')
  then show ?case
    by (auto simp: pg_db_def pg_QueryRow_def elim: statement_inv [rotated 2] intro: run_insert_inv)
next
  case (4 s c name vs s')
  then have "run_insert name (tick s) = (Inr vs, s')" "pg_inv (tick s)"
    by (auto simp: pg_db_def pg_QueryRow_def pg_inv_tick dest!: statement_Inr)
  from run_insert_row [OF this(2,1)] show ?case by simp
next
  case (5 s c name ri s')
  then have "statement (\<lambda>s. run_insert name s) s = (ri, s')"
    by (simp add: pg_db_def pg_QueryRow_def)
  from statement_keeps [where P = "\<lambda>t. set (pg_table t)", OF run_insert_keeps _ this]
  show ?case by simp
next
  case (6 s c i r s')
  then have "s' = tick s" by (auto simp: pg_db_def dest: pg_QueryRow_get_read)
  with 6 show ?case by (simp add: pg_inv_tick)
next
  case (7 s c i vs s')
  then have run: "run_select i (tick s) = (Inr vs, s')"
    by (auto simp: pg_db_def pg_QueryRow_def dest!: statement_Inr)
  then obtain r rs where "filter (\<lambda>r. row_ID r = i) (pg_table s) = r # rs" "vs = row_columns r"
    by (auto simp: run_select_def split: list.splits)
  moreover from this have "r \<in> set (pg_table s)" "row_ID r = i"
    by (metis (mono_tags, lifting) list.set_intros(1) mem_Collect_eq set_filter)+
  ultimately show ?case by auto
next
  case (8 s c i e s')
  then have "driver_error e \<or> run_select i (tick s) = (Inl e, s')"
    by (auto simp: pg_db_def pg_QueryRow_def dest!: statement_Inl)
  then show ?case
    by (auto simp: driver_error_def run_select_def filter_empty_conv split: list.splits)
next
  case (9 s sql c args r s')
  then have "s' = tick s" by (auto simp: pg_db_def dest: pg_Query_read)
  with 9 show ?case by (simp add: pg_inv_tick)
next
  case (10 s c n rows s')
  then show ?case
    by (auto simp: pg_db_def pg_Query_def run_list_def dest!: statement_Inr split: if_splits)
next
  case (11 s c t i n rows s')
  then show ?case
    by (auto simp: pg_db_def pg_Query_def run_list_def dest!: statement_Inr split: if_splits)
next
  case (12 s c i r s')
  then show ?case
    by (auto simp: pg_db_def pg_Exec_def elim: statement_inv [rotated 2] intro: run_delete_inv)
next
  case (13 s c i rd s')
  then have "statement (\<lambda>s. run_delete i s) s = (rd, s')"
    by (simp add: pg_db_def pg_Exec_def)
  from statement_keeps [where P = "\<lambda>t. {r \<in> set (pg_table t). row_ID r \<noteq> i}",
      OF run_delete_keeps _ this]
  show ?case by auto
next
  case (14 s c i m s')
  then have run: "run_delete i (tick s) = (Inr m, s')"
    by (auto simp: pg_db_def pg_Exec_def dest!: statement_Inr)
  moreover have "distinct (map row_ID (pg_table (tick s)))" using 14(1) by (simp add: pg_inv_def)
  ultimately show ?case using run_delete_count [of "tick s" i m s']
    by (auto simp: run_delete_def)
next
  case (15 s c i e s')
  then show ?case
    by (auto simp: pg_db_def pg_Exec_def driver_error_def run_delete_def dest!: statement_Inl)
qed

text \<open>A database whose remaining statements are all answered.\<close>

definition pg_answering :: "pg \<Rightarrow> bool" where
  "pg_answering s \<longleftrightarrow> (\<forall>n \<ge> pg_tick s. pg_fault s n = Answers)"

abbreviation pg_service :: "pg repository" where
  "pg_service \<equiv> repository_over pg_db"

abbreviation pg_rows :: "pg \<Rightarrow> Widget list" where
  "pg_rows s \<equiv> listing (pg_table s)"

lemma pg_Query_answers:
  "pg_answering s \<Longrightarrow> 0 \<le> sint n \<Longrightarrow>
     \<exists>rows. pg_Query c listWidgets [SqlInt4 n] s = (Inr rows, tick s) \<and> rows_Err rows = None
       \<and> (\<exists>rs. rows_values rows = map row_columns rs)"
  "pg_answering s \<Longrightarrow> 0 \<le> sint n \<Longrightarrow>
     \<exists>rows. pg_Query c listWidgetsAfter [SqlTimestamptz t, SqlInt8 i, SqlInt4 n] s = (Inr rows, tick s)
       \<and> rows_Err rows = None \<and> (\<exists>rs. rows_values rows = map row_columns rs)"
  by (auto simp: pg_answering_def pg_Query_def statement_def run_list_def)

lemma pg_answering_tick: "pg_answering s \<Longrightarrow> pg_answering (tick s)"
  by (simp add: pg_answering_def tick_def)

interpretation pg_live: answering_repository pg_service pg_rows pg_inv pg_answering
proof (unfold_locales, unfold repository_over_simps)
  fix s :: pg and opts :: ListOptions and c
  assume "pg_answering s" "0 \<le> sint (Limit opts)"
  then show "\<exists>ws s'. pg_List \<lparr>queries = dbgen_New pg_db\<rparr> c opts s = (Inr ws, s') \<and> pg_answering s'"
    using pg_Query_answers(1) [of s "Limit opts" c]
      pg_Query_answers(2) [of s "Limit opts" c "CursorCreatedAt (the (Cursor opts))" "CursorID (the (Cursor opts))"]
    by (cases "Cursor opts")
      (auto simp: pg_List_def ListWidgets_def ListWidgetsAfter_def dbgen_New_def pg_db_def
        collect_rows_def pg_answering_tick)
qed

text \<open>Stored widgets can be rendered: their times lie in the years 1 to 9999, in UTC.\<close>

lemma UTC_renders:
  assumes "0 < instant t" "instant t < latest_instant"
  shows "time_renders (UTC t)"
  using Year_bounds [of "UTC t"] assms by (simp add: time_renders_def latest_instant_def)

lemma pg_presentable:
  assumes "pg_inv s" "w \<in> set (pg_rows s)"
  shows "presentable w"
proof -
  from assms(2) obtain r where r: "r \<in> set (pg_table s)" "w = widgetFromDatabase r"
    by (auto simp: listing_def)
  with assms(1) have "row_ok (pg_next s) r" by (auto simp: pg_inv_def list_all_iff)
  with r(2) show ?thesis
    by (simp add: presentable_def row_ok_def widgetFromDatabase_def UTC_renders text_value_def)
qed

interpretation pg_wire: presentable_repository pg_service pg_rows pg_inv
  by unfold_locales (rule pg_presentable)

section \<open>A database that keeps answering\<close>

text \<open>Statements advance the environment's clock and change neither its answers nor its times.\<close>

definition pg_later :: "pg \<Rightarrow> pg \<Rightarrow> bool" where
  "pg_later s s' \<longleftrightarrow> pg_fault s' = pg_fault s \<and> pg_tick s \<le> pg_tick s'"

lemma pg_later_refl [simp]: "pg_later s s"
  by (simp add: pg_later_def)

lemma pg_later_answering: "pg_later s s' \<Longrightarrow> pg_answering s \<Longrightarrow> pg_answering s'"
  by (simp add: pg_later_def pg_answering_def)

text \<open>
  A property of the database that time, insertions and deletions keep is kept by every statement,
  every operation of the adapter and every call of the service.
\<close>

definition kept :: "(pg \<Rightarrow> bool) \<Rightarrow> bool" where
  "kept P \<longleftrightarrow> (\<forall>t. P t \<longrightarrow> P (tick t) \<and> (\<forall>name. P (snd (run_insert name t))) \<and> (\<forall>i. P (snd (run_delete i t))))"

lemma statement_kept:
  assumes "kept P" "P s" "\<And>t. snd (f t) = t \<or> (\<exists>name. snd (f t) = snd (run_insert name t)) \<or> (\<exists>i. snd (f t) = snd (run_delete i t))"
  shows "P (snd (statement f s))"
proof -
  have t: "P (tick s)" using assms(1,2) by (simp add: kept_def)
  have "P (snd (f (tick s)))" using assms(3) [of "tick s"] t assms(1) by (auto simp: kept_def)
  with t show ?thesis by (auto simp: statement_def split: fault.splits)
qed

lemma pg_db_kept:
  assumes "kept P" "P s"
  shows "P (snd (QueryRow pg_db c sql args s))" "P (snd (Query pg_db c sql args s))"
    "P (snd (Exec pg_db c sql args s))"
  unfolding pg_db_def DBTX.simps pg_QueryRow_def pg_Query_def pg_Exec_def
  by (rule statement_kept [OF assms]; auto split: list.splits sqlval.splits)+

lemma pg_repository_kept:
  assumes "kept P" "P s"
  shows "P (snd (repo_Create pg_service c name s))" "P (snd (repo_Get pg_service c i s))"
    "P (snd (repo_List pg_service c opts s))" "P (snd (repo_Delete pg_service c i s))"
proof -
  note db = pg_db_kept [OF assms, of c]
  note defs = repository_over_def pg_repository_def pg_Create_def pg_Get_def pg_List_def pg_Delete_def
    CreateWidget_def GetWidget_def ListWidgets_def ListWidgetsAfter_def DeleteWidget_def dbgen_New_def bind_result_def
  show "P (snd (repo_Create pg_service c name s))"
    using db(1) [of createWidget "[SqlText name]"] by (auto simp: defs split: prod.splits sum.splits)
  show "P (snd (repo_Get pg_service c i s))"
    using db(1) [of getWidget "[SqlInt8 i]"] by (auto simp: defs split: prod.splits sum.splits)
  show "P (snd (repo_List pg_service c opts s))"
    using db(2) [of listWidgets "[SqlInt4 (Limit opts)]"]
      db(2) [of listWidgetsAfter "[SqlTimestamptz (CursorCreatedAt (the (Cursor opts))),
        SqlInt8 (CursorID (the (Cursor opts))), SqlInt4 (Limit opts)]"]
    by (auto simp: defs split: prod.splits sum.splits option.splits)
  show "P (snd (repo_Delete pg_service c i s))"
    using db(3) [of deleteWidget "[SqlInt8 i]"] by (auto simp: defs split: prod.splits sum.splits)
qed

lemma run_call_kept:
  assumes "kept P" "P s"
  shows "P (run_call pg_service c call s)"
proof (cases call)
  case (CallCreate name)
  then show ?thesis using pg_repository_kept(1) [OF assms, of c "TrimSpace name"] assms(2)
    by (simp add: service_Create_def Let_def)
next
  case (CallGet i)
  then show ?thesis using pg_repository_kept(2) [OF assms, of c i] assms(2) by (simp add: service_Get_def)
next
  case (CallList opts)
  then show ?thesis
    using pg_repository_kept(3) [OF assms, of c] assms(2)
    by (auto simp: service_List_def Let_def split: prod.splits sum.splits) (metis snd_conv)+
next
  case (CallDelete i)
  then show ?thesis using pg_repository_kept(4) [OF assms, of c i] assms(2) by (simp add: service_Delete_def)
qed

lemma run_calls_kept: "kept P \<Longrightarrow> P s \<Longrightarrow> P (run_calls pg_service c calls s)"
  unfolding run_calls_def by (induction calls arbitrary: s) (auto intro: run_call_kept)

lemma kept_later: "kept (pg_later s)"
  by (auto simp: kept_def pg_later_def tick_def run_insert_def run_delete_def Let_def)

lemma run_call_later: "pg_later s (run_call pg_service c call s)"
  by (rule run_call_kept [OF kept_later]) simp

lemma run_calls_answering: "pg_answering s \<Longrightarrow> pg_answering (run_calls pg_service c calls s)"
  by (rule pg_later_answering [OF run_calls_kept [OF kept_later]]) simp_all

text \<open>An identifier that was issued and is no longer stored does not come back.\<close>

definition gone :: "int64 \<Rightarrow> pg \<Rightarrow> bool" where
  "gone i s \<longleftrightarrow> pg_inv s \<and> sint i < pg_next s \<and> i \<notin> row_ID ` set (pg_table s)"

lemma gone_insert:
  assumes "gone i s"
  shows "gone i (snd (run_insert name s))"
proof -
  have inv: "pg_inv s" "1 \<le> pg_next s" using assms by (simp_all add: gone_def pg_inv_def)
  have "word_of_int (pg_next s) \<noteq> i" if "pg_next s \<le> max_bigint"
  proof
    assume "word_of_int (pg_next s) = i"
    moreover have "sint (word_of_int (pg_next s) :: int64) = pg_next s"
      using inv(2) that by (intro sint_of_int64) (simp_all add: max_bigint_def)
    ultimately show False using assms by (simp add: gone_def)
  qed
  with assms run_insert_inv [OF inv(1), of name] show ?thesis
    by (auto simp: gone_def run_insert_def Let_def)
qed

lemma kept_gone: "kept (gone i)"
  unfolding kept_def
proof (intro allI impI conjI)
  fix t name j
  assume gone: "gone i t"
  then show "gone i (tick t)" by (simp add: gone_def pg_inv_tick) (simp add: tick_def)
  show "gone i (snd (run_insert name t))" by (rule gone_insert [OF gone])
  show "gone i (snd (run_delete j t))"
    using gone run_delete_inv [of t j] by (auto simp: gone_def run_delete_def)
qed

lemma deleted_gone:
  assumes "pg_inv s" "service_Delete pg_service c i s = (Inr u, s')"
  shows "gone i s'"
proof -
  note removed = pg.adapter.service_Delete_removes [OF assms]
  have inv: "pg_inv s'" using assms by (rule pg.adapter.service_Delete_inv)
  obtain r where "r \<in> set (pg_table s)" "row_ID r = i" using removed(1) by (auto simp: listing_def)
  then have "sint i < pg_next s" using assms(1) by (auto simp: pg_inv_def list_all_iff row_ok_def)
  moreover have "kept (\<lambda>t. pg_next s \<le> pg_next t)"
    by (auto simp: kept_def tick_def run_insert_def run_delete_def Let_def)
  from run_call_kept [OF this, of s c "CallDelete i"] have "pg_next s \<le> pg_next s'" using assms(2) by simp
  moreover have "i \<notin> ID ` set (pg_rows s')" using removed(2) by auto
  then have "i \<notin> row_ID ` set (pg_table s')" by (auto simp: listing_def image_iff)
  ultimately show ?thesis using inv by (simp add: gone_def)
qed

lemma gone_not_listed: "gone i s \<Longrightarrow> i \<notin> ID ` set (pg_rows s)"
  by (auto simp: gone_def listing_def)

text \<open>On a database that answers, the service reports that it is not found.\<close>

lemma gone_get:
  assumes "gone i s" "pg_answering s"
  shows "\<exists>e. fst (service_Get pg_service c i s) = Inl e \<and> errors_Is e ErrNotFound"
proof -
  have "pg_fault s (pg_tick s) = Answers" using assms(2) by (simp add: pg_answering_def)
  moreover have "filter (\<lambda>r. row_ID r = i) (pg_table s) = []" using assms(1) by (auto simp: gone_def filter_empty_conv)
  ultimately show ?thesis
    by (simp add: service_Get_def repository_over_def pg_repository_def pg_Get_def GetWidget_def dbgen_New_def
        pg_db_def pg_QueryRow_def statement_def sql_texts_differ run_select_def)
qed

lemma gone_delete:
  assumes "gone i s" "pg_answering s"
  shows "\<exists>e. fst (service_Delete pg_service c i s) = Inl e \<and> errors_Is e ErrNotFound"
proof -
  have "pg_fault s (pg_tick s) = Answers" using assms(2) by (simp add: pg_answering_def)
  moreover have "filter (\<lambda>r. row_ID r = i) (pg_table s) = []" using assms(1) by (auto simp: gone_def filter_empty_conv)
  ultimately show ?thesis
    by (simp add: service_Delete_def repository_over_def pg_repository_def pg_Delete_def DeleteWidget_def dbgen_New_def
        pg_db_def pg_Exec_def statement_def run_delete_def)
qed

lemma filter_unique: "distinct (map f xs) \<Longrightarrow> x \<in> set xs \<Longrightarrow> filter (\<lambda>y. f y = f x) xs = [x]"
  by (induction xs) (auto simp: filter_empty_conv image_iff)

text \<open>Reading a stored widget succeeds.\<close>

lemma get_stored:
  assumes "pg_inv s" "pg_answering s" "w \<in> set (pg_rows s)"
  shows "\<exists>s'. service_Get pg_service c (ID w) s = (Inr w, s')"
proof -
  obtain r where r: "r \<in> set (pg_table s)" "w = widgetFromDatabase r"
    using assms(3) by (auto simp: listing_def)
  have id: "ID w = row_ID r" by (simp add: r(2) widgetFromDatabase_def)
  have "1 \<le> sint (ID w)" using pg.adapter.rows_valid [OF assms(1,3)] by simp
  moreover have "filter (\<lambda>x. row_ID x = row_ID r) (pg_table s) = [r]"
    using assms(1) r(1) by (intro filter_unique) (simp_all add: pg_inv_def)
  moreover have "pg_fault s (pg_tick s) = Answers" using assms(2) by (simp add: pg_answering_def)
  ultimately have "service_Get pg_service c (ID w) s = (Inr w, tick s)"
    by (simp add: service_Get_def repository_over_def pg_repository_def pg_Get_def GetWidget_def dbgen_New_def
        pg_db_def pg_QueryRow_def statement_def sql_texts_differ run_select_def id r(2))
  then show ?thesis by blast
qed

end
