(* ===== verification/Widget_Properties.thy ===== *)
theory Widget_Properties
  imports Postgres_Table
begin

text \<open>
  The properties of the widget capability: listing by cursors, creation, reading and deletion,
  stated for the service over the PostgreSQL adapter on the reference database, and the
  validation rules of the service, stated for every repository. A small concrete database
  serves the witnesses.
\<close>

section \<open>A concrete database\<close>

definition demo_row :: "int \<Rightarrow> int \<Rightarrow> gostring \<Rightarrow> DbWidget" where
  "demo_row i t name = \<lparr>row_ID = word_of_int i, row_Name = name,
     row_CreatedAt = \<lparr>instant = t, zone_offset = 3600\<rparr>, row_UpdatedAt = \<lparr>instant = t, zone_offset = 3600\<rparr>\<rparr>"

definition demo_pg :: pg where
  "demo_pg = \<lparr>pg_table = [demo_row 3 9000 ''c'', demo_row 2 5000 ''b'', demo_row 1 5000 ''a''], pg_next = 4,
     pg_tick = 0, pg_fault = (\<lambda>_. Answers), pg_clock = (\<lambda>_. \<lparr>instant = 9000, zone_offset = 3600\<rparr>)\<rparr>"

lemma demo_latest: "9001 < latest_instant"
  by (simp add: latest_instant_def days_before_year_def)

lemma demo_text_value: "c \<in> {CHR ''a'', CHR ''b'', CHR ''c''} \<Longrightarrow>
    text_value [c] \<and> widgets_name_not_blank [c] \<and> widgets_name_length [c]"
  by (auto simp: text_value_def widgets_name_not_blank_def widgets_name_length_def decode_rune.simps
      rune_error_def)

lemma demo_inv: "pg_inv demo_pg"
  using demo_latest demo_text_value
  by (simp add: pg_inv_def demo_pg_def demo_row_def row_ok_def environment_ok_def clock_ok_def max_bigint_def)

lemma demo_answering: "pg_answering demo_pg"
  by (simp add: pg_answering_def demo_pg_def)

lemma demo_rows: "map ID (pg_rows demo_pg) = [3, 2, 1]"
  by (simp add: listing_def newest_rows_def demo_pg_def demo_row_def row_key_of_def micros_def
      less_eq_row_key_def sort_key_def o_def)

lemma demo_length: "length (pg_rows demo_pg) = 3"
  using arg_cong [OF demo_rows, of length] by simp

lemma sint_two: "sint (2 :: int32) = 2"
  by simp

section \<open>Listing\<close>

text \<open>
  C1. Following the cursors from the first page lists every stored widget exactly once, newest
  first: on a database that answers and does not change between the requests, any number of
  requests that is enough for the rows (each takes \<open>lim\<close> of them) yields precisely the listing,
  for every page size the service accepts.
\<close>

theorem cursor_walk_lists_all:
  assumes "pg_inv s" "pg_answering s" "valid_limit lim"
    and "0 < n" "length (pg_rows s) \<le> n * nat (sint lim)"
  shows "walk_pages pg_service c lim None (replicate n (\<lambda>t. t)) s = Complete (pg_rows s)"
  using pg_live.walk_pages_static [OF assms(1-3), of None n c] assms(4,5)
  by (simp add: valid_cursor_def invalid_cursor_def after_cursor_def)

theorem cursor_walk_lists_all_witness:
  "walk_pages pg_service background 2 None (replicate 2 (\<lambda>t. t)) demo_pg = Complete (pg_rows demo_pg)"
  by (rule cursor_walk_lists_all [OF demo_inv demo_answering])
    (simp_all add: valid_limit_def demo_length)

text \<open>
  C4. Listing by cursors is safe under concurrent writes and failing statements: whatever
  service calls other clients make between the requests, the items a walk returns are strictly
  ordered newest first, so no widget is returned twice.
\<close>

theorem cursor_walk_never_repeats:
  assumes "pg_inv s" "valid_limit lim"
    and "ws = walk_items (walk_pages pg_service c lim None (map (run_calls pg_service c') callss) s)"
  shows "newest_first ws \<and> distinct ws"
proof -
  have "newest_first ws"
    using pg.adapter.walk_pages_ordered [OF assms(1,2), of None "map (run_calls pg_service c') callss" c]
    by (simp add: assms(3) valid_cursor_def invalid_cursor_def pg.adapter.run_calls_inv)
  then show ?thesis using newest_first_distinct by blast
qed

theorem cursor_walk_never_repeats_witness:
  "distinct (walk_items (walk_pages pg_service background 2 None
     (map (run_calls pg_service background) [[CallDelete 2], [CallCreate ''new'']]) demo_pg))"
  by (rule cursor_walk_never_repeats [OF demo_inv _ refl, THEN conjunct2]) (simp add: valid_limit_def)

text \<open>
  C5. Listing by cursors misses nothing: a widget that is stored when the walk starts and that
  no client deletes meanwhile is returned by every walk that completes, whatever else is created
  or deleted between the requests and whichever statements fail.
\<close>

theorem cursor_walk_misses_nothing:
  assumes "pg_inv s" "valid_limit lim" "w \<in> set (pg_rows s)"
    and "\<forall>calls \<in> set callss. CallDelete (ID w) \<notin> set calls"
    and "walk_pages pg_service c lim None (map (run_calls pg_service c') callss) s = Complete ws"
  shows "w \<in> set ws"
  by (rule pg.adapter.walk_pages_covers [OF assms(1,2) _ _ assms(3) _ assms(5)])
    (use assms(4) in \<open>auto simp: valid_cursor_def invalid_cursor_def
      intro: pg.adapter.run_calls_inv pg.adapter.run_calls_keeps\<close>)

theorem cursor_walk_misses_nothing_witness:
  "\<exists>ws w. walk_pages pg_service background 2 None (map (run_calls pg_service background) [[], []]) demo_pg
      = Complete ws \<and> w \<in> set (pg_rows demo_pg) \<and> w \<in> set ws"
proof -
  have "walk_pages pg_service background 2 None (replicate 2 (\<lambda>t. t)) demo_pg = Complete (pg_rows demo_pg)"
    using pg_live.walk_pages_static [OF demo_inv demo_answering, of 2 None 2 background]
    by (simp add: valid_limit_def valid_cursor_def invalid_cursor_def after_cursor_def demo_length)
  moreover have "map (run_calls pg_service background) [[], []] = replicate 2 (\<lambda>t. t)"
    by (simp add: run_calls_def numeral_2_eq_2 fun_eq_iff)
  ultimately have walk: "walk_pages pg_service background 2 None (map (run_calls pg_service background) [[], []]) demo_pg
      = Complete (pg_rows demo_pg)" by simp
  obtain w where w: "w \<in> set (pg_rows demo_pg)" using demo_length by (cases "pg_rows demo_pg") auto
  have "w \<in> set (pg_rows demo_pg)"
    by (rule cursor_walk_misses_nothing [OF demo_inv _ w _ walk]) (simp_all add: valid_limit_def)
  with walk w show ?thesis by blast
qed

text \<open>
  C22. One page, for every accepted page size and cursor: if the service answers, the page holds
  the rows behind the cursor up to the limit, reports the applied limit, and carries a cursor at
  its last item exactly when more rows follow; the stored rows are unchanged.
\<close>

theorem list_page:
  assumes "pg_inv s" "valid_limit lim" "valid_cursor cur"
    and "service_List pg_service c \<lparr>Limit = lim, Cursor = cur\<rparr> s = (Inr page, s')"
  shows "page = page_at cur lim (pg_rows s) \<and> pg_rows s' = pg_rows s"
  using pg.adapter.service_List_Inr [OF assms] by simp

theorem list_page_witness:
  "\<exists>page s'. service_List pg_service background \<lparr>Limit = 2, Cursor = None\<rparr> demo_pg = (Inr page, s')
     \<and> page = page_at None 2 (pg_rows demo_pg)"
proof -
  have lim: "valid_limit 2" and cur: "valid_cursor None"
    by (simp_all add: valid_limit_def valid_cursor_def invalid_cursor_def)
  obtain ws s' where run: "repo_List pg_service background \<lparr>Limit = 2 + 1, Cursor = None\<rparr> demo_pg = (Inr ws, s')"
    using pg_live.list_answers [OF demo_inv demo_answering, of "\<lparr>Limit = 2 + 1, Cursor = None\<rparr>" background]
    by auto
  from pg.adapter.service_List_page [OF demo_inv lim cur run]
  have call: "service_List pg_service background \<lparr>Limit = 2, Cursor = None\<rparr> demo_pg
      = (Inr (page_at None 2 (pg_rows demo_pg)), s')" .
  from list_page [OF demo_inv lim cur call] call show ?thesis by blast
qed

section \<open>Writing and reading back\<close>

text \<open>The rows of a well-formed table.\<close>

lemma pg_rows_well_formed:
  assumes "pg_inv s"
  shows "newest_first (pg_rows s) \<and> distinct (map ID (pg_rows s))
    \<and> (\<forall>w \<in> set (pg_rows s). 1 \<le> sint (ID w) \<and> widgets_name_not_blank (Name w) \<and> widgets_name_length (Name w)
      \<and> presentable w)"
proof -
  have "1 \<le> sint (ID w) \<and> widgets_name_not_blank (Name w) \<and> widgets_name_length (Name w)"
    if "w \<in> set (pg_rows s)" for w
    using that assms by (auto simp: listing_def pg_inv_def list_all_iff row_ok_def widgetFromDatabase_def)
  then show ?thesis
    using pg.adapter.rows_newest_first [OF assms] pg.adapter.rows_distinct [OF assms] pg_presentable [OF assms] by auto
qed

text \<open>
  What one call may do to the stored widgets, as a step of an abstract store: a call to create may
  add one widget, with the trimmed name of the call if that is 1 to 120 characters long; a call to
  delete may remove the widget it names; nothing else changes anything.
\<close>

definition proper_name :: "gostring \<Rightarrow> bool" where
  "proper_name n \<longleftrightarrow> n \<noteq> [] \<and> TrimSpace n = n \<and> length (runes n) \<le> 120"

fun store_step :: "service_call \<Rightarrow> Widget set \<Rightarrow> Widget set \<Rightarrow> bool" where
  "store_step (CallCreate name) W W' \<longleftrightarrow> W' = W
     \<or> (\<exists>w. W' = insert w W \<and> Name w = TrimSpace name \<and> proper_name (Name w))"
| "store_step (CallDelete i) W W' \<longleftrightarrow> W' = W \<or> W' = {w \<in> W. ID w \<noteq> i}"
| "store_step call W W' \<longleftrightarrow> W' = W"

lemma rows_inserted: "set (pg_rows (snd (run_insert name s))) = set (pg_rows s)
    \<or> (\<exists>w. set (pg_rows (snd (run_insert name s))) = insert w (set (pg_rows s)) \<and> Name w = name)"
  by (auto simp: run_insert_def Let_def listing_def widgetFromDatabase_def)

lemma rows_deleted: "set (pg_rows (snd (run_delete i s))) = {w \<in> set (pg_rows s). ID w \<noteq> i}"
  by (auto simp: run_delete_def listing_def)

lemma statement_rows:
  assumes "\<And>t. pg_table t = pg_table s \<Longrightarrow> P (set (pg_rows (snd (f t))))" "P (set (pg_rows s))"
  shows "P (set (pg_rows (snd (statement f s))))"
  using assms(1) [of "tick s"] assms(2) by (simp add: statement_def split: fault.split)

lemma call_steps: "store_step call (set (pg_rows s)) (set (pg_rows (run_call pg_service c call s)))"
proof (cases call)
  case (CallCreate name)
  show ?thesis
  proof (cases "TrimSpace name = [] \<or> 120 < length (runes (TrimSpace name))")
    case True
    then show ?thesis by (simp add: CallCreate service_Create_def Let_def maximumNameLength_def)
  next
    case False
    then have proper: "proper_name (TrimSpace name)" by (simp add: proper_name_def TrimSpace_idem not_less)
    have "run_call pg_service c call s = snd (statement (run_insert (TrimSpace name)) s)"
      using False
      by (simp add: CallCreate service_Create_def Let_def maximumNameLength_def repository_over_def pg_repository_def pg_Create_def
          CreateWidget_def dbgen_New_def pg_db_def pg_QueryRow_def split_beta split: sum.split)
    moreover have "store_step call (set (pg_rows s)) (set (pg_rows (snd (statement (run_insert (TrimSpace name)) s))))"
    proof (rule statement_rows)
      fix t :: pg
      assume "pg_table t = pg_table s"
      with rows_inserted [of "TrimSpace name" t] proper
      show "store_step call (set (pg_rows s)) (set (pg_rows (snd (run_insert (TrimSpace name) t))))"
        by (auto simp: CallCreate)
    qed (simp add: CallCreate)
    ultimately show ?thesis by simp
  qed
next
  case (CallDelete i)
  show ?thesis
  proof (cases "sint i < 1")
    case True
    then show ?thesis by (simp add: CallDelete service_Delete_def)
  next
    case False
    then have "run_call pg_service c call s = snd (statement (run_delete i) s)"
      by (simp add: CallDelete service_Delete_def repository_over_def pg_repository_def pg_Delete_def DeleteWidget_def
          dbgen_New_def pg_db_def pg_Exec_def split_beta split: sum.split)
    moreover have "store_step call (set (pg_rows s)) (set (pg_rows (snd (statement (run_delete i) s))))"
    proof (rule statement_rows)
      fix t :: pg
      assume "pg_table t = pg_table s"
      with rows_deleted [of i t] show "store_step call (set (pg_rows s)) (set (pg_rows (snd (run_delete i t))))"
        by (simp add: CallDelete)
    qed (simp add: CallDelete)
    ultimately show ?thesis by simp
  qed
next
  case (CallGet i)
  then show ?thesis
    by (simp add: service_Get_def repository_over_def pg_repository_def pg_Get_def GetWidget_def dbgen_New_def pg_db_def
        split_beta split: sum.split) (use pg_QueryRow_get_read prod.collapse in \<open>metis pg_table_tick\<close>)
next
  case (CallList opts)
  obtain r s' where run: "service_List pg_service c opts s = (r, s')" by fastforce
  have "pg_table s' = pg_table s"
    using run pg_Query_read
    by (fastforce simp: service_List_def Let_def repository_over_def pg_repository_def pg_List_def ListWidgets_def
        ListWidgetsAfter_def dbgen_New_def pg_db_def bind_result_def split: if_splits prod.splits sum.splits option.splits)
  then show ?thesis by (simp add: CallList run)
qed

text \<open>The calls that may add, for counting.\<close>

definition creations :: "service_call list \<Rightarrow> nat" where
  "creations calls = length (filter (\<lambda>call. \<exists>name. call = CallCreate name) calls)"

lemma store_step_accounts:
  assumes "store_step call W W'"
  shows "\<forall>w \<in> W' - W. \<exists>name. call = CallCreate name \<and> Name w = TrimSpace name \<and> proper_name (Name w)"
    "\<forall>w \<in> W - W'. call = CallDelete (ID w)" "card (W' - W) \<le> creations [call]" "finite W \<Longrightarrow> finite W'"
proof -
  show "\<forall>w \<in> W' - W. \<exists>name. call = CallCreate name \<and> Name w = TrimSpace name \<and> proper_name (Name w)"
    "\<forall>w \<in> W - W'. call = CallDelete (ID w)" "finite W \<Longrightarrow> finite W'"
    using assms by (cases call; auto)+
  show "card (W' - W) \<le> creations [call]"
  proof (cases call)
    case (CallCreate name)
    then consider "W' = W" | w where "W' = insert w W" using assms by auto
    then show ?thesis
    proof cases
      case 2
      then have "W' - W \<subseteq> {w}" by auto
      then have "card (W' - W) \<le> card {w}" by (rule card_mono [rotated]) simp
      then show ?thesis by (simp add: CallCreate creations_def)
    qed simp
  next
    case (CallDelete i)
    then have "W' - W = {}" using assms by auto
    then show ?thesis by (simp only: card.empty)
  qed (use assms in simp_all)
qed

lemma history_steps:
  assumes "ws = pg_rows s" "ws' = pg_rows (run_calls pg_service c calls s)"
  shows "(\<forall>w \<in> set ws' - set ws. \<exists>name. CallCreate name \<in> set calls \<and> Name w = TrimSpace name \<and> proper_name (Name w))
    \<and> (\<forall>w \<in> set ws - set ws'. CallDelete (ID w) \<in> set calls) \<and> card (set ws' - set ws) \<le> creations calls"
  using assms
proof (induction calls arbitrary: s ws)
  case Nil
  then show ?case by (simp add: run_calls_def)
next
  case (Cons call calls)
  let ?vs = "pg_rows (run_call pg_service c call s)"
  note step = store_step_accounts [OF call_steps [of call s c], folded Cons.prems(1)]
  have rest: "ws' = pg_rows (run_calls pg_service c calls (run_call pg_service c call s))"
    using Cons.prems(2) by (simp add: run_calls_def)
  note later = Cons.IH [OF refl rest]
  have "card (set ws' - set ws) \<le> card ((set ?vs - set ws) \<union> (set ws' - set ?vs))" by (rule card_mono) auto
  also have "\<dots> \<le> card (set ?vs - set ws) + card (set ws' - set ?vs)" by (rule card_Un_le)
  also have "\<dots> \<le> creations [call] + creations calls" using step(3) later by (intro add_mono) simp_all
  also have "\<dots> = creations (call # calls)" by (simp add: creations_def)
  finally have count: "card (set ws' - set ws) \<le> creations (call # calls)" .
  have added: "\<exists>name. CallCreate name \<in> set (call # calls) \<and> Name w = TrimSpace name \<and> proper_name (Name w)"
    if w: "w \<in> set ws' - set ws" for w
  proof (cases "w \<in> set ?vs")
    case True
    with w step(1) show ?thesis by auto
  next
    case False
    with w later show ?thesis by auto
  qed
  have removed: "CallDelete (ID w) \<in> set (call # calls)" if w: "w \<in> set ws - set ws'" for w
  proof (cases "w \<in> set ?vs")
    case True
    with w later show ?thesis by auto
  next
    case False
    with w step(2) show ?thesis by auto
  qed
  from added removed count show ?case by blast
qed

text \<open>
  C21. Every change of the stored widgets is accounted for. After any sequence of service calls, with
  whatever failures and lost answers of the database, every new widget has the trimmed name of a
  call that created it, 1 to 120 characters long; there are no more of them than such calls; every
  widget that is missing was named by a call to delete; and the listing is well formed.
\<close>

theorem history_accounts_for_rows:
  assumes "pg_inv s" "ws = pg_rows s" "ws' = pg_rows (run_calls pg_service c calls s)"
  shows "(\<forall>w \<in> set ws' - set ws. \<exists>name. CallCreate name \<in> set calls \<and> Name w = TrimSpace name \<and> proper_name (Name w))
    \<and> card (set ws' - set ws) \<le> creations calls
    \<and> (\<forall>w \<in> set ws - set ws'. CallDelete (ID w) \<in> set calls)
    \<and> newest_first ws' \<and> distinct (map ID ws')"
  using history_steps [OF assms(2,3)] pg_rows_well_formed [OF pg.adapter.run_calls_inv [OF assms(1)]]
  unfolding assms(3) by blast

theorem history_accounts_for_rows_witness:
  "set (pg_rows demo_pg) - set (pg_rows (run_calls pg_service background [CallGet 1, CallDelete 2] demo_pg))
     \<subseteq> {w. ID w = 2}"
  using history_accounts_for_rows [OF demo_inv refl refl, of background "[CallGet 1, CallDelete 2]"] by auto

text \<open>A trimmed name that is not empty holds a character other than a blank.\<close>

lemma trimmed_not_blank:
  assumes "TrimSpace name \<noteq> []"
  shows "widgets_name_not_blank (TrimSpace name)"
proof -
  obtain ch s where cs: "TrimSpace name = ch # s" using assms by (cases "TrimSpace name") auto
  have "starts_clean (ch # s)" using TrimSpace_starts_clean [of name] cs by simp
  then have "ch \<noteq> CHR '' ''" by (auto simp: starts_clean_def decode_rune.simps is_space_def)
  then show ?thesis unfolding cs widgets_name_not_blank_def by auto
qed

text \<open>What an insertion of a storable name does on a database that answers.\<close>

definition fresh_row :: "gostring \<Rightarrow> pg \<Rightarrow> DbWidget" where
  "fresh_row name s =
     \<lparr>row_ID = word_of_int (pg_next s), row_Name = name,
      row_CreatedAt = current_timestamp s, row_UpdatedAt = current_timestamp s\<rparr>"

lemma create_runs:
  assumes "pg_answering s" "TrimSpace name \<noteq> []" "length (runes (TrimSpace name)) \<le> 120"
  shows "service_Create pg_service c name s =
    (if \<not> text_value (TrimSpace name)
     then (Inl (Wrapped ''create widget'' (Wrapped ''insert widget'' (NewError ''invalid byte sequence for encoding UTF8''))), tick s)
     else if max_bigint < pg_next s
     then (Inl (Wrapped ''create widget'' (Wrapped ''insert widget'' (NewError ''reached maximum value of sequence''))), tick s)
     else (Inr (widgetFromDatabase (fresh_row (TrimSpace name) (tick s))),
           (tick s)\<lparr>pg_next := pg_next s + 1, pg_table := fresh_row (TrimSpace name) (tick s) # pg_table s\<rparr>))"
proof -
  have "pg_fault s (pg_tick s) = Answers" using assms(1) by (simp add: pg_answering_def)
  moreover have "widgets_name_length (TrimSpace name)" using assms(3) by (simp add: widgets_name_length_def)
  ultimately show ?thesis
    using assms(2,3) trimmed_not_blank [OF assms(2)]
    by (simp add: service_Create_def Let_def maximumNameLength_def repository_over_def pg_repository_def
        pg_Create_def CreateWidget_def dbgen_New_def pg_db_def pg_QueryRow_def statement_def run_insert_def
        fresh_row_def tick_def)
qed

text \<open>
  C14. Creation against the schema: the service's own rules decide, and they imply the two CHECK
  constraints. A name is refused with the state untouched exactly when trimming leaves nothing or
  more than 120 characters; any other name that PostgreSQL can hold as text is stored trimmed,
  under a new identifier, and the stored widget is returned.
\<close>

theorem create_stores_trimmed_name:
  assumes "pg_inv s" "pg_answering s" "pg_next s \<le> max_bigint" "text_value (TrimSpace name)"
  shows "if TrimSpace name = [] \<or> 120 < length (runes (TrimSpace name))
    then service_Create pg_service c name s = (Inl ErrInvalidName, s)
    else \<exists>w s'. service_Create pg_service c name s = (Inr w, s') \<and> Name w = TrimSpace name
      \<and> ID w \<notin> ID ` set (pg_rows s) \<and> set (pg_rows s') = insert w (set (pg_rows s))
      \<and> zone_offset (CreatedAt w) = 0 \<and> UpdatedAt w = CreatedAt w"
proof (cases "TrimSpace name = [] \<or> 120 < length (runes (TrimSpace name))")
  case True
  then show ?thesis by (auto simp: service_Create_def maximumNameLength_def Let_def)
next
  case False
  let ?w = "widgetFromDatabase (fresh_row (TrimSpace name) (tick s))"
  from False obtain s' where call: "service_Create pg_service c name s = (Inr ?w, s')"
    using create_runs [OF assms(2), of name c] assms(3,4) by (auto simp: not_less)
  from pg.adapter.service_Create_stores [OF assms(1) call] False call show ?thesis
    by (auto simp: widgetFromDatabase_def fresh_row_def)
qed

theorem create_stores_trimmed_name_witness:
  "\<exists>w s'. service_Create pg_service background '' d '' demo_pg = (Inr w, s') \<and> Name w = ''d''"
proof -
  have trim: "TrimSpace '' d '' = ''d''" by code_simp
  have "text_value (TrimSpace '' d '')" unfolding trim
    by (rule text_value_plain) (simp add: plain_char_def)
  moreover have "length (runes ''d'') \<le> 120" by (subst runes_plain) (simp_all add: plain_char_def)
  moreover have "pg_next demo_pg \<le> max_bigint" by (simp add: demo_pg_def max_bigint_def)
  ultimately show ?thesis
    using create_stores_trimmed_name [OF demo_inv demo_answering, of "'' d ''" background] trim
    by auto
qed

text \<open>
  C15. What was created is read back: on a database that answers, reading the identifier a
  successful creation returned gives the same widget, whatever service calls other clients make
  between the two, short of deleting it.
\<close>

theorem read_after_create:
  assumes "pg_inv s" "pg_answering s" "service_Create pg_service c name s = (Inr w, s1)"
    and "CallDelete (ID w) \<notin> set calls"
  shows "\<exists>s2. service_Get pg_service c (ID w) (run_calls pg_service c' calls s1) = (Inr w, s2)"
proof -
  have inv: "pg_inv s1" using assms(1,3) by (rule pg.adapter.service_Create_inv)
  have "pg_later s s1" using run_call_later [of s c "CallCreate name"] assms(3) by simp
  then have answering: "pg_answering (run_calls pg_service c' calls s1)"
    using assms(2) by (intro run_calls_answering) (rule pg_later_answering)
  have "w \<in> set (pg_rows s1)" using pg.adapter.service_Create_stores(3) [OF assms(1,3)] by simp
  then have "w \<in> set (pg_rows (run_calls pg_service c' calls s1))"
    using assms(4) by (rule pg.adapter.run_calls_keeps [OF inv])
  with pg.adapter.run_calls_inv [OF inv] answering show ?thesis by (intro get_stored)
qed

lemma demo_create:
  obtains w s1 where "service_Create pg_service background ''d'' demo_pg = (Inr w, s1)" "ID w = 4" "Name w = ''d''"
proof -
  have trim: "TrimSpace ''d'' = ''d''" by code_simp
  have "text_value ''d''" by (rule text_value_plain) (simp add: plain_char_def)
  moreover have "length (runes ''d'') \<le> 120" by (subst runes_plain) (simp_all add: plain_char_def)
  ultimately have "service_Create pg_service background ''d'' demo_pg =
      (Inr (widgetFromDatabase (fresh_row ''d'' (tick demo_pg))),
       (tick demo_pg)\<lparr>pg_next := pg_next demo_pg + 1, pg_table := fresh_row ''d'' (tick demo_pg) # pg_table demo_pg\<rparr>)"
    using create_runs [OF demo_answering, of "''d''" background, unfolded trim]
    by (simp add: demo_pg_def max_bigint_def)
  then show thesis by (rule that) (simp_all add: widgetFromDatabase_def fresh_row_def tick_def demo_pg_def)
qed

theorem read_after_create_witness:
  "\<exists>w s1 s2. service_Create pg_service background ''d'' demo_pg = (Inr w, s1)
     \<and> service_Get pg_service background (ID w) (run_calls pg_service background [CallDelete 1] s1) = (Inr w, s2)"
proof -
  obtain w s1 where create: "service_Create pg_service background ''d'' demo_pg = (Inr w, s1)" "ID w = 4"
    by (rule demo_create)
  from read_after_create [OF demo_inv demo_answering create(1), of "[CallDelete 1]" background] create
  show ?thesis by auto
qed




section \<open>The wire\<close>

definition demo_decoder :: "CreateWidgetJSONRequestBody JSONDecoder" where
  "demo_decoder = \<lparr>maxRequestBytes = 1048576, dec_validator = create_rules (tag_name ''name'' ''Name'')\<rparr>"

definition demo_handler :: "pg Handler" where
  "demo_handler = \<lparr>h_service = service_over pg_service, h_logger = RequestIDHandler (Sink LevelInfo [] []),
     h_decoder = demo_decoder\<rparr>"

definition demo_request :: request where
  "demo_request = \<lparr>rq_method = ''GET'', rq_path = ''/'', rq_query = [],
     rq_header = (\<lambda>k. if k = ''Content-Type'' then ''application/json'' else []),
     rq_body = (marshal (create_object ''d''), ErrEOF), rq_param = (\<lambda>k. ''2''), rq_ctx = background\<rparr>"

lemma demo_service: "h_service demo_handler = service_over pg_service"
  by (simp add: demo_handler_def)

text \<open>
  C17. The list endpoint implements the service's pages byte for byte: a client that reads the
  items and the next cursor token from each JSON body, and sends the token back in the next
  query, walks through the same pages as one that calls the service directly, whatever happens
  between the requests and however the walk ends.
\<close>

theorem http_walk_refines_service_walk:
  assumes "pg_inv s" "valid_limit lim" "h_service h = service_over pg_service"
  shows "http_pages h base lim None (map (run_calls pg_service c') callss) s
    = on_the_wire (walk_pages pg_service (rq_ctx base) lim None (map (run_calls pg_service c') callss) s)"
  using pg_wire.http_pages_refines [OF assms(1,2) _ assms(3), of None "map (run_calls pg_service c') callss" base]
  by (simp add: wire_cursor_def valid_cursor_def invalid_cursor_def pg.adapter.run_calls_inv)

theorem http_walk_refines_service_walk_witness:
  "http_pages demo_handler demo_request 2 None (map (run_calls pg_service background) [[], [CallDelete 1]]) demo_pg
    = on_the_wire (walk_pages pg_service background 2 None (map (run_calls pg_service background) [[], [CallDelete 1]]) demo_pg)"
  using http_walk_refines_service_walk [OF demo_inv _ demo_service, of 2 demo_request background "[[], [CallDelete 1]]"]
  by (simp add: valid_limit_def demo_request_def)

text \<open>
  C24. The cursor token survives the round trip: decoding an encoded cursor gives the cursor back,
  its time in UTC, for every positive identifier and every instant in the years 0 to 9999, to
  the nanosecond.
\<close>

theorem cursor_token_roundtrip:
  assumes "1 \<le> sint (CursorID c)" "0 \<le> Year (UTC (CursorCreatedAt c))" "Year (UTC (CursorCreatedAt c)) \<le> 9999"
  shows "decodeListCursor (encodeListCursor c) = Inr (Some (c\<lparr>CursorCreatedAt := UTC (CursorCreatedAt c)\<rparr>))"
  using assms by (rule decode_encode_cursor)

theorem cursor_token_roundtrip_witness:
  "decodeListCursor (encodeListCursor \<lparr>CursorCreatedAt = \<lparr>instant = 123456789, zone_offset = 3600\<rparr>, CursorID = 7\<rparr>)
    = Inr (Some \<lparr>CursorCreatedAt = \<lparr>instant = 123456789, zone_offset = 0\<rparr>, CursorID = 7\<rparr>)"
proof -
  have "1 \<le> Year \<lparr>instant = 123456789, zone_offset = 0\<rparr> \<and> Year \<lparr>instant = 123456789, zone_offset = 0\<rparr> \<le> 9999"
    by (rule Year_bounds) (simp_all add: days_before_year_def)
  with cursor_token_roundtrip [of "\<lparr>CursorCreatedAt = \<lparr>instant = 123456789, zone_offset = 3600\<rparr>, CursorID = 7\<rparr>"]
  show ?thesis by (simp add: UTC_def)
qed

text \<open>
  C23. A page request that reaches the service is within its bounds: whatever the query, the page
  size it carries is at least 1, and its cursor, if there is one, names a positive identifier and
  a time in UTC. Everything else is answered with 400 and leaves the state untouched.
\<close>

theorem list_request_bounds:
  assumes "unwritten (wd_resp w)"
  shows "(\<exists>lim cur. listLimit r = Inr lim \<and> decodeListCursor (Query_Get (rq_query r) ''cursor'') = Inr cur
        \<and> 1 \<le> sint lim
        \<and> (\<forall>k. cur = Some k \<longrightarrow> 1 \<le> sint (CursorID k) \<and> zone_offset (CursorCreatedAt k) = 0)
        \<and> wd_state (handler_list h r w) = snd (svc_List (h_service h) (rq_ctx r) \<lparr>Limit = lim, Cursor = cur\<rparr> (wd_state w)))
    \<or> (rs_status (wd_resp (handler_list h r w)) = 400 \<and> wd_state (handler_list h r w) = wd_state w)"
proof (cases "listLimit r")
  case (Inl e)
  then show ?thesis by (simp add: handler_list_response [OF assms] handler_list_state)
next
  case lim: (Inr lim)
  show ?thesis
  proof (cases "decodeListCursor (Query_Get (rq_query r) ''cursor'')")
    case (Inl e)
    with lim show ?thesis by (simp add: handler_list_response [OF assms] handler_list_state)
  next
    case (Inr cur)
    with lim listLimit_accepts [OF lim] decoded_cursor show ?thesis by (auto simp: handler_list_state)
  qed
qed

theorem list_request_bounds_witness:
  "rs_status (wd_resp (handler_list demo_handler (demo_request\<lparr>rq_query := ''limit=0''\<rparr>) (fresh_world demo_pg))) = 400"
proof -
  let ?r = "demo_request\<lparr>rq_query := ''limit=0''\<rparr>"
  have "FormatInt 0 = ''0''" unfolding FormatInt_def by (subst decimal.simps) code_simp
  with ParseInt_FormatInt [of 32 0] have "ParseInt 32 ''0'' = Inr 0" by simp
  moreover have "Query_Get ''limit=0'' ''limit'' = ''0''"
    using Query_values_one [of "''limit''" "''0''"] by (simp add: query_plain_def Query_Get_def)
  ultimately have "\<exists>e. listLimit ?r = Inl e" by (simp add: listLimit_def minimumListLimit_def)
  with list_request_bounds [OF unwritten_fresh(1), of ?r demo_handler demo_pg] show ?thesis by auto
qed

text \<open>What creating does, on any response that nothing was written to.\<close>

lemma create_runs_over_http:
  assumes "pg_inv s" "pg_answering s" "pg_next s \<le> max_bigint"
    and "h_service h = service_over pg_service" "checks_create_tags (h_decoder h)"
    and "create_request r name (maxRequestBytes (h_decoder h))" "valid_utf8 name"
    and "w = handler_create h r x" "trimmed = TrimSpace name"
    and "unwritten (wd_resp x)" "wd_state x = s"
  shows "if name = [] \<or> 120 < length (runes name) \<or> trimmed = []
    then rs_status (wd_resp w) = 422 \<and> wd_state w = s
    else if CHR 0x00 \<in> set trimmed then rs_status (wd_resp w) = 500 \<and> pg_rows (wd_state w) = pg_rows s
    else rs_status (wd_resp w) = 201 \<and> (\<exists>v. rs_body (wd_resp w) = marshal (item_object v) @ newline
      \<and> Name v = trimmed \<and> ID v \<notin> ID ` set (pg_rows s) \<and> set (pg_rows (wd_state w)) = insert v (set (pg_rows s)))"
proof -
  note resp = handler_create_response [OF assms(10), of h r, unfolded assms(11)]
  note state = handler_create_state [of h r x, unfolded assms(11)]
  note decode = Decode_create [OF assms(6,7,5)]
  show ?thesis
  proof (cases "name = [] \<or> 120 < length (runes name)")
    case True
    then show ?thesis
      using resp state decode by (auto simp: assms(8) refusal_response_def)
  next
    case False
    with decode have ok: "Decode (h_decoder h) unmarshal_create r = Inr \<lparr>request_Name = name\<rparr>" by auto
    have short: "length (runes trimmed) \<le> 120" "valid_utf8 trimmed"
      using TrimSpace_valid [OF assms(7)] False by (auto simp: assms(9))
    show ?thesis
    proof (cases "trimmed = []")
      case True
      then show ?thesis
        using resp state ok assms(4,8,9) by (simp add: service_over_def service_Create_def)
    next
      case nonempty: False
      note runs = create_runs [OF assms(2), of name "rq_ctx r", folded assms(9), OF nonempty short(1)]
      show ?thesis
      proof (cases "CHR 0x00 \<in> set trimmed")
        case True
        then have "\<not> text_value trimmed" by (simp add: text_value_def)
        then show ?thesis
          using resp state ok runs assms(4,8) False nonempty True
          by (simp add: service_over_def failure_response_def)
      next
        case nul: False
        then have storable: "text_value trimmed" using short(2) by (simp add: text_value_def)
        let ?v = "widgetFromDatabase (fresh_row trimmed (tick s))"
        obtain s' where call: "service_Create pg_service (rq_ctx r) name s = (Inr ?v, s')"
          using runs storable assms(3) by auto
        note stores = pg.adapter.service_Create_stores [OF assms(1) call]
        have "presentable ?v"
          using pg_presentable [OF pg.adapter.service_Create_inv [OF assms(1) call], of ?v] stores(3) by simp
        then have "payload_response 201 (ApiWidget_json (widgetToResponse ?v)) (wd_resp x)
            = json_response 201 (item_object ?v) (wd_resp x)"
          by (simp add: widget_payload payload_response_def)
        with resp state ok call stores False nonempty nul show ?thesis
          by (auto simp: assms(4,8,9) service_over_def)
      qed
    qed
  qed
qed

text \<open>
  C18. Creating over HTTP, on a database that answers, for every JSON string a client can send
  within the body limit: the response is 422 with nothing stored when the name is empty, longer
  than 120 characters or only white space; otherwise it is 201, the body is the JSON of the
  stored widget, the stored name is the trimmed one and exactly that widget is added. The
  exception is a name with a zero byte: it passes every check of the program, PostgreSQL refuses
  it, and the client is told of an internal error.
\<close>

theorem create_over_http:
  assumes "pg_inv s" "pg_answering s" "pg_next s \<le> max_bigint"
    and "h_service h = service_over pg_service" "checks_create_tags (h_decoder h)"
    and "create_request r name (maxRequestBytes (h_decoder h))" "valid_utf8 name"
    and "w = handler_create h r (fresh_world s)" "trimmed = TrimSpace name"
  shows "if name = [] \<or> 120 < length (runes name) \<or> trimmed = []
    then rs_status (wd_resp w) = 422 \<and> wd_state w = s
    else if CHR 0x00 \<in> set trimmed then rs_status (wd_resp w) = 500 \<and> pg_rows (wd_state w) = pg_rows s
    else rs_status (wd_resp w) = 201 \<and> (\<exists>v. rs_body (wd_resp w) = marshal (item_object v) @ newline
      \<and> Name v = trimmed \<and> ID v \<notin> ID ` set (pg_rows s) \<and> set (pg_rows (wd_state w)) = insert v (set (pg_rows s)))"
  using create_runs_over_http [OF assms unwritten_fresh(1,2)] .

lemma demo_tags: "checks_create_tags (h_decoder demo_handler)"
  by (simp add: demo_handler_def demo_decoder_def checks_create_tags_def)

lemma plain_create_object:
  "list_all plain_char name \<Longrightarrow>
     marshal (create_object name) = CHR 0x7B # CHR 0x22 # ''name'' @ CHR 0x22 # CHR '':'' # CHR 0x22 # name @ [CHR 0x22, CHR 0x7D]"
  by (simp add: create_object_def quoted_plain plain_char_def)

lemma demo_create_request: "create_request demo_request ''d'' (maxRequestBytes (h_decoder demo_handler))"
proof -
  have "isJSONContentType ''application/json''" by code_simp
  moreover have "length (marshal (create_object ''d'')) = 12"
    by (subst plain_create_object) (simp_all add: plain_char_def)
  ultimately show ?thesis
    by (simp add: create_request_def demo_request_def demo_handler_def demo_decoder_def)
qed

theorem create_over_http_witness:
  "rs_status (wd_resp (handler_create demo_handler demo_request (fresh_world demo_pg))) = 201"
proof -
  have trim: "TrimSpace ''d'' = ''d''" by code_simp
  have "valid_utf8 ''d''" by (rule valid_utf8_plain) (simp add: plain_char_def)
  moreover have "length (runes ''d'') \<le> 120" by (subst runes_plain) (simp_all add: plain_char_def)
  moreover have "pg_next demo_pg \<le> max_bigint" by (simp add: demo_pg_def max_bigint_def)
  ultimately show ?thesis
    using create_over_http [OF demo_inv demo_answering _ demo_service demo_tags demo_create_request _ refl refl]
    by (simp add: trim del: valid_utf8.simps runes.simps)
qed

section \<open>Failures\<close>

text \<open>A failing statement on the reference database, seen through the adapter and the service.\<close>

definition fails_with :: "gerror \<Rightarrow> pg \<Rightarrow> bool" where
  "fails_with e s \<longleftrightarrow> pg_fault s (pg_tick s) = Refuses e \<or> pg_fault s (pg_tick s) = LosesAnswer e"

lemma statement_fails: "fails_with e s \<Longrightarrow> \<exists>s'. statement f s = (Inl e, s')"
  by (auto simp: fails_with_def statement_def)

lemma db_fails:
  assumes "fails_with e s"
  shows "\<exists>s'. QueryRow pg_db c sql args s = (Inl e, s')" "\<exists>s'. Query pg_db c sql args s = (Inl e, s')"
    "\<exists>s'. Exec pg_db c sql args s = (Inl e, s')"
  using statement_fails [OF assms] unfolding pg_db_def DBTX.simps pg_QueryRow_def pg_Query_def pg_Exec_def by blast+

lemma service_fails:
  assumes "fails_with e s" "\<not> errors_Is e ErrNoRows"
  shows "service_Create pg_service c name s = (Inl ErrInvalidName, s)
      \<or> (\<exists>s' m m'. service_Create pg_service c name s = (Inl (Wrapped m (Wrapped m' e)), s'))"
    and "service_Get pg_service c i s = (Inl ErrNotFound, s)
      \<or> (\<exists>s' m m'. service_Get pg_service c i s = (Inl (Wrapped m (Wrapped m' e)), s'))"
    and "service_List pg_service c opts s = (Inl ErrInvalidPagination, s)
      \<or> (\<exists>s' m m'. service_List pg_service c opts s = (Inl (Wrapped m (Wrapped m' e)), s'))"
    and "service_Delete pg_service c i s = (Inl ErrNotFound, s)
      \<or> (\<exists>s' m m'. service_Delete pg_service c i s = (Inl (Wrapped m (Wrapped m' e)), s'))"
proof -
  note defs = dbgen_New_def CreateWidget_def GetWidget_def ListWidgets_def ListWidgetsAfter_def DeleteWidget_def
    pg_Create_def pg_Get_def pg_List_def pg_Delete_def service_Create_def service_Get_def service_List_def
    service_Delete_def Let_def
  show "service_Create pg_service c name s = (Inl ErrInvalidName, s)
      \<or> (\<exists>s' m m'. service_Create pg_service c name s = (Inl (Wrapped m (Wrapped m' e)), s'))"
    using db_fails(1) [OF assms(1), of c createWidget "[SqlText (TrimSpace name)]"] by (auto simp: defs)
  show "service_Get pg_service c i s = (Inl ErrNotFound, s)
      \<or> (\<exists>s' m m'. service_Get pg_service c i s = (Inl (Wrapped m (Wrapped m' e)), s'))"
    using db_fails(1) [OF assms(1), of c getWidget "[SqlInt8 i]"] assms(2) by (auto simp: defs)
  show "service_Delete pg_service c i s = (Inl ErrNotFound, s)
      \<or> (\<exists>s' m m'. service_Delete pg_service c i s = (Inl (Wrapped m (Wrapped m' e)), s'))"
    using db_fails(3) [OF assms(1), of c deleteWidget "[SqlInt8 i]"] by (auto simp: defs)
  have "\<exists>s' m. pg_List \<lparr>queries = dbgen_New pg_db\<rparr> c o' s = (Inl (Wrapped m e), s')" for o'
    using db_fails(2) [OF assms(1), of c listWidgets "[SqlInt4 (Limit o')]"]
      db_fails(2) [OF assms(1), of c listWidgetsAfter "[SqlTimestamptz (CursorCreatedAt (the (Cursor o'))),
        SqlInt8 (CursorID (the (Cursor o'))), SqlInt4 (Limit o')]"]
    by (cases "Cursor o'") (auto simp: pg_List_def ListWidgets_def ListWidgetsAfter_def dbgen_New_def)
  note list = this
  define o' where "o' = (if Limit opts = 0 then opts\<lparr>Limit := DefaultListLimit\<rparr> else opts)"
  obtain s' m where "pg_List \<lparr>queries = dbgen_New pg_db\<rparr> c (o'\<lparr>Limit := Limit o' + 1\<rparr>) s = (Inl (Wrapped m e), s')"
    using list by blast
  then show "service_List pg_service c opts s = (Inl ErrInvalidPagination, s)
      \<or> (\<exists>s' m m'. service_List pg_service c opts s = (Inl (Wrapped m (Wrapped m' e)), s'))"
    by (simp add: service_List_def Let_def o'_def [symmetric])
qed

text \<open>
  C19. How a failure of the database reaches the client, through the wrapping of the query layer,
  the adapter and the service, at all four endpoints: a request that ran a statement is answered
  with 504 when the failure is a passed deadline, not at all when the client is gone, and with
  500 otherwise; in the last two cases nothing of the failure shows in the response.
\<close>

theorem database_failure_response:
  assumes "h_service h = service_over pg_service" "unwritten (wd_resp w)"
    and "fails_with e (wd_state w)"
    and "\<forall>t \<in> {ErrNoRows, ErrNotFound, ErrInvalidName, ErrInvalidPagination}. \<not> errors_Is e t"
    and "run_endpoint h ep r w = (out, w')" "wd_state w' \<noteq> wd_state w"
  shows "out = Returned \<and> wd_resp w' =
    (if errors_Is e DeadlineExceeded
     then json_response 504 (error_object ''request_timeout'' ''The request took too long to complete.'') (wd_resp w)
     else if errors_Is e Canceled then wd_resp w
     else json_response 500 (error_object ''internal_error'' ''An internal error occurred.'') (wd_resp w))"
proof -
  have "\<not> errors_Is e ErrNoRows" using assms(4) by simp
  note fails = service_fails [OF assms(3) this]
  note resp = handler_create_response [OF assms(2), of h r] handler_get_response [OF assms(2), of h r]
    handler_list_response [OF assms(2), of h r] handler_delete_response [OF assms(2), of h r]
  note state = handler_create_state [of h r w] handler_get_state [of h r w]
    handler_list_state [of h r w] handler_delete_state [of h r w]
  show ?thesis
  proof (cases ep)
    case EndpointList
    then obtain lim cur where q: "listLimit r = Inr lim" "decodeListCursor (Query_Get (rq_query r) ''cursor'') = Inr cur"
      using assms(5,6) state(3) by (auto split: sum.splits)
    show ?thesis
      using fails(3) [of "rq_ctx r" "\<lparr>Limit = lim, Cursor = cur\<rparr>"] assms(1,4,5,6) EndpointList q state(3) resp(3)
      by (auto simp: service_over_def failure_response_def)
  next
    case EndpointCreate
    then obtain b where q: "Decode (h_decoder h) unmarshal_create r = Inr b"
      using assms(5,6) state(1) by (auto split: sum.splits)
    show ?thesis
      using fails(1) [of "rq_ctx r" "request_Name b"] assms(1,4,5,6) EndpointCreate q state(1) resp(1)
      by (auto simp: service_over_def failure_response_def)
  next
    case EndpointGet
    then obtain i where q: "pathID r = Inr i" using assms(5,6) state(2) by (auto split: sum.splits)
    show ?thesis
      using fails(2) [of "rq_ctx r" i] assms(1,4,5,6) EndpointGet q state(2) resp(2)
      by (auto simp: service_over_def failure_response_def)
  next
    case EndpointDelete
    then obtain i where q: "pathID r = Inr i" using assms(5,6) state(4) by (auto split: sum.splits)
    show ?thesis
      using fails(4) [of "rq_ctx r" i] assms(1,4,5,6) EndpointDelete q state(4) resp(4)
      by (auto simp: service_over_def failure_response_def)
  qed
qed

theorem database_failure_response_witness:
  "rs_status (wd_resp (handler_get demo_handler demo_request
     (fresh_world (demo_pg\<lparr>pg_fault := (\<lambda>_. Refuses (Wrapped ''timeout'' DeadlineExceeded))\<rparr>)))) = 504"
proof -
  let ?e = "Wrapped ''timeout'' DeadlineExceeded"
  let ?s = "demo_pg\<lparr>pg_fault := (\<lambda>_. Refuses ?e)\<rparr>"
  let ?w' = "handler_get demo_handler demo_request (fresh_world ?s)"
  have "FormatInt 2 = ''2''" unfolding FormatInt_def by (subst decimal.simps) code_simp
  with ParseInt_FormatInt [of 64 2] have "ParseInt 64 ''2'' = Inr 2" by simp
  then have path: "pathID demo_request = Inr 2" by (simp add: pathID_def demo_request_def)
  have "wd_state ?w' = tick ?s"
    using path by (simp add: handler_get_state demo_service service_over_def service_Get_def pg_Get_def
        GetWidget_def dbgen_New_def pg_db_def pg_QueryRow_def statement_def)
  then have "pg_tick (wd_state ?w') \<noteq> pg_tick (wd_state (fresh_world ?s))" by (simp add: tick_def)
  then have changed: "wd_state ?w' \<noteq> wd_state (fresh_world ?s)" by metis
  have fails: "fails_with ?e (wd_state (fresh_world ?s))" by (simp add: fails_with_def)
  from database_failure_response [OF demo_service unwritten_fresh(1) fails _ _ changed, of EndpointGet demo_request]
  show ?thesis by simp
qed

section \<open>Bodies beyond the limit\<close>

lemma store_fields_error:
  "store_fields b saved kvs = Inl e \<Longrightarrow> pred_option (\<lambda>e. \<exists>m. e = NewError m) saved \<Longrightarrow> \<exists>m. e = NewError m"
  by (induction b saved kvs rule: store_fields.induct) (auto simp: save_error_def split: json.splits if_splits option.splits)

lemma unmarshal_create_error: "unmarshal_create j = Inl e \<Longrightarrow> \<exists>m. e = NewError m"
  by (auto simp: unmarshal_create_def split: json.splits dest: store_fields_error)

text \<open>How the decoder refuses a longer body.\<close>

lemma Decode_oversize_error:
  assumes "isJSONContentType (rq_header r ''Content-Type'')" "sint (maxRequestBytes d) < int (length (fst (rq_body r)))"
    and "scanned = read_value BeginValue [] (take (nat (sint (maxRequestBytes d))) (fst (rq_body r))) MaxBytesError"
  shows "\<exists>err m. Decode d unmarshal_create r = Inl err
    \<and> (if scanned = Inl MaxBytesError then err = Wrapped ''decode JSON body'' MaxBytesError
       else err = Wrapped ''decode JSON body'' (NewError m) \<or> err = NewError m)"
proof -
  have limited: "MaxBytesReader (maxRequestBytes d) (rq_body r)
      = (take (nat (sint (maxRequestBytes d))) (fst (rq_body r)), MaxBytesError)"
    using assms(2) by (simp add: MaxBytesReader_def)
  have refused: "(case read_value BeginValue [] s MaxBytesError of Inl err \<Rightarrow> \<not> errors_Is err ErrEOF | Inr _ \<Rightarrow> True)" for s
    using read_value_error [of BeginValue "[]" s MaxBytesError]
    by (cases "read_value BeginValue [] s MaxBytesError") auto
  show ?thesis
  proof (cases scanned)
    case (Inl e)
    then have "e = MaxBytesError \<or> e = err_json_syntax"
      using read_value_error [of BeginValue "[]" _ MaxBytesError e] assms(3) by auto
    with Inl assms(1,3) show ?thesis by (auto simp: Decode_def limited)
  next
    case (Inr v)
    obtain j rest where "v = (j, rest)" by fastforce
    with Inr assms(1,3) unmarshal_create_error [of j] show ?thesis
      by (cases "unmarshal_create j") (auto simp: Decode_def limited refused)
  qed
qed

text \<open>
  C38. A request to create a widget whose body is longer than the limit stores nothing and is refused,
  with 413 when the first JSON value is still open at the limit. When the value is complete or
  already wrong before it, the answer is 400, as for any other body with something behind its value:
  the size is not what the client is told.
\<close>

theorem oversize_body_response:
  assumes "isJSONContentType (rq_header r ''Content-Type'')" "limit = sint (maxRequestBytes (h_decoder h))"
    and "limit < int (length (fst (rq_body r)))" "unwritten (wd_resp w)"
  shows "wd_state (handler_create h r w) = wd_state w
    \<and> rs_status (wd_resp (handler_create h r w)) =
      (if read_value BeginValue [] (take (nat limit) (fst (rq_body r))) MaxBytesError = Inl MaxBytesError then 413 else 400)"
proof -
  let ?cut = "read_value BeginValue [] (take (nat limit) (fst (rq_body r))) MaxBytesError"
  obtain err m where err: "Decode (h_decoder h) unmarshal_create r = Inl err"
    and kind: "if ?cut = Inl MaxBytesError then err = Wrapped ''decode JSON body'' MaxBytesError
      else err = Wrapped ''decode JSON body'' (NewError m) \<or> err = NewError m"
    using Decode_oversize_error [OF assms(1) assms(3) [unfolded assms(2)] refl] unfolding assms(2) by blast
  have "rs_status (refusal_response err (wd_resp w)) = (if ?cut = Inl MaxBytesError then 413 else 400)"
    using kind by (auto simp: refusal_response_def split: if_splits)
  then show ?thesis by (simp add: handler_create_state handler_create_response [OF assms(4)] err)
qed

text \<open>A complete value with white space up to beyond the limit.\<close>

definition oversize_request :: request where
  "oversize_request = demo_request\<lparr>rq_body := (''{}'' @ replicate 99 (CHR '' ''), ErrEOF)\<rparr>"

theorem oversize_body_response_witness:
  "rs_status (wd_resp (handler_create (demo_handler\<lparr>h_decoder := demo_decoder\<lparr>maxRequestBytes := 2\<rparr>\<rparr>) oversize_request
     (fresh_world demo_pg))) = 400"
proof -
  have json: "isJSONContentType (rq_header oversize_request ''Content-Type'')"
    using demo_create_request by (simp add: create_request_def oversize_request_def)
  have "read_value BeginValue [] ''{}'' MaxBytesError = Inr (JObj [], [])"
    by (simp add: begin_value_def open_container_def json_space_def max_depth_def end_value_def close_container_def)
  with oversize_body_response [where h = "demo_handler\<lparr>h_decoder := demo_decoder\<lparr>maxRequestBytes := 2\<rparr>\<rparr>", OF json refl _
      unwritten_fresh(1) [of demo_pg]]
  show ?thesis by (simp add: oversize_request_def)
qed

end
