(* ===== verification/Http_Middleware.thy ===== *)
theory Http_Middleware
  imports Httpkit Http_Log
begin

text \<open>
  The middleware of \<open>internal/httpapi\<close> (\<open>requestid.go\<close>, \<open>middleware.go\<close>): correlation IDs,
  security headers, the request log, the panic guard and the request deadline. A middleware turns
  a handler into one that calls it, or not, within its own effects; a deferred function is the
  part that runs whatever the outcome of the call.
\<close>

type_synonym 's middleware = "'s handler \<Rightarrow> 's handler"

section \<open>Correlation IDs\<close>

definition requestIDHeader :: gostring where
  "requestIDHeader = ''X-Request-ID''"

definition maximumRequestIDLength :: nat where
  "maximumRequestIDLength = 64"

definition generatedRequestIDBytes :: nat where
  "generatedRequestIDBytes = 16"

definition id_character :: "char \<Rightarrow> bool" where
  "id_character c \<longleftrightarrow>
     byte_of CHR ''a'' \<le> byte_of c \<and> byte_of c \<le> byte_of CHR ''z''
     \<or> byte_of CHR ''A'' \<le> byte_of c \<and> byte_of c \<le> byte_of CHR ''Z''
     \<or> byte_of CHR ''0'' \<le> byte_of c \<and> byte_of c \<le> byte_of CHR ''9''
     \<or> c = CHR ''-'' \<or> c = CHR ''_'' \<or> c = CHR ''.''"

fun all_id_characters :: "gostring \<Rightarrow> bool" where
  "all_id_characters [] = True"
| "all_id_characters (c # s) = (if id_character c then all_id_characters s else False)"

definition acceptableRequestID :: "gostring \<Rightarrow> gostring" where
  "acceptableRequestID v =
     (if v = [] \<or> maximumRequestIDLength < length v then []
      else if all_id_characters v then v else [])"

definition hex_digit :: "nat \<Rightarrow> char" where
  "hex_digit n = ''0123456789abcdef'' ! n"

definition hex_EncodeToString :: "gostring \<Rightarrow> gostring" where
  "hex_EncodeToString s = concat (map (\<lambda>c. [hex_digit (byte_of c div 16), hex_digit (byte_of c mod 16)]) s)"

definition generateRequestID :: "'s world \<Rightarrow> gostring \<times> 's world" where
  "generateRequestID w =
     (case rand_Read generatedRequestIDBytes w of (buffer, w) \<Rightarrow> (hex_EncodeToString buffer, w))"

definition requestID :: "'s middleware" where
  "requestID next_handler r w =
     (let i = acceptableRequestID (rq_header r requestIDHeader);
          (i, w) = (if i = [] then generateRequestID w else (i, w));
          w = update_resp (Header_Set requestIDHeader i) w
      in next_handler (r\<lparr>rq_ctx := (rq_ctx r)\<lparr>ctx_request_id := i\<rparr>\<rparr>) w)"

section \<open>Security headers\<close>

abbreviation none_keyword :: gostring where
  "none_keyword \<equiv> [CHR 0x27] @ ''none'' @ [CHR 0x27]"

definition contentSecurityPolicy :: gostring where
  "contentSecurityPolicy = ''default-src '' @ none_keyword @ ''; frame-ancestors '' @ none_keyword"

definition securityHeaders :: "'s middleware" where
  "securityHeaders next_handler r w =
     next_handler r
       (update_resp (Header_Set ''Referrer-Policy'' ''no-referrer'')
       (update_resp (Header_Set ''X-Frame-Options'' ''DENY'')
       (update_resp (Header_Set ''X-Content-Type-Options'' ''nosniff'')
       (update_resp (Header_Set ''Content-Security-Policy'' contentSecurityPolicy) w))))"

section \<open>The request log\<close>

definition clientClosedRequestStatus :: nat where
  "clientClosedRequestStatus = 499"

definition recordedStatus :: "gerror option \<Rightarrow> nat \<Rightarrow> nat" where
  "recordedStatus ctx_error status =
     (if status \<noteq> 0 then status
      else if (case ctx_error of Some e \<Rightarrow> errors_Is e Canceled | None \<Rightarrow> False) then clientClosedRequestStatus
      else 200)"

text \<open>
  The recorder wraps the response writer for the inner handlers. It counts the status and the
  bytes written through it.
\<close>

definition record_resp :: "bool \<Rightarrow> response \<Rightarrow> response" where
  "record_resp b r = r\<lparr>rs_recorder := b\<rparr>"

definition logRequest :: "slog_handler \<Rightarrow> 's middleware" where
  "logRequest logger next_handler r w =
     (let startedAt = wd_now w;
          written = length (rs_body (wd_resp w));
          outer = rs_recorder (wd_resp w);
          (out, w') = next_handler r (update_resp (record_resp True) w);
          w'' = log_context logger LevelInfo (rq_ctx r) ''HTTP request completed''
            [(''clientIP'', AttrString (ctx_client_ip (rq_ctx r))),
             (''method'', AttrString (rq_method r)),
             (''path'', AttrString (rq_path r)),
             (''status'', AttrInt (int (recordedStatus (ctx_Err (rq_ctx r) w')
                (if rs_status (wd_resp w) = 0 then rs_status (wd_resp w') else 0)))),
             (''bytes'', AttrInt (int (length (rs_body (wd_resp w')) - written))),
             (''duration'', AttrDuration (wd_now w' - startedAt))] w'
      in (out, update_resp (record_resp outer) w''))"

section \<open>Deadlines and panics\<close>

definition requestTimeout :: "int \<Rightarrow> 's middleware" where
  "requestTimeout timeout next_handler r w =
     next_handler (r\<lparr>rq_ctx := WithTimeout (wd_now w) timeout (rq_ctx r)\<rparr>) w"

definition aborts :: "panic_value \<Rightarrow> bool" where
  "aborts v = (case v of PanicError e \<Rightarrow> errors_Is e ErrAbortHandler | PanicValue s \<Rightarrow> False)"

definition recoverPanic :: "slog_handler \<Rightarrow> 's middleware" where
  "recoverPanic logger next_handler r w =
     (case next_handler r w of
        (Returned, w) \<Rightarrow> (Returned, w)
      | (Panicked v, w) \<Rightarrow>
          if aborts v then (Panicked v, w)
          else let w = log_context logger LevelError (rq_ctx r) ''HTTP handler panicked''
                    [(''stack'', AttrStack)] w
               in (Returned,
                   if \<not> rs_recorder (wd_resp w) \<or> rs_status (wd_resp w) = 0
                   then update_resp (WriteError 500 ''internal_error'' ''An internal error occurred.'') w
                   else w))"

section \<open>Identifiers are safe to log and to send\<close>

definition safe_id :: "gostring \<Rightarrow> bool" where
  "safe_id s \<longleftrightarrow> s \<noteq> [] \<and> length s \<le> maximumRequestIDLength \<and> list_all id_character s"

lemma all_id_characters_iff: "all_id_characters s \<longleftrightarrow> list_all id_character s"
  by (induction s) auto

lemma acceptable_iff: "acceptableRequestID v = (if safe_id v then v else [])"
  by (auto simp: acceptableRequestID_def safe_id_def all_id_characters_iff)

lemma hex_digit_char: "n < 16 \<Longrightarrow> id_character (hex_digit n)"
proof -
  assume "n < 16"
  moreover have "list_all id_character ''0123456789abcdef''" by (simp add: id_character_def)
  ultimately show ?thesis unfolding hex_digit_def list_all_length by (auto simp del: nth_Cons_numeral)
qed

lemma length_hex [simp]: "length (hex_EncodeToString s) = 2 * length s"
  by (induction s) (simp_all add: hex_EncodeToString_def)

lemma hex_characters: "list_all id_character (hex_EncodeToString s)"
  by (auto simp: hex_EncodeToString_def list_all_iff hex_digit_char byte_of_less less_mult_imp_div_less)

lemma generated_safe: "safe_id (fst (generateRequestID w))"
proof -
  have "length (fst (generateRequestID w)) = 32"
    by (simp add: generateRequestID_def rand_Read_def generatedRequestIDBytes_def)
  moreover have "list_all id_character (fst (generateRequestID w))"
    by (simp add: generateRequestID_def hex_characters split: prod.split)
  ultimately show ?thesis by (auto simp: safe_id_def maximumRequestIDLength_def)
qed

lemma hex_digit_inject: "m < 16 \<Longrightarrow> n < 16 \<Longrightarrow> hex_digit m = hex_digit n \<longleftrightarrow> m = n"
  unfolding hex_digit_def by (subst nth_eq_iff_index_eq) simp_all

lemma hex_inject: "hex_EncodeToString s = hex_EncodeToString t \<longleftrightarrow> s = t"
proof (induction s arbitrary: t)
  case Nil
  then show ?case by (cases t) (simp_all add: hex_EncodeToString_def)
next
  case (Cons c s)
  show ?case
  proof (cases t)
    case Nil
    then show ?thesis by (simp add: hex_EncodeToString_def)
  next
    case (Cons d t')
    have "byte_of c div 16 = byte_of d div 16 \<and> byte_of c mod 16 = byte_of d mod 16 \<longleftrightarrow> c = d"
      by (metis div_mult_mod_eq of_char_eq_iff)
    then show ?thesis
      using Cons.IH [of t'] Cons
      by (auto simp: hex_EncodeToString_def hex_digit_inject byte_of_less less_mult_imp_div_less)
  qed
qed

text \<open>
  What \<open>requestID\<close> does: it picks one safe identifier, the client's own when that is safe, sets
  the header and gives the handler the identifier in its context.
\<close>

definition chosen_id :: "request \<Rightarrow> 's world \<Rightarrow> gostring" where
  "chosen_id r w =
     (if safe_id (rq_header r requestIDHeader) then rq_header r requestIDHeader else fst (generateRequestID w))"

lemma chosen_safe: "safe_id (chosen_id r w)"
  by (simp add: chosen_id_def generated_safe)

lemma generateRequestID_world:
  "wd_resp (snd (generateRequestID w)) = wd_resp w" "wd_state (snd (generateRequestID w)) = wd_state w"
  "wd_log (snd (generateRequestID w)) = wd_log w" "wd_now (snd (generateRequestID w)) = wd_now w"
  "wd_gone (snd (generateRequestID w)) = wd_gone w"
  by (simp_all add: generateRequestID_def rand_Read_def)

lemma requestID_runs:
  obtains w1 where "wd_resp w1 = Header_Set requestIDHeader (chosen_id r w) (wd_resp w)"
    "wd_state w1 = wd_state w" "wd_log w1 = wd_log w" "wd_now w1 = wd_now w" "wd_gone w1 = wd_gone w"
    "requestID h r w = h (r\<lparr>rq_ctx := (rq_ctx r)\<lparr>ctx_request_id := chosen_id r w\<rparr>\<rparr>) w1"
proof -
  have ne: "safe_id v \<Longrightarrow> v \<noteq> []" for v by (simp add: safe_id_def)
  show thesis
    by (rule that [of "update_resp (Header_Set requestIDHeader (chosen_id r w))
        (if safe_id (rq_header r requestIDHeader) then w else snd (generateRequestID w))"])
      (auto simp: requestID_def acceptable_iff chosen_id_def Let_def generateRequestID_world ne
        split: prod.split)
qed

section \<open>What a handler may do to a response\<close>

text \<open>
  From \<open>r\<close> to \<open>r'\<close> only what a well-behaved handler does: a status that is written stays, with the
  headers it was sent with; the body only grows; the headers of \<open>K\<close> are not touched, and a status
  written meanwhile carries them.
\<close>

definition leaves :: "gostring set \<Rightarrow> response \<Rightarrow> response \<Rightarrow> bool" where
  "leaves K r r' \<longleftrightarrow>
     (rs_status r \<noteq> 0 \<longrightarrow> rs_status r' = rs_status r \<and> rs_sent r' = rs_sent r)
     \<and> (\<exists>b. rs_body r' = rs_body r @ b) \<and> rs_recorder r' = rs_recorder r
     \<and> (\<forall>k \<in> K. rs_header r' k = rs_header r k
          \<and> (rs_status r = 0 \<longrightarrow> rs_status r' \<noteq> 0 \<longrightarrow> rs_sent r' k = rs_header r k))"

named_theorems leaving \<open>steps that leave the response well behaved\<close>

lemma leaves_refl [leaving]: "leaves K r r"
  by (simp add: leaves_def)

lemma leaves_trans: "leaves K r r' \<Longrightarrow> leaves K r' r'' \<Longrightarrow> leaves K r r''"
  by (cases "rs_status r' = 0") (auto simp: leaves_def)

lemma leaves_subset: "leaves K r r' \<Longrightarrow> J \<subseteq> K \<Longrightarrow> leaves J r r'"
  by (auto simp: leaves_def)

lemma leaves_Header_Set [leaving]: "k \<notin> K \<Longrightarrow> leaves K r (Header_Set k v r)"
  by (auto simp: leaves_def)

lemma leaves_WriteHeader [leaving]: "leaves K r (WriteHeader n r)"
  by (simp add: leaves_def)

lemma leaves_Write [leaving]: "leaves K r (snd (Write b r))"
  by (auto simp: leaves_def Write_def Let_def WriteHeader_def split: option.splits)

lemma leaves_writeJSONBytes [leaving]:
  assumes "''Content-Type'' \<notin> K"
  shows "leaves K r (snd (writeJSONBytes status b r))"
proof -
  let ?r = "WriteHeader status (Header_Set ''Content-Type'' ''application/json; charset=utf-8'' r)"
  have "leaves K r ?r" using assms by (meson leaves_trans leaves_Header_Set leaves_WriteHeader)
  moreover have "snd (writeJSONBytes status b r) = snd (Write b ?r)"
    by (auto simp: writeJSONBytes_def Let_def split: prod.split option.split)
  ultimately show ?thesis using leaves_trans [OF _ leaves_Write, of K r ?r] by simp
qed

lemma leaves_WriteJSON [leaving]:
  assumes "''Content-Type'' \<notin> K"
  shows "leaves K r (snd (WriteJSON status p r))"
  using leaves_writeJSONBytes [OF assms]
  by (simp add: WriteJSON_def leaves_WriteHeader split_beta split: option.split sum.split)

lemma leaves_WriteErrorDetails [leaving]:
  "''Content-Type'' \<notin> K \<Longrightarrow> leaves K r (WriteErrorDetails status code message details r)"
  by (simp add: WriteErrorDetails_def leaves_WriteJSON)

lemma leaves_WriteError [leaving]: "''Content-Type'' \<notin> K \<Longrightarrow> leaves K r (WriteError status code message r)"
  by (simp add: WriteError_def leaves_WriteErrorDetails)

lemma leaves_WriteContextError [leaving]:
  "''Content-Type'' \<notin> K \<Longrightarrow> leaves K r (snd (WriteContextError e r))"
  by (simp add: WriteContextError_def leaves_WriteError leaves_refl)

text \<open>
  The request log: one record when the handler is done, whatever its outcome, behind those of the
  handler, with the status the client is sent.
\<close>

definition completion :: "request \<Rightarrow> 's world \<Rightarrow> 's world \<Rightarrow> log_record" where
  "completion r w w' =
     \<lparr>lr_level = LevelInfo, lr_message = ''HTTP request completed'', lr_attrs =
       [([''clientIP''], AttrString (ctx_client_ip (rq_ctx r))), ([''method''], AttrString (rq_method r)),
        ([''path''], AttrString (rq_path r)),
        ([''status''], AttrInt (int (recordedStatus (ctx_Err (rq_ctx r) w') (rs_status (wd_resp w'))))),
        ([''bytes''], AttrInt (int (length (rs_body (wd_resp w'))))),
        ([''duration''], AttrDuration (wd_now w' - wd_now w))]\<rparr>"

lemma ctx_Err_simps [simp]:
  "ctx_Err c (update_resp f w) = ctx_Err c w"
  "ctx_Err c (log_context logger lv c' msg attrs w) = ctx_Err c w"
  by (simp_all add: ctx_Err_def cong: option.case_cong)

lemma record_resp_simps [simp]:
  "rs_status (record_resp b x) = rs_status x" "rs_body (record_resp b x) = rs_body x"
  "rs_sent (record_resp b x) = rs_sent x" "rs_header (record_resp b x) = rs_header x"
  "rs_broken (record_resp b x) = rs_broken x" "rs_recorder (record_resp b x) = b"
  by (simp_all add: record_resp_def)

section \<open>The contract of a handler\<close>

text \<open>
  What the middleware relies on in the handlers it wraps, and what each middleware gives when they
  keep it: they leave the headers of \<open>K\<close> alone and only add to the log.
\<close>

definition behaves :: "gostring set \<Rightarrow> 's handler \<Rightarrow> bool" where
  "behaves K h \<longleftrightarrow> (\<forall>r w. leaves K (wd_resp w) (wd_resp (snd (h r w))) \<and> (\<exists>l. wd_log (snd (h r w)) = wd_log w @ l))"

locale well_behaved =
  fixes h :: "'s handler" and K :: "gostring set"
  assumes behaved: "behaves K h"
begin

lemma response: "leaves K (wd_resp w) (wd_resp (snd (h r w)))"
  using behaved by (simp add: behaves_def)

lemma logs: "\<exists>l. wd_log (snd (h r w)) = wd_log w @ l"
  using behaved by (simp add: behaves_def)

lemma keeps_status: "rs_status (wd_resp w) \<noteq> 0 \<Longrightarrow> rs_status (wd_resp (snd (h r w))) = rs_status (wd_resp w)"
  using response [of w r] by (simp add: leaves_def)

lemma grows_body: "\<exists>b. rs_body (wd_resp (snd (h r w))) = rs_body (wd_resp w) @ b"
  using response [of w r] by (simp add: leaves_def)

lemma keeps_recorder: "rs_recorder (wd_resp (snd (h r w))) = rs_recorder (wd_resp w)"
  using response [of w r] by (simp add: leaves_def)

text \<open>A header set before the handler runs goes out with the response.\<close>

lemma header_sent:
  assumes "k \<in> K" "rs_status (wd_resp w) = 0" "rs_header (wd_resp w) k = Some v"
  shows "rs_header (wd_resp (snd (h r w))) k = Some v"
    and "rs_status (wd_resp (snd (h r w))) \<noteq> 0 \<Longrightarrow> rs_sent (wd_resp (snd (h r w))) k = Some v"
  using assms response [of w r] by (auto simp: leaves_def)

lemma deadline_behaves: "behaves K (requestTimeout t h)"
  by (simp add: behaves_def requestTimeout_def response logs)

text \<open>The panic guard: every panic but an abort ends in a response.\<close>

lemma guard_behaves:
  assumes "''Content-Type'' \<notin> K"
  shows "behaves K (recoverPanic logger h)"
  unfolding behaves_def
proof (intro allI)
  fix r and w :: "'s world"
  obtain out w' where run: "h r w = (out, w')" by fastforce
  have l: "leaves K (wd_resp w) (wd_resp w')" and g: "\<exists>l. wd_log w' = wd_log w @ l"
    using response [of w r] logs [of r w] run by simp_all
  show "leaves K (wd_resp w) (wd_resp (snd (recoverPanic logger h r w)))
      \<and> (\<exists>l. wd_log (snd (recoverPanic logger h r w)) = wd_log w @ l)"
    using l g leaves_trans [OF l leaves_WriteError [OF assms]]
    by (auto simp: recoverPanic_def run Let_def log_context_def split: outcome.split)
qed

lemma guard_outcome: "fst (recoverPanic logger h r w) = Panicked v \<Longrightarrow> aborts v"
  by (auto simp: recoverPanic_def Let_def split: prod.splits outcome.splits if_splits)

lemma guard_contains:
  assumes "h r w = (Panicked v, w')" "\<not> aborts v" "rs_status (wd_resp w') = 0" "rs_broken (wd_resp w') = None"
    "rs_body (wd_resp w') = []"
  shows "recoverPanic logger h r w = (Returned, update_resp
      (json_response 500 (error_object ''internal_error'' ''An internal error occurred.''))
      (log_context logger LevelError (rq_ctx r) ''HTTP handler panicked'' [(''stack'', AttrStack)] w'))"
  using assms by (simp add: recoverPanic_def Let_def update_resp_def WriteError_unwritten unwritten_def)

lemma logged:
  assumes "unwritten (wd_resp w)" "logRequest logger h r w = (out, w'')"
  obtains w' l where "h r (update_resp (record_resp True) w) = (out, w')" "wd_log w' = wd_log w @ l"
    "wd_resp w'' = record_resp (rs_recorder (wd_resp w)) (wd_resp w')"
    "wd_log w'' = wd_log w @ l @ (if enabled logger LevelInfo then Handle logger (rq_ctx r) (completion r w w'') else [])"
proof -
  let ?w = "update_resp (record_resp True) w"
  obtain out' w' where run: "h r ?w = (out', w')" by fastforce
  obtain l where "wd_log w' = wd_log w @ l" using logs [of r ?w] run by auto
  moreover have "wd_resp w'' = record_resp (rs_recorder (wd_resp w)) (wd_resp w')" "out' = out"
    using assms(2) run by (auto simp: logRequest_def Let_def)
  moreover have "wd_log w'' = wd_log w' @ (if enabled logger LevelInfo then Handle logger (rq_ctx r) (completion r w w'') else [])"
    using assms run by (auto simp: logRequest_def Let_def completion_def unwritten_def) (simp_all add: log_context_def)
  ultimately show thesis using run that by auto
qed

lemma log_behaves: "behaves K (logRequest logger h)"
  unfolding behaves_def
proof (intro allI)
  fix r and w :: "'s world"
  let ?w = "update_resp (record_resp True) w"
  obtain out w' where run: "h r ?w = (out, w')" by fastforce
  have l: "leaves K (record_resp True (wd_resp w)) (wd_resp w')" and g: "\<exists>l. wd_log w' = wd_log w @ l"
    using response [of ?w r] logs [of r ?w] run by simp_all
  from l have "leaves K (wd_resp w) (record_resp (rs_recorder (wd_resp w)) (wd_resp w'))"
    by (auto simp: leaves_def record_resp_def)
  with g show "leaves K (wd_resp w) (wd_resp (snd (logRequest logger h r w)))
      \<and> (\<exists>l. wd_log (snd (logRequest logger h r w)) = wd_log w @ l)"
    by (auto simp: logRequest_def run Let_def log_context_def)
qed

end

end
