(* ===== verification/Go_Duration.thy ===== *)
theory Go_Duration
  imports Go_Strconv
begin

text \<open>
  \<open>time.Duration\<close> and \<open>time.ParseDuration\<close>: a signed sequence of decimal numbers with units. The
  fraction of a number is computed in double precision, as the library does.
\<close>

text \<open>In nanoseconds.\<close>

type_synonym duration = int64

section \<open>Doubles\<close>

fun bits :: "nat \<Rightarrow> nat" where
  "bits n = (if n = 0 then 0 else Suc (bits (n div 2)))"

declare bits.simps [simp del]

definition round_even :: "nat \<Rightarrow> nat \<Rightarrow> nat" where
  "round_even n d =
     (let q = n div d; r = n mod d in
      if 2 * r < d \<or> (2 * r = d \<and> even q) then q else q + 1)"

text \<open>
  The double nearest to \<open>n / d\<close>, as a fraction: 53 significant bits, ties to even. The numbers
  that occur are far from the ends of the exponent range.
\<close>

definition nearest_double :: "nat \<Rightarrow> nat \<Rightarrow> nat \<times> nat" where
  "nearest_double n d =
     (if n = 0 then (0, 1)
      else let k = bits n; l = bits d; num = n * 2 ^ (53 + l); den = d * 2 ^ k in
        if num < 2 ^ 53 * den then (round_even num den * 2 ^ k, 2 ^ (53 + l))
        else (round_even num (2 * den) * 2 ^ (k + 1), 2 ^ (53 + l)))"

text \<open>\<open>uint64(float64(f) * (float64(unit) / scale))\<close>\<close>

definition fraction_of :: "nat \<Rightarrow> nat \<Rightarrow> nat \<Rightarrow> nat" where
  "fraction_of f unit scale =
     (let (a, b) = nearest_double f 1; (c, d) = nearest_double unit scale;
          (p, q) = nearest_double (a * c) (b * d)
      in p div q)"

section \<open>Parsing\<close>

definition int_overflow :: nat where
  "int_overflow = 2 ^ 63"

text \<open>The leading integer, refused when it overflows, and the rest.\<close>

fun leadingInt :: "nat \<Rightarrow> gostring \<Rightarrow> (nat \<times> gostring) option" where
  "leadingInt x [] = Some (x, [])"
| "leadingInt x (c # s) =
     (if \<not> is_digit c then Some (x, c # s)
      else if int_overflow div 10 < x then None
      else let y = x * 10 + digit_value c in
        if int_overflow < y then None else leadingInt y s)"

text \<open>The leading fraction with its scale; digits beyond the precision are dropped.\<close>

fun leadingFraction :: "nat \<Rightarrow> nat \<Rightarrow> bool \<Rightarrow> gostring \<Rightarrow> nat \<times> nat \<times> gostring" where
  "leadingFraction x scale overflow [] = (x, scale, [])"
| "leadingFraction x scale overflow (c # s) =
     (if \<not> is_digit c then (x, scale, c # s)
      else if overflow \<or> (int_overflow - 1) div 10 < x then leadingFraction x scale True s
      else let y = x * 10 + digit_value c in
        if int_overflow < y then leadingFraction x scale True s
        else leadingFraction y (scale * 10) False s)"

definition unitMap :: "gostring \<Rightarrow> nat option" where
  "unitMap u =
     (if u = ''ns'' then Some 1
      else if u = ''us'' \<or> u = [CHR 0xC2, CHR 0xB5, CHR ''s''] \<or> u = [CHR 0xCE, CHR 0xBC, CHR ''s''] then Some 1000
      else if u = ''ms'' then Some 1000000
      else if u = ''s'' then Some 1000000000
      else if u = ''m'' then Some 60000000000
      else if u = ''h'' then Some 3600000000000
      else None)"

definition unit_char :: "char \<Rightarrow> bool" where
  "unit_char c \<longleftrightarrow> c \<noteq> CHR ''.'' \<and> \<not> is_digit c"

text \<open>One number with its unit.\<close>

definition duration_term :: "gostring \<Rightarrow> (nat \<times> gostring) option" where
  "duration_term s =
     (if s = [] \<or> (hd s \<noteq> CHR ''.'' \<and> \<not> is_digit (hd s)) then None
      else case leadingInt 0 s of
        None \<Rightarrow> None
      | Some (v, s1) \<Rightarrow>
          (let pre = length s \<noteq> length s1;
               (f, scale, s2, post) =
                 (if s1 \<noteq> [] \<and> hd s1 = CHR ''.''
                  then (case leadingFraction 0 1 False (tl s1) of
                          (f, scale, s2) \<Rightarrow> (f, scale, s2, length (tl s1) \<noteq> length s2))
                  else (0, 1, s1, False))
           in if \<not> pre \<and> \<not> post then None
              else case unitMap (takeWhile unit_char s2) of
                None \<Rightarrow> None
              | Some unit \<Rightarrow>
                  if int_overflow div unit < v then None
                  else let v = v * unit + (if 0 < f then fraction_of f unit scale else 0) in
                    if int_overflow < v then None else Some (v, dropWhile unit_char s2)))"

lemma leadingInt_length: "leadingInt x s = Some (v, rest) \<Longrightarrow> length rest \<le> length s"
  by (induction x s rule: leadingInt.induct) (auto simp: Let_def split: if_splits)

lemma leadingFraction_length:
  "leadingFraction x scale ov s = (f, scale', rest) \<Longrightarrow> length rest \<le> length s"
  by (induction x scale ov s rule: leadingFraction.induct) (auto simp: Let_def split: if_splits)

lemma unit_consumes:
  "unitMap (takeWhile unit_char s) = Some unit \<Longrightarrow> length (dropWhile unit_char s) < length s"
  by (cases s) (auto simp: unitMap_def length_dropWhile_le less_Suc_eq_le split: if_splits)

lemma duration_term_shorter:
  assumes "duration_term s = Some (v, rest)"
  shows "length rest < length s"
proof -
  obtain x s1 where s1: "leadingInt 0 s = Some (x, s1)"
    using assms by (auto simp: duration_term_def split: if_splits option.splits)
  define f where "f = (if s1 \<noteq> [] \<and> hd s1 = CHR ''.''
      then (case leadingFraction 0 1 False (tl s1) of (f, scale, s2) \<Rightarrow> (f, scale, s2, length (tl s1) \<noteq> length s2))
      else (0, 1, s1, False))"
  obtain f' scale s2 post where f': "f = (f', scale, s2, post)" by (cases f) auto
  have "length s2 \<le> length s1"
    using f' leadingFraction_length [of 0 1 False "tl s1"]
    by (auto simp: f_def split: if_splits prod.splits)
  moreover obtain unit where "unitMap (takeWhile unit_char s2) = Some unit" "rest = dropWhile unit_char s2"
    using assms s1 f' unfolding duration_term_def f_def
    by (auto simp: Let_def split: if_splits option.splits)
  ultimately show ?thesis
    using leadingInt_length [OF s1] unit_consumes [of s2 unit] by auto
qed

text \<open>The sum of the terms, in 64 bits, refused when it passes the largest magnitude.\<close>

function duration_sum :: "nat \<Rightarrow> gostring \<Rightarrow> nat option" where
  "duration_sum d s =
     (if s = [] then Some d
      else case duration_term s of
        None \<Rightarrow> None
      | Some (v, rest) \<Rightarrow>
          (let d' = (d + v) mod 2 ^ 64 in if int_overflow < d' then None else duration_sum d' rest))"
  by pat_completeness auto
termination
  by (relation "measure (length \<circ> snd)") (auto simp: duration_term_shorter)

declare duration_sum.simps [simp del]

abbreviation err_invalid_duration :: gerror where
  "err_invalid_duration \<equiv> NewError ''time: invalid duration''"

definition ParseDuration :: "gostring \<Rightarrow> gerror + duration" where
  "ParseDuration s =
     (let neg = (s \<noteq> [] \<and> hd s = CHR ''-'');
          s = (if s \<noteq> [] \<and> (hd s = CHR ''-'' \<or> hd s = CHR ''+'') then tl s else s)
      in if s = ''0'' then Inr 0
         else if s = [] then Inl err_invalid_duration
         else case duration_sum 0 s of
           None \<Rightarrow> Inl err_invalid_duration
         | Some d \<Rightarrow>
             if neg then Inr (word_of_int (- int d))
             else if int_overflow - 1 < d then Inl err_invalid_duration
             else Inr (word_of_int (int d)))"

text \<open>\<open>Duration.Milliseconds\<close>, truncating towards zero.\<close>

definition Milliseconds :: "duration \<Rightarrow> int" where
  "Milliseconds d = (if 0 \<le> sint d then sint d div 1000000 else - ((- sint d) div 1000000))"

end
