(* ===== verification/Http_Router.thy ===== *)
theory Http_Router
  imports Http_Middleware Go_Duration
begin

text \<open>
  The router of \<open>internal/httpapi/router.go\<close>: the probes, the composition of the middleware in its
  order, and the mounted routes. What chi and its CORS package do is a parameter, a \<open>chi\<close>; what
  the program relies on in them is \<open>documented_chi\<close>.
\<close>

section \<open>What the program hands to chi\<close>

text \<open>
  A mux as the program builds it: the middlewares in the order of \<open>Use\<close>, the routes as method,
  pattern and handler, the mounted handlers, and the two fallbacks.
\<close>

datatype 's http_handler = HandlerFunc "'s handler" | MuxHandler "'s mux"
  and 's mux = Mux "'s middleware list" "(gostring \<times> gostring \<times> 's handler) list"
    "(gostring \<times> 's http_handler) list" "'s handler option" "'s handler option"

record cors_Options =
  co_AllowedOrigins :: "gostring list"
  co_AllowedMethods :: "gostring list"
  co_AllowedHeaders :: "gostring list"
  co_ExposedHeaders :: "gostring list"
  co_AllowCredentials :: bool
  co_MaxAge :: int

text \<open>The functions of chi and of its CORS package; \<open>Inl\<close> is a panic of a constructor.\<close>

record 's chi =
  chi_ServeHTTP :: "'s mux \<Rightarrow> 's handler"
  chi_cors_Handler :: "cors_Options \<Rightarrow> 's middleware"
  chi_ClientIPFromRemoteAddr :: "'s middleware"
  chi_ClientIPFromHeader :: "gostring \<Rightarrow> gostring + 's middleware"
  chi_ClientIPFromXFF :: "gostring list \<Rightarrow> gostring + 's middleware"
  chi_ClientIPFromXFFTrustedProxies :: "int64 \<Rightarrow> gostring + 's middleware"

section \<open>Options\<close>

definition corsPreflightMaxAge :: int where
  "corsPreflightMaxAge = 300"

definition readinessCheckTimeout :: duration where
  "readinessCheckTimeout = 1000000000"

type_synonym 's ReadinessCheck = "ctx \<Rightarrow> 's \<Rightarrow> gerror option \<times> 's"

record 's RouteMount =
  rm_Pattern :: gostring
  rm_Handler :: "'s http_handler option"

record CORSOptions =
  cors_AllowedOrigins :: "gostring list"
  cors_AllowCredentials :: bool

record ClientIPOptions =
  ip_Mode :: gostring
  ip_TrustedHeader :: gostring
  ip_TrustedProxyCIDRs :: "gostring list"
  ip_TrustedProxyCount :: int64

record Options =
  opt_CORS :: CORSOptions
  opt_ClientIP :: ClientIPOptions
  opt_RequestTimeout :: duration

section \<open>Probes\<close>

definition health_ok :: payload where
  "health_ok = HealthResponse_json \<lparr>hr_Status = Ok\<rparr>"

definition liveness :: "'s handler" where
  "liveness r w = (Returned, update_resp (\<lambda>x. snd (WriteJSON 200 (Some health_ok) x)) w)"

text \<open>The checks run in order; the first failure ends the run.\<close>

fun run_checks :: "'s ReadinessCheck list \<Rightarrow> ctx \<Rightarrow> 's \<Rightarrow> gerror option \<times> 's" where
  "run_checks [] c s = (None, s)"
| "run_checks (check # checks) c s =
     (case check c s of
        (Some err, s) \<Rightarrow> (Some err, s)
      | (None, s) \<Rightarrow> run_checks checks c s)"

definition readiness :: "'s ReadinessCheck list \<Rightarrow> 's handler" where
  "readiness checks r w =
     (let c = WithTimeout (wd_now w) (sint readinessCheckTimeout) (rq_ctx r) in
      case run_checks checks c (wd_state w) of
        (Some err, s) \<Rightarrow>
          (Returned, update_resp (WriteError 503 ''not_ready'' ''Service is not ready.'') (w\<lparr>wd_state := s\<rparr>))
      | (None, s) \<Rightarrow>
          (Returned, update_resp (\<lambda>x. snd (WriteJSON 200 (Some health_ok) x)) (w\<lparr>wd_state := s\<rparr>)))"

section \<open>The router\<close>

definition clientIPMiddleware :: "'s chi \<Rightarrow> ClientIPOptions \<Rightarrow> gostring + 's middleware" where
  "clientIPMiddleware chi options =
     (if ip_Mode options = [] \<or> ip_Mode options = ''remote'' then Inr (chi_ClientIPFromRemoteAddr chi)
      else if ip_Mode options = ''header'' then chi_ClientIPFromHeader chi (ip_TrustedHeader options)
      else if ip_Mode options = ''xff-cidrs'' then chi_ClientIPFromXFF chi (ip_TrustedProxyCIDRs options)
      else if ip_Mode options = ''xff-count''
      then chi_ClientIPFromXFFTrustedProxies chi (ip_TrustedProxyCount options)
      else Inl ''unsupported client IP mode'')"

definition route_not_found :: "'s handler" where
  "route_not_found r w = (Returned, update_resp (WriteError 404 ''route_not_found'' ''Route was not found.'') w)"

definition method_not_allowed :: "'s handler" where
  "method_not_allowed r w =
     (Returned, update_resp (WriteError 405 ''method_not_allowed'' ''Method is not allowed.'') w)"

definition cors_options :: "CORSOptions \<Rightarrow> cors_Options" where
  "cors_options c =
     \<lparr>co_AllowedOrigins = cors_AllowedOrigins c,
      co_AllowedMethods = [''GET'', ''POST'', ''PUT'', ''PATCH'', ''DELETE'', ''OPTIONS''],
      co_AllowedHeaders = [''Accept'', ''Authorization'', ''Content-Type'', requestIDHeader],
      co_ExposedHeaders = [requestIDHeader], co_AllowCredentials = cors_AllowCredentials c,
      co_MaxAge = corsPreflightMaxAge\<rparr>"

text \<open>
  \<open>NewRouter\<close>: \<open>None\<close> among the arguments is nil, \<open>Inl\<close> the value of a panic. The root mux runs
  its middlewares in the order listed, outermost first.
\<close>

definition NewRouter ::
  "'s chi \<Rightarrow> slog_handler option \<Rightarrow> 's ReadinessCheck option list \<Rightarrow> 's RouteMount list \<Rightarrow> Options
    \<Rightarrow> gostring + 's mux" where
  "NewRouter chi logger readinessChecks routes options =
     (case logger of
        None \<Rightarrow> Inl ''HTTP router dependencies must not be nil''
      | Some logger \<Rightarrow>
          if readinessChecks = [] then Inl ''HTTP router dependencies must not be nil''
          else if \<exists>check \<in> set readinessChecks. check = None then Inl ''HTTP readiness checks must not be nil''
          else if \<exists>route \<in> set routes. rm_Pattern route = [] \<or> rm_Handler route = None
          then Inl ''HTTP route mount must have a pattern and handler''
          else case clientIPMiddleware chi (opt_ClientIP options) of
            Inl panic \<Rightarrow> Inl panic
          | Inr clientIP \<Rightarrow>
              (let cors = opt_CORS options;
                   timeout = (if 0 < sint (opt_RequestTimeout options)
                     then [requestTimeout (sint (opt_RequestTimeout options))] else []) in
               if cors_AllowedOrigins cors \<noteq> [] \<and> cors_AllowCredentials cors
                 \<and> ''*'' \<in> set (cors_AllowedOrigins cors)
               then Inl ''credentialed CORS must not allow wildcard origins''
               else Inr (Mux
                 ([requestID, clientIP, securityHeaders, logRequest logger, recoverPanic logger] @ timeout
                   @ (if cors_AllowedOrigins cors = [] then [] else [chi_cors_Handler chi (cors_options cors)]))
                 [(''GET'', ''/health/live'', liveness), (''GET'', ''/health/ready'', readiness (map the readinessChecks))]
                 (map (\<lambda>route. (rm_Pattern route, the (rm_Handler route))) routes)
                 (Some route_not_found) (Some method_not_allowed))))"

section \<open>The documented behaviour of chi\<close>

definition apply_all :: "'s middleware list \<Rightarrow> 's handler \<Rightarrow> 's handler" where
  "apply_all ms h = foldr (\<lambda>m h. m h) ms h"

text \<open>
  The handlers a mux without middleware can run: its routes, its fallbacks, the mounted handlers,
  and the routes and fallbacks of mounted muxes.
\<close>

definition route_handlers :: "(gostring \<times> gostring \<times> 's handler) list \<Rightarrow> 's handler set" where
  "route_handlers routes = (\<lambda>(m, p, h). h) ` set routes"

fun mount_handlers :: "'s http_handler \<Rightarrow> 's handler set" where
  "mount_handlers (HandlerFunc h) = {h}"
| "mount_handlers (MuxHandler (Mux ms routes mounts nf mna)) =
     route_handlers routes \<union> set_option nf \<union> set_option mna"

fun flat :: "'s http_handler \<Rightarrow> bool" where
  "flat (HandlerFunc h) = True"
| "flat (MuxHandler (Mux ms routes mounts nf mna)) = (ms = [] \<and> mounts = [])"

definition static_pattern :: "gostring \<Rightarrow> bool" where
  "static_pattern p \<longleftrightarrow> CHR ''{'' \<notin> set p \<and> CHR ''*'' \<notin> set p"

definition unambiguous :: "(gostring \<times> gostring \<times> 's handler) list \<Rightarrow> bool" where
  "unambiguous routes \<longleftrightarrow> distinct (map (\<lambda>(m, p, h). (m, p)) routes)"

definition below :: "gostring \<Rightarrow> gostring \<Rightarrow> bool" where
  "below mount path \<longleftrightarrow> take (length mount) path = mount"

text \<open>
  A mux runs its middlewares around its routing. Routing runs one registered handler, with the
  parameters of the path: the one of a static pattern for a request of its method and path, and
  below a mounted mux with the patterns \<open>/\<close> and \<open>/{name}\<close> the one of the method for the mount's path
  and for one further segment.
\<close>

definition documented_mux :: "'s chi \<Rightarrow> bool" where
  "documented_mux chi \<longleftrightarrow>
     (\<forall>ms routes mounts nf mna.
        chi_ServeHTTP chi (Mux ms routes mounts nf mna) = apply_all ms (chi_ServeHTTP chi (Mux [] routes mounts nf mna)))
   \<and> (\<forall>routes mounts nf mna r w. list_all (flat \<circ> snd) mounts \<longrightarrow>
        (\<exists>p. \<exists>h \<in> {nf, mna} \<union> route_handlers routes \<union> (\<Union>mount \<in> set mounts. mount_handlers (snd mount)).
           chi_ServeHTTP chi (Mux [] routes mounts (Some nf) (Some mna)) r w = h (r\<lparr>rq_param := p\<rparr>) w))
   \<and> (\<forall>routes mounts nf mna m p h r w.
        unambiguous routes \<and> (m, p, h) \<in> set routes \<and> static_pattern p
        \<and> (\<forall>(q, mh) \<in> set mounts. \<not> below q p) \<and> rq_method r = m \<and> rq_path r = p \<longrightarrow>
        (\<exists>ps. chi_ServeHTTP chi (Mux [] routes mounts (Some nf) (Some mna)) r w = h (r\<lparr>rq_param := ps\<rparr>) w))
   \<and> (\<forall>routes mount subroutes nf mna name m h r w seg.
        unambiguous subroutes \<and> (\<forall>(m', p, h') \<in> set subroutes. p = ''/'' \<or> p = ''/{'' @ name @ ''}'')
        \<and> (\<forall>(m', p, h') \<in> set routes. \<not> below mount p) \<and> rq_method r = m
        \<and> ((m, ''/'', h) \<in> set subroutes \<and> rq_path r = mount
           \<or> (m, ''/{'' @ name @ ''}'', h) \<in> set subroutes \<and> rq_path r = mount @ ''/'' @ seg
             \<and> seg \<noteq> [] \<and> list_all id_character seg) \<longrightarrow>
        (\<exists>ps. (rq_path r = mount @ ''/'' @ seg \<longrightarrow> ps name = seg)
          \<and> chi_ServeHTTP chi (Mux [] routes [(mount, MuxHandler (Mux [] subroutes [] None None))] (Some nf) (Some mna)) r w
            = h (r\<lparr>rq_param := ps\<rparr>) w))"

text \<open>
  The client address goes into the context and nothing else changes; the CORS handler sets its
  own headers and calls the handler, or answers a preflight, which is an OPTIONS request.
\<close>

definition sets_client_ip :: "'s middleware \<Rightarrow> bool" where
  "sets_client_ip m \<longleftrightarrow>
     (\<forall>h r w. \<exists>ip. m h r w = h (r\<lparr>rq_ctx := (rq_ctx r)\<lparr>ctx_client_ip := ip\<rparr>\<rparr>) w)"

definition own_headers :: "gostring set" where
  "own_headers = {requestIDHeader, ''Content-Security-Policy'', ''X-Content-Type-Options'', ''X-Frame-Options'',
     ''Referrer-Policy''}"

definition sets_cors_headers :: "'s middleware \<Rightarrow> bool" where
  "sets_cors_headers m \<longleftrightarrow>
     (\<forall>h r w. \<exists>f. (\<forall>x. leaves own_headers x (f x))
        \<and> (m h r w = h r (update_resp f w) \<and> (\<forall>x. unwritten x \<longrightarrow> unwritten (f x))
           \<or> m h r w = (Returned, update_resp f w) \<and> rq_method r = ''OPTIONS''))"

definition documented_chi :: "'s chi \<Rightarrow> bool" where
  "documented_chi chi \<longleftrightarrow> documented_mux chi \<and> (\<forall>o'. sets_cors_headers (chi_cors_Handler chi o'))
     \<and> sets_client_ip (chi_ClientIPFromRemoteAddr chi)
     \<and> (\<forall>v m. chi_ClientIPFromHeader chi v = Inr m \<longrightarrow> sets_client_ip m)
     \<and> (\<forall>ps m. chi_ClientIPFromXFF chi ps = Inr m \<longrightarrow> sets_client_ip m)
     \<and> (\<forall>n m. chi_ClientIPFromXFFTrustedProxies chi n = Inr m \<longrightarrow> sets_client_ip m)"

lemma clientIPMiddleware_sets:
  "documented_chi chi \<Longrightarrow> clientIPMiddleware chi o' = Inr m \<Longrightarrow> sets_client_ip m"
  by (auto simp: clientIPMiddleware_def documented_chi_def split: if_splits)

lemma mux_routes:
  assumes "documented_chi chi" "list_all (flat \<circ> snd) mounts"
  obtains p h where "h \<in> {nf, mna} \<union> route_handlers routes \<union> (\<Union>mount \<in> set mounts. mount_handlers (snd mount))"
    "chi_ServeHTTP chi (Mux [] routes mounts (Some nf) (Some mna)) r w = h (r\<lparr>rq_param := p\<rparr>) w"
  using assms unfolding documented_chi_def documented_mux_def by meson

section \<open>The handlers behave\<close>

lemma liveness_response:
  "unwritten (wd_resp w) \<Longrightarrow>
     liveness r w = (Returned, update_resp (json_response 200 (JObj [(''status'', JStr ''ok'')])) w)"
  by (simp add: liveness_def health_ok_def HealthResponse_json_def WriteJSON_unwritten update_resp_def)

lemma readiness_response:
  "unwritten (wd_resp w) \<Longrightarrow>
     readiness checks r w =
       (case run_checks checks (WithTimeout (wd_now w) (sint readinessCheckTimeout) (rq_ctx r)) (wd_state w) of
          (e, s) \<Rightarrow> (Returned, update_resp (case e of
              None \<Rightarrow> json_response 200 (JObj [(''status'', JStr ''ok'')])
            | Some err \<Rightarrow> json_response 503 (error_object ''not_ready'' ''Service is not ready.'')) (w\<lparr>wd_state := s\<rparr>)))"
  by (simp add: readiness_def Let_def health_ok_def HealthResponse_json_def WriteJSON_unwritten WriteError_unwritten
      update_resp_def split: prod.split option.split)

interpretation live: well_behaved liveness "- {''Content-Type''}"
  by unfold_locales (simp add: behaves_def liveness_def leaving)

interpretation ready: well_behaved "readiness checks" "- {''Content-Type''}" for checks
  by unfold_locales (auto simp: behaves_def readiness_def Let_def leaving split: prod.split option.split)

interpretation not_found: well_behaved route_not_found "- {''Content-Type''}"
  by unfold_locales (simp add: behaves_def route_not_found_def leaving)

interpretation not_allowed: well_behaved method_not_allowed "- {''Content-Type''}"
  by unfold_locales (simp add: behaves_def method_not_allowed_def leaving)

lemma behaves_subset: "behaves K h \<Longrightarrow> J \<subseteq> K \<Longrightarrow> behaves J h"
  by (meson behaves_def leaves_subset)

lemma own_headers_plain: "own_headers \<subseteq> - {''Content-Type''}"
  by (auto simp: own_headers_def requestIDHeader_def)

lemma routing_behaves:
  assumes "documented_chi chi" "list_all (flat \<circ> snd) mounts"
    and "\<And>h. h \<in> {nf, mna} \<union> route_handlers routes \<union> (\<Union>mount \<in> set mounts. mount_handlers (snd mount)) \<Longrightarrow> behaves K h"
  shows "behaves K (chi_ServeHTTP chi (Mux [] routes mounts (Some nf) (Some mna)))"
  unfolding behaves_def
proof (intro allI)
  fix r and w :: "'a world"
  let ?run = "chi_ServeHTTP chi (Mux [] routes mounts (Some nf) (Some mna)) r w"
  from assms(1,2) obtain p h
    where h: "h \<in> {nf, mna} \<union> route_handlers routes \<union> (\<Union>mount \<in> set mounts. mount_handlers (snd mount))"
      and run: "?run = h (r\<lparr>rq_param := p\<rparr>) w" by (rule mux_routes)
  from assms(3) [OF h] show "leaves K (wd_resp w) (wd_resp (snd ?run)) \<and> (\<exists>l. wd_log (snd ?run) = wd_log w @ l)"
    unfolding run by (simp add: behaves_def)
qed

lemma cors_behaves:
  assumes "sets_cors_headers m" "behaves own_headers h"
  shows "behaves own_headers (m h)"
  unfolding behaves_def
proof (intro allI)
  fix r and w :: "'a world"
  from assms(1) obtain f where f: "\<forall>x. leaves own_headers x (f x)"
    and run: "m h r w = h r (update_resp f w) \<or> m h r w = (Returned, update_resp f w)"
    unfolding sets_cors_headers_def by metis
  have "leaves own_headers (f (wd_resp w)) (wd_resp (snd (h r (update_resp f w))))
      \<and> (\<exists>l. wd_log (snd (h r (update_resp f w))) = wd_log w @ l)"
    using assms(2) [unfolded behaves_def, rule_format, of "update_resp f w" r] by simp
  with f run show "leaves own_headers (wd_resp w) (wd_resp (snd (m h r w))) \<and> (\<exists>l. wd_log (snd (m h r w)) = wd_log w @ l)"
    using leaves_trans [of own_headers "wd_resp w" "f (wd_resp w)"] by auto
qed

section \<open>Around every route\<close>

definition published :: "gostring \<Rightarrow> (gostring \<times> gostring) list" where
  "published i =
     [(requestIDHeader, i), (''Content-Security-Policy'', contentSecurityPolicy),
      (''X-Content-Type-Options'', ''nosniff''), (''X-Frame-Options'', ''DENY''), (''Referrer-Policy'', ''no-referrer'')]"

text \<open>The headers are set, and went out with the status if one was written.\<close>

definition carries :: "(gostring \<times> gostring) list \<Rightarrow> response \<Rightarrow> bool" where
  "carries kvs resp \<longleftrightarrow>
     (\<forall>(k, v) \<in> set kvs. rs_header resp k = Some v \<and> (rs_status resp \<noteq> 0 \<longrightarrow> rs_sent resp k = Some v))"

lemma carries_leaves:
  "carries kvs x \<Longrightarrow> rs_status x = 0 \<Longrightarrow> leaves K x y \<Longrightarrow> fst ` set kvs \<subseteq> K \<Longrightarrow> carries kvs y"
  by (force simp: carries_def leaves_def)

lemma carries_recorder [simp]: "carries kvs (record_resp b x) = carries kvs x"
  by (simp add: carries_def record_resp_def)

abbreviation around ::
  "'s middleware \<Rightarrow> slog_handler \<Rightarrow> 's handler \<Rightarrow> 's handler" where
  "around clientIP logger inner \<equiv>
     requestID (clientIP (securityHeaders (logRequest logger (recoverPanic logger inner))))"

text \<open>
  One step of the outer middlewares down to the request log: the request gets the identifier and
  the client address, the response the published headers.
\<close>

lemma around_runs:
  assumes "sets_client_ip clientIP" "unwritten (wd_resp w)"
  obtains r1 w1 where "around clientIP logger inner r w = logRequest logger (recoverPanic logger inner) r1 w1"
    "ctx_request_id (rq_ctx r1) = chosen_id r w" "rq_method r1 = rq_method r" "rq_path r1 = rq_path r"
    "ctx_deadline (rq_ctx r1) = ctx_deadline (rq_ctx r)" "rq_body r1 = rq_body r" "rq_query r1 = rq_query r"
    "rq_header r1 = rq_header r" "unwritten (wd_resp w1)" "rs_recorder (wd_resp w1) = rs_recorder (wd_resp w)"
    "carries (published (chosen_id r w)) (wd_resp w1)" "wd_log w1 = wd_log w" "wd_state w1 = wd_state w"
    "wd_now w1 = wd_now w" "wd_gone w1 = wd_gone w"
proof -
  let ?h = "securityHeaders (logRequest logger (recoverPanic logger inner))"
  obtain w0 where w0: "wd_resp w0 = Header_Set requestIDHeader (chosen_id r w) (wd_resp w)"
      "wd_state w0 = wd_state w" "wd_log w0 = wd_log w" "wd_now w0 = wd_now w" "wd_gone w0 = wd_gone w"
    and run: "requestID (clientIP ?h) r w = clientIP ?h (r\<lparr>rq_ctx := (rq_ctx r)\<lparr>ctx_request_id := chosen_id r w\<rparr>\<rparr>) w0"
    by (rule requestID_runs)
  let ?r0 = "r\<lparr>rq_ctx := (rq_ctx r)\<lparr>ctx_request_id := chosen_id r w\<rparr>\<rparr>"
  obtain ip where ip: "clientIP ?h ?r0 w0 = ?h (?r0\<lparr>rq_ctx := (rq_ctx ?r0)\<lparr>ctx_client_ip := ip\<rparr>\<rparr>) w0"
    using assms(1) unfolding sets_client_ip_def by meson
  show thesis
    by (rule that [of "?r0\<lparr>rq_ctx := (rq_ctx ?r0)\<lparr>ctx_client_ip := ip\<rparr>\<rparr>"
        "update_resp (Header_Set ''Referrer-Policy'' ''no-referrer'')
         (update_resp (Header_Set ''X-Frame-Options'' ''DENY'')
         (update_resp (Header_Set ''X-Content-Type-Options'' ''nosniff'')
         (update_resp (Header_Set ''Content-Security-Policy'' contentSecurityPolicy) w0)))"])
      (use assms(2) in \<open>simp_all add: run ip securityHeaders_def w0 unwritten_def carries_def published_def requestIDHeader_def\<close>)
qed

lemma own_headers_published: "fst ` set (published i) \<subseteq> own_headers"
  by (auto simp: published_def own_headers_def)

text \<open>What every response carries, what the log says of it, and which panics leave the router.\<close>

lemma around_response:
  assumes "sets_client_ip clientIP" "unwritten (wd_resp w)" "behaves own_headers inner"
    and "around clientIP logger inner r w = (out, w')"
  shows "carries (published (chosen_id r w)) (wd_resp w')"
    and "\<exists>l c r1 w1. wd_log w' = wd_log w @ l @
        (if enabled logger LevelInfo then Handle logger c (completion r1 w1 w') else [])
      \<and> ctx_request_id c = chosen_id r w \<and> rq_ctx r1 = c \<and> rq_method r1 = rq_method r \<and> rq_path r1 = rq_path r
      \<and> ctx_deadline c = ctx_deadline (rq_ctx r)"
    and "out = Panicked v \<Longrightarrow> aborts v"
proof -
  obtain r1 w1 where run: "around clientIP logger inner r w = logRequest logger (recoverPanic logger inner) r1 w1"
    and r1: "ctx_request_id (rq_ctx r1) = chosen_id r w" "rq_method r1 = rq_method r" "rq_path r1 = rq_path r"
      "ctx_deadline (rq_ctx r1) = ctx_deadline (rq_ctx r)"
    and w1: "unwritten (wd_resp w1)" "carries (published (chosen_id r w)) (wd_resp w1)" "wd_log w1 = wd_log w"
    using around_runs [OF assms(1,2), where logger = logger and inner = inner and r = r] by metis
  from assms(3) have inner: "well_behaved inner own_headers" by unfold_locales
  have "''Content-Type'' \<notin> own_headers" using own_headers_plain by auto
  with inner have "behaves own_headers (recoverPanic logger inner)" by (rule well_behaved.guard_behaves)
  then have guard: "well_behaved (recoverPanic logger inner) own_headers" by unfold_locales
  from run assms(4) have logging: "logRequest logger (recoverPanic logger inner) r1 w1 = (out, w')" by simp
  have "leaves own_headers (wd_resp w1) (wd_resp w')"
    using well_behaved.log_behaves [OF guard] logging unfolding behaves_def by (metis snd_conv)
  then show "carries (published (chosen_id r w)) (wd_resp w')"
    using w1(1,2) own_headers_published by (auto simp: unwritten_def intro: carries_leaves)
  obtain w2 l where "recoverPanic logger inner r1 (update_resp (record_resp True) w1) = (out, w2)"
    and log: "wd_log w' = wd_log w1 @ l @
      (if enabled logger LevelInfo then Handle logger (rq_ctx r1) (completion r1 w1 w') else [])"
    using well_behaved.logged [OF guard w1(1) logging] by metis
  then show "out = Panicked v \<Longrightarrow> aborts v" using well_behaved.guard_outcome [OF inner] by (metis fst_conv)
  from log r1 w1(3) show "\<exists>l c r1 w1. wd_log w' = wd_log w @ l @
        (if enabled logger LevelInfo then Handle logger c (completion r1 w1 w') else [])
      \<and> ctx_request_id c = chosen_id r w \<and> rq_ctx r1 = c \<and> rq_method r1 = rq_method r \<and> rq_path r1 = rq_path r
      \<and> ctx_deadline c = ctx_deadline (rq_ctx r)" by metis
qed

lemma mux_serves:
  assumes "documented_chi chi"
  shows "chi_ServeHTTP chi (Mux ms routes mounts nf mna)
    = apply_all ms (chi_ServeHTTP chi (Mux [] routes mounts nf mna))"
proof -
  from assms have "\<forall>ms routes mounts nf mna. chi_ServeHTTP chi (Mux ms routes mounts nf mna)
      = apply_all ms (chi_ServeHTTP chi (Mux [] routes mounts nf mna))"
    unfolding documented_chi_def documented_mux_def by (elim conjE)
  then show ?thesis by (elim allE)
qed

text \<open>The router as a whole: a successful construction is the outer middlewares around the routing.\<close>

lemma NewRouter_built:
  assumes "documented_chi chi" "NewRouter chi logger checks routes options = Inr mux"
  obtains log clientIP ms mounts where "logger = Some log" "sets_client_ip clientIP" "checks \<noteq> []"
    "mux = Mux ([requestID, clientIP, securityHeaders, logRequest log, recoverPanic log] @ ms)
      [(''GET'', ''/health/live'', liveness), (''GET'', ''/health/ready'', readiness (map the checks))] mounts
      (Some route_not_found) (Some method_not_allowed)"
    "mounts = map (\<lambda>route. (rm_Pattern route, the (rm_Handler route))) routes"
    "list_all (\<lambda>m. (\<exists>t > 0. m = requestTimeout t) \<or> sets_cors_headers m) ms"
    "chi_ServeHTTP chi mux = around clientIP log (apply_all ms (chi_ServeHTTP chi (Mux []
      [(''GET'', ''/health/live'', liveness), (''GET'', ''/health/ready'', readiness (map the checks))] mounts
      (Some route_not_found) (Some method_not_allowed))))"
proof -
  define ms where "ms = (if 0 < sint (opt_RequestTimeout options)
        then [requestTimeout (sint (opt_RequestTimeout options))] else [])
      @ (if cors_AllowedOrigins (opt_CORS options) = [] then []
         else [chi_cors_Handler chi (cors_options (opt_CORS options))])"
  from assms(2) obtain log clientIP where log: "logger = Some log" "checks \<noteq> []"
    and ip: "clientIPMiddleware chi (opt_ClientIP options) = Inr clientIP"
    and mux: "mux = Mux ([requestID, clientIP, securityHeaders, logRequest log, recoverPanic log] @ ms)
      [(''GET'', ''/health/live'', liveness), (''GET'', ''/health/ready'', readiness (map the checks))]
      (map (\<lambda>route. (rm_Pattern route, the (rm_Handler route))) routes)
      (Some route_not_found) (Some method_not_allowed)"
    by (auto simp: NewRouter_def Let_def ms_def split: option.splits if_splits sum.splits)
  have "sets_cors_headers (chi_cors_Handler chi (cors_options (opt_CORS options)))"
    using assms(1) by (simp add: documented_chi_def)
  then have "list_all (\<lambda>m. (\<exists>t > 0. m = requestTimeout t) \<or> sets_cors_headers m) ms"
    by (auto simp: ms_def)
  then show thesis
    by (intro that [OF log(1) clientIPMiddleware_sets [OF assms(1) ip] log(2) mux refl])
      (simp_all add: mux mux_serves [OF assms(1), where ms = "_ # _"] apply_all_def)
qed

lemma inner_behaves:
  assumes "list_all (\<lambda>m. (\<exists>t > 0. m = requestTimeout t) \<or> sets_cors_headers m) ms" "behaves own_headers h"
  shows "behaves own_headers (apply_all ms h)"
  using assms
proof (induction ms)
  case (Cons m ms)
  then have inner: "behaves own_headers (apply_all ms h)" by simp
  then have "well_behaved (apply_all ms h) own_headers" by unfold_locales
  from well_behaved.deadline_behaves [OF this] cors_behaves [OF _ inner] Cons.prems(1) show ?case
    by (auto simp: apply_all_def)
qed (simp add: apply_all_def)

lemma router_routing_behaves:
  assumes "documented_chi chi" "list_all (flat \<circ> snd) mounts"
    and "\<forall>mount \<in> set mounts. \<forall>h \<in> mount_handlers (snd mount). behaves own_headers h"
  shows "behaves own_headers (chi_ServeHTTP chi (Mux []
      [(''GET'', ''/health/live'', liveness), (''GET'', ''/health/ready'', readiness checks)] mounts
      (Some route_not_found) (Some method_not_allowed)))"
  using assms(3) live.behaved ready.behaved not_found.behaved not_allowed.behaved
  by (intro routing_behaves [OF assms(1,2)])
    (auto simp: route_handlers_def intro: behaves_subset [OF _ own_headers_plain])

section \<open>A reference mux\<close>

text \<open>The documented behaviour can be met: a mux that finds its routes by comparing texts.\<close>

definition find_route :: "(gostring \<Rightarrow> gostring \<Rightarrow> bool) \<Rightarrow> (gostring \<times> gostring \<times> 's handler) list \<Rightarrow> 's handler option" where
  "find_route P routes = map_option (\<lambda>(m, p, h). h) (List.find (\<lambda>(m, p, h). P m p) routes)"

text \<open>The handler that is found, with the parameters of the path.\<close>

definition found_or :: "'s handler option \<Rightarrow> 's handler \<Rightarrow> 's handler" where
  "found_or found fallback = (case found of Some h \<Rightarrow> h | None \<Rightarrow> fallback)"

fun reference_mount :: "(gostring \<times> 's http_handler) list \<Rightarrow> 's handler \<Rightarrow> 's handler \<Rightarrow> request
    \<Rightarrow> 's handler \<times> (gostring \<Rightarrow> gostring)" where
  "reference_mount [(mount, MuxHandler (Mux ms subroutes ms' nf' mna'))] nf mna r =
     (if rq_path r = mount
      then (found_or (find_route (\<lambda>m p. m = rq_method r \<and> p = ''/'') subroutes) mna, rq_param r)
      else if below (mount @ ''/'') (rq_path r)
      then (found_or (find_route (\<lambda>m p. m = rq_method r \<and> p \<noteq> ''/'') subroutes) mna,
            \<lambda>name. drop (length mount + 1) (rq_path r))
      else (nf, rq_param r))"
| "reference_mount mounts nf mna r = (nf, rq_param r)"

definition reference_find :: "(gostring \<times> gostring \<times> 's handler) list \<Rightarrow> (gostring \<times> 's http_handler) list
    \<Rightarrow> 's handler \<Rightarrow> 's handler \<Rightarrow> request \<Rightarrow> 's handler \<times> (gostring \<Rightarrow> gostring)" where
  "reference_find routes mounts nf mna r =
     (case find_route (\<lambda>m p. m = rq_method r \<and> p = rq_path r) routes of
        Some h \<Rightarrow> (h, rq_param r)
      | None \<Rightarrow> reference_mount mounts nf mna r)"

definition reference_routing :: "(gostring \<times> gostring \<times> 's handler) list \<Rightarrow> (gostring \<times> 's http_handler) list
    \<Rightarrow> 's handler option \<Rightarrow> 's handler option \<Rightarrow> 's handler" where
  "reference_routing routes mounts nf mna r w =
     (case reference_find routes mounts (the nf) (the mna) r of (h, p) \<Rightarrow> h (r\<lparr>rq_param := p\<rparr>) w)"

fun reference_ServeHTTP :: "'s mux \<Rightarrow> 's handler" where
  "reference_ServeHTTP (Mux ms routes mounts nf mna) = apply_all ms (reference_routing routes mounts nf mna)"

definition reference_chi :: "'s chi" where
  "reference_chi =
     \<lparr>chi_ServeHTTP = reference_ServeHTTP, chi_cors_Handler = (\<lambda>o' h. h),
      chi_ClientIPFromRemoteAddr = (\<lambda>h. h), chi_ClientIPFromHeader = (\<lambda>name. Inr (\<lambda>h. h)),
      chi_ClientIPFromXFF = (\<lambda>ps. Inr (\<lambda>h. h)), chi_ClientIPFromXFFTrustedProxies = (\<lambda>n. Inr (\<lambda>h. h))\<rparr>"

lemma find_route_in:
  assumes "find_route P routes = Some h"
  shows "h \<in> route_handlers routes"
proof -
  from assms obtain m p where "List.find (\<lambda>(m, p, h). P m p) routes = Some (m, p, h)"
    by (auto simp: find_route_def)
  then have "(m, p, h) \<in> set routes" using find_SomeD by fast
  then have "(\<lambda>(m, p, h). h) (m, p, h) \<in> route_handlers routes" unfolding route_handlers_def by (rule imageI)
  then show ?thesis by simp
qed

lemma find_route_unique:
  assumes "(m, p, h) \<in> set routes" "P m p" "\<And>m' p' h'. (m', p', h') \<in> set routes \<Longrightarrow> P m' p' \<Longrightarrow> m' = m \<and> p' = p"
    and "unambiguous routes"
  shows "find_route P routes = Some h"
  using assms
proof (induction routes)
  case (Cons x routes)
  obtain m' p' h' where x: "x = (m', p', h')" by (cases x) auto
  show ?case
  proof (cases "P m' p'")
    case True
    with Cons.prems(3) [of m' p' h'] x have eq: "m' = m" "p' = p" by auto
    have "(m, p) \<notin> (\<lambda>(m, p, h). (m, p)) ` set routes"
      using Cons.prems(4) x eq by (simp add: unambiguous_def)
    then have "(m, p, h) \<notin> set routes" by force
    with Cons.prems(1) x eq True show ?thesis by (simp add: find_route_def)
  next
    case False
    with Cons.prems(1,2) x have "(m, p, h) \<in> set routes" by auto
    moreover have "unambiguous routes" using Cons.prems(4) by (simp add: unambiguous_def)
    ultimately have "find_route P routes = Some h"
      using Cons.prems(2,3) by (intro Cons.IH) (auto intro: list.set_intros)
    with x False show ?thesis by (simp add: find_route_def)
  qed
qed simp

lemma found_or_in: "found_or (find_route P routes) h \<in> insert h (route_handlers routes)"
  using find_route_in [of P routes] by (auto simp: found_or_def split: option.split)

lemma reference_mount_in:
  "fst (reference_mount mounts nf mna r) \<in> {nf, mna} \<union> (\<Union>mount \<in> set mounts. mount_handlers (snd mount))"
  using found_or_in
  by (induction mounts nf mna r rule: reference_mount.induct) (auto simp: Let_def)

lemma reference_find_in:
  "fst (reference_find routes mounts nf mna r)
    \<in> {nf, mna} \<union> route_handlers routes \<union> (\<Union>mount \<in> set mounts. mount_handlers (snd mount))"
  using reference_mount_in [of mounts nf mna r] find_route_in [of _ routes]
  by (auto simp: reference_find_def split: option.split)

lemma find_route_None:
  "\<forall>(m, p, h) \<in> set routes. \<not> P m p \<Longrightarrow> find_route P routes = None"
  by (induction routes) (auto simp: find_route_def)

lemma below_append [simp]: "below mount (mount @ s)"
  by (simp add: below_def)

lemma reference_mux: "documented_mux (reference_chi :: 's chi)"
  unfolding documented_mux_def
proof (intro conjI allI impI; (elim conjE)?)
  fix ms :: "'s middleware list" and routes mounts nf mna
  show "chi_ServeHTTP reference_chi (Mux ms routes mounts nf mna)
      = apply_all ms (chi_ServeHTTP reference_chi (Mux [] routes mounts nf mna))"
    by (simp add: reference_chi_def apply_all_def)
next
  fix routes mounts nf mna and r :: request and w :: "'s world"
  show "\<exists>p. \<exists>h \<in> {nf, mna} \<union> route_handlers routes \<union> (\<Union>mount \<in> set mounts. mount_handlers (snd mount)).
      chi_ServeHTTP reference_chi (Mux [] routes mounts (Some nf) (Some mna)) r w = h (r\<lparr>rq_param := p\<rparr>) w"
  proof (intro exI bexI)
    show "chi_ServeHTTP reference_chi (Mux [] routes mounts (Some nf) (Some mna)) r w
        = fst (reference_find routes mounts nf mna r) (r\<lparr>rq_param := snd (reference_find routes mounts nf mna r)\<rparr>) w"
      by (simp add: reference_chi_def apply_all_def reference_routing_def split_beta)
  qed (rule reference_find_in)
next
  fix routes :: "(gostring \<times> gostring \<times> 's handler) list" and r :: request
    and mounts nf mna m p h w
  assume "unambiguous routes" "(m, p, h) \<in> set routes" "rq_method r = m" "rq_path r = p"
  then have "find_route (\<lambda>m p. m = rq_method r \<and> p = rq_path r) routes = Some h"
    by (intro find_route_unique) auto
  then show "\<exists>ps. chi_ServeHTTP reference_chi (Mux [] routes mounts (Some nf) (Some mna)) r w
      = h (r\<lparr>rq_param := ps\<rparr>) w"
    by (intro exI [of _ "rq_param r"]) (simp add: reference_chi_def apply_all_def reference_routing_def reference_find_def)
next
  fix routes subroutes :: "(gostring \<times> gostring \<times> 's handler) list" and r :: request
    and mount nf mna name m h w seg
  assume sub: "unambiguous subroutes" "\<forall>(m', p, h') \<in> set subroutes. p = ''/'' \<or> p = ''/{'' @ name @ ''}''"
    and routes: "\<forall>(m', p, h') \<in> set routes. \<not> below mount p" and m: "rq_method r = m"
    and at: "(m, ''/'', h) \<in> set subroutes \<and> rq_path r = mount
      \<or> (m, ''/{'' @ name @ ''}'', h) \<in> set subroutes \<and> rq_path r = mount @ ''/'' @ seg
        \<and> seg \<noteq> [] \<and> list_all id_character seg"
  have none: "find_route (\<lambda>m p. m = rq_method r \<and> p = rq_path r) routes = None"
    using routes at by (intro find_route_None) (auto simp: below_def)
  from at show "\<exists>ps. (rq_path r = mount @ ''/'' @ seg \<longrightarrow> ps name = seg)
      \<and> chi_ServeHTTP reference_chi (Mux [] routes [(mount, MuxHandler (Mux [] subroutes [] None None))] (Some nf) (Some mna)) r w
        = h (r\<lparr>rq_param := ps\<rparr>) w"
  proof
    assume root: "(m, ''/'', h) \<in> set subroutes \<and> rq_path r = mount"
    then have "find_route (\<lambda>m p. m = rq_method r \<and> p = ''/'') subroutes = Some h"
      using sub(1) m by (intro find_route_unique) auto
    with none root show ?thesis
      by (intro exI [of _ "rq_param r"]) (simp add: reference_chi_def apply_all_def reference_routing_def reference_find_def found_or_def)
  next
    assume item: "(m, ''/{'' @ name @ ''}'', h) \<in> set subroutes \<and> rq_path r = mount @ ''/'' @ seg
        \<and> seg \<noteq> [] \<and> list_all id_character seg"
    have "find_route (\<lambda>m p. m = rq_method r \<and> p \<noteq> ''/'') subroutes = Some h"
      by (rule find_route_unique [of m "''/{'' @ name @ ''}''"]) (use item sub m in auto)
    moreover have "below (mount @ ''/'') (rq_path r)" using item by (simp add: below_def)
    ultimately show ?thesis using none item
      by (intro exI [of _ "\<lambda>_. seg"]) (simp add: reference_chi_def apply_all_def reference_routing_def reference_find_def found_or_def)
  qed
qed

lemma reference_documented: "documented_chi reference_chi"
proof -
  have id: "sets_client_ip (\<lambda>h. h)" unfolding sets_client_ip_def
  proof (intro allI exI)
    show "(h :: 'b handler) r w = h (r\<lparr>rq_ctx := (rq_ctx r)\<lparr>ctx_client_ip := ctx_client_ip (rq_ctx r)\<rparr>\<rparr>) w" for h r w
      by simp
  qed
  have "sets_cors_headers (\<lambda>h. h)"
    unfolding sets_cors_headers_def
    by (intro allI exI [of _ "\<lambda>x. x"]) (simp add: leaves_refl update_resp_def)
  with reference_mux show ?thesis by (simp add: documented_chi_def reference_chi_def id)
qed

section \<open>A request on its way to its handler\<close>

text \<open>
  What of a request reaches the handler unchanged; its context may gain the identifier, the client
  address and a deadline, and routing fills the parameters of the path.
\<close>

definition same_request :: "request \<Rightarrow> request \<Rightarrow> bool" where
  "same_request r r' \<longleftrightarrow> rq_method r' = rq_method r \<and> rq_path r' = rq_path r \<and> rq_query r' = rq_query r
     \<and> rq_header r' = rq_header r \<and> rq_body r' = rq_body r"

lemma same_request_refl [simp]: "same_request r r"
  by (simp add: same_request_def)

lemma same_request_trans: "same_request r r' \<Longrightarrow> same_request r' r'' \<Longrightarrow> same_request r r''"
  by (simp add: same_request_def)

lemma same_request_updates [simp]:
  "same_request r (r\<lparr>rq_ctx := c\<rparr>)" "same_request r (r\<lparr>rq_param := p\<rparr>)"
  by (simp_all add: same_request_def)

lemma inner_reaches:
  assumes "list_all (\<lambda>m. (\<exists>t > 0. m = requestTimeout t) \<or> sets_cors_headers m) ms"
    and "rq_method r \<noteq> ''OPTIONS''" "unwritten (wd_resp w)"
  shows "\<exists>r' f. apply_all ms h r w = h r' (update_resp f w) \<and> same_request r r' \<and> unwritten (f (wd_resp w))
    \<and> rs_recorder (f (wd_resp w)) = rs_recorder (wd_resp w) \<and> ctx_request_id (rq_ctx r') = ctx_request_id (rq_ctx r)"
  using assms
proof (induction ms arbitrary: r w)
  case Nil
  then show ?case
    by (intro exI [of _ r] exI [of _ "\<lambda>x. x"]) (simp add: apply_all_def update_resp_def)
next
  case (Cons m ms)
  let ?h = "apply_all ms h"
  have run: "apply_all (m # ms) h r w = m ?h r w" by (simp add: apply_all_def)
  consider (deadline) t where "m = requestTimeout t" | (cors) "sets_cors_headers m" using Cons.prems(1) by auto
  then show ?case
  proof cases
    case deadline
    let ?r = "r\<lparr>rq_ctx := WithTimeout (wd_now w) t (rq_ctx r)\<rparr>"
    have "rq_method ?r \<noteq> ''OPTIONS''" using Cons.prems(2) by simp
    from Cons.IH [OF _ this Cons.prems(3)] Cons.prems(1) obtain r' f
      where "?h ?r w = h r' (update_resp f w)" "same_request ?r r'" "unwritten (f (wd_resp w))"
        "rs_recorder (f (wd_resp w)) = rs_recorder (wd_resp w)" "ctx_request_id (rq_ctx r') = ctx_request_id (rq_ctx ?r)"
      by auto
    then show ?thesis unfolding run
      by (intro exI [of _ r'] exI [of _ f]) (simp add: deadline requestTimeout_def same_request_def WithTimeout_def)
  next
    case cors
    then obtain g where g: "\<forall>x. leaves own_headers x (g x)" "\<forall>x. unwritten x \<longrightarrow> unwritten (g x)"
      and call: "m ?h r w = ?h r (update_resp g w)"
      using Cons.prems(2) unfolding sets_cors_headers_def by meson
    then have w: "unwritten (wd_resp (update_resp g w))" "rs_recorder (g (wd_resp w)) = rs_recorder (wd_resp w)"
      using Cons.prems(3) by (simp_all add: leaves_def)
    from Cons.IH [OF _ Cons.prems(2) w(1)] Cons.prems(1) obtain r' f
      where "?h r (update_resp g w) = h r' (update_resp f (update_resp g w))" "same_request r r'"
        "unwritten (f (g (wd_resp w)))" "rs_recorder (f (g (wd_resp w))) = rs_recorder (g (wd_resp w))"
        "ctx_request_id (rq_ctx r') = ctx_request_id (rq_ctx r)"
      by auto
    then show ?thesis unfolding run call using w(2)
      by (intro exI [of _ r'] exI [of _ "f \<circ> g"]) (simp add: update_resp_def)
  qed
qed

text \<open>
  The way in and out again, for every request but a preflight: the routing sees the same request on
  a response nothing was written to, and what a handler that returns leaves is what the client
  gets.
\<close>

lemma around_reaches:
  assumes "sets_client_ip clientIP" "unwritten (wd_resp w)" "rq_method r \<noteq> ''OPTIONS''"
    and "list_all (\<lambda>m. (\<exists>t > 0. m = requestTimeout t) \<or> sets_cors_headers m) ms"
  obtains r2 w2 where "same_request r r2" "unwritten (wd_resp w2)" "wd_state w2 = wd_state w"
    "ctx_request_id (rq_ctx r2) = chosen_id r w"
    "\<And>w3. routing r2 w2 = (Returned, w3) \<Longrightarrow> \<exists>w'. around clientIP logger (apply_all ms routing) r w = (Returned, w')
      \<and> wd_state w' = wd_state w3 \<and> rs_status (wd_resp w') = rs_status (wd_resp w3)
      \<and> rs_body (wd_resp w') = rs_body (wd_resp w3)"
proof -
  obtain r1 w1 where run: "around clientIP logger (apply_all ms routing) r w
      = logRequest logger (recoverPanic logger (apply_all ms routing)) r1 w1"
    and r1: "ctx_request_id (rq_ctx r1) = chosen_id r w" "rq_method r1 = rq_method r" "rq_path r1 = rq_path r"
      "rq_body r1 = rq_body r" "rq_query r1 = rq_query r" "rq_header r1 = rq_header r"
    and w1: "unwritten (wd_resp w1)" "wd_state w1 = wd_state w"
    by (rule around_runs [OF assms(1,2)]) blast
  let ?w1 = "update_resp (record_resp True) w1"
  have "rq_method r1 \<noteq> ''OPTIONS''" "unwritten (wd_resp ?w1)" using assms(3) r1(2) w1(1) by (simp_all add: unwritten_def)
  from inner_reaches [OF assms(4) this, of routing] obtain r2 f
    where call: "apply_all ms routing r1 ?w1 = routing r2 (update_resp f ?w1)" and same: "same_request r1 r2"
      and f: "unwritten (f (wd_resp ?w1))" and id: "ctx_request_id (rq_ctx r2) = ctx_request_id (rq_ctx r1)"
    by blast
  show thesis
  proof (rule that [of r2 "update_resp f ?w1"])
    show "same_request r r2" using same r1 by (simp add: same_request_def)
    fix w3
    assume "routing r2 (update_resp f ?w1) = (Returned, w3)"
    with call have "recoverPanic logger (apply_all ms routing) r1 ?w1 = (Returned, w3)" by (simp add: recoverPanic_def)
    then show "\<exists>w'. around clientIP logger (apply_all ms routing) r w = (Returned, w')
      \<and> wd_state w' = wd_state w3 \<and> rs_status (wd_resp w') = rs_status (wd_resp w3)
      \<and> rs_body (wd_resp w') = rs_body (wd_resp w3)"
      unfolding run by (simp add: logRequest_def Let_def)
  qed (use f w1(2) id r1(1) in simp_all)
qed

text \<open>The two probes of the router are found at their paths.\<close>

lemma probe_served:
  assumes "documented_chi chi" "rq_method r = ''GET''"
    and "(p, h) \<in> {(''/health/live'', liveness), (''/health/ready'', readiness checks)}" "rq_path r = p"
    and "\<forall>(q, mh) \<in> set mounts. \<not> below q p"
  shows "\<exists>ps. chi_ServeHTTP chi (Mux [] [(''GET'', ''/health/live'', liveness), (''GET'', ''/health/ready'', readiness checks)]
      mounts (Some nf) (Some mna)) r w = h (r\<lparr>rq_param := ps\<rparr>) w"
proof -
  let ?routes = "[(''GET'', ''/health/live'', liveness), (''GET'', ''/health/ready'', readiness checks)]"
  have "unambiguous ?routes" by (simp add: unambiguous_def)
  moreover have "(''GET'', p, h) \<in> set ?routes" "static_pattern p" using assms(3) by (auto simp: static_pattern_def)
  moreover have static: "\<forall>routes mounts nf mna m p h r w.
        unambiguous routes \<and> (m, p, h) \<in> set routes \<and> static_pattern p
        \<and> (\<forall>(q, mh) \<in> set mounts. \<not> below q p) \<and> rq_method r = m \<and> rq_path r = p \<longrightarrow>
        (\<exists>ps. chi_ServeHTTP chi (Mux [] routes mounts (Some nf) (Some mna)) r w = h (r\<lparr>rq_param := ps\<rparr>) w)"
    using assms(1) unfolding documented_chi_def documented_mux_def by (elim conjE)
  ultimately show ?thesis
    using assms(2,4,5) static [rule_format, of ?routes "''GET''" p h mounts r nf mna w] by simp
qed

end
