(* ===== verification/Http_Properties.thy ===== *)
theory Http_Properties
  imports Http_Router
begin

text \<open>
  The properties of the HTTP layer as such: what surrounds every route, the probes, the panic
  guard, the decoder, the JSON responses and the log, each with a concrete instance.
\<close>

section \<open>The router\<close>

text \<open>
  C7. Whatever route a request takes, and whatever its handler does short of touching the router's
  own headers: the response carries the correlation identifier and the security headers, also on
  the wire; the identifier is the client's when that is safe to log and otherwise a fresh one,
  safe in every case; the log ends with one record of the completed request under that identifier
  with the status the client was sent; and no panic leaves the router but a deliberate abort.
\<close>

theorem every_response_is_marked:
  assumes "documented_chi chi" "NewRouter chi (Some logger) checks routes options = Inr mux"
    and "list_all (flat \<circ> snd) (map (\<lambda>route. (rm_Pattern route, the (rm_Handler route))) routes)"
    and "\<forall>route \<in> set routes. \<forall>h \<in> mount_handlers (the (rm_Handler route)). behaves own_headers h"
    and "unwritten (wd_resp w)" "chi_ServeHTTP chi mux r w = (out, w')"
  shows "\<exists>i. safe_id i \<and> (safe_id (rq_header r requestIDHeader) \<longrightarrow> i = rq_header r requestIDHeader)
    \<and> carries (published i) (wd_resp w')
    \<and> (\<exists>l r1 w1. wd_log w' = wd_log w @ l @
         (if enabled logger LevelInfo then Handle logger (rq_ctx r1) (completion r1 w1 w') else [])
       \<and> ctx_request_id (rq_ctx r1) = i \<and> rq_method r1 = rq_method r \<and> rq_path r1 = rq_path r)
    \<and> (\<forall>v. out = Panicked v \<longrightarrow> aborts v)"
proof -
  let ?mounts = "map (\<lambda>route. (rm_Pattern route, the (rm_Handler route))) routes"
  from assms(1,2) obtain log clientIP ms mounts where built: "Some logger = Some log" "mounts = ?mounts"
    and ip: "sets_client_ip clientIP"
    and ms: "list_all (\<lambda>m. (\<exists>t > 0. m = requestTimeout t) \<or> sets_cors_headers m) ms"
    and served: "chi_ServeHTTP chi mux = around clientIP log (apply_all ms (chi_ServeHTTP chi (Mux []
      [(''GET'', ''/health/live'', liveness), (''GET'', ''/health/ready'', readiness (map the checks))] mounts
      (Some route_not_found) (Some method_not_allowed))))"
    by (rule NewRouter_built)
  from built served have serve: "chi_ServeHTTP chi mux = around clientIP logger (apply_all ms (chi_ServeHTTP chi (Mux []
      [(''GET'', ''/health/live'', liveness), (''GET'', ''/health/ready'', readiness (map the checks))] ?mounts
      (Some route_not_found) (Some method_not_allowed))))" by simp
  have "\<forall>mount \<in> set ?mounts. \<forall>h \<in> mount_handlers (snd mount). behaves own_headers h"
    using assms(4) by auto
  note behaves = inner_behaves [OF ms router_routing_behaves [OF assms(1,3) this]]
  note response = around_response [OF ip assms(5) behaves assms(6) [unfolded serve]]
  obtain l c r1 w1 where log: "wd_log w' = wd_log w @ l @
      (if enabled logger LevelInfo then Handle logger c (completion r1 w1 w') else [])"
    and r1: "ctx_request_id c = chosen_id r w" "rq_ctx r1 = c" "rq_method r1 = rq_method r" "rq_path r1 = rq_path r"
    using response(2) by blast
  have "\<exists>l r1 w1. wd_log w' = wd_log w @ l @
         (if enabled logger LevelInfo then Handle logger (rq_ctx r1) (completion r1 w1 w') else [])
       \<and> ctx_request_id (rq_ctx r1) = chosen_id r w \<and> rq_method r1 = rq_method r \<and> rq_path r1 = rq_path r"
    by (rule exI [of _ l], rule exI [of _ r1], rule exI [of _ w1]) (simp add: log r1)
  moreover have "safe_id (rq_header r requestIDHeader) \<longrightarrow> chosen_id r w = rq_header r requestIDHeader"
    by (simp add: chosen_id_def)
  ultimately show ?thesis using response(1,3) chosen_safe [of r w] by (intro exI [of _ "chosen_id r w"]) simp
qed

definition demo_router :: "unit mux" where
  "demo_router = Mux [requestID, (\<lambda>h. h), securityHeaders, logRequest (RequestIDHandler (Sink LevelInfo [] [])),
      recoverPanic (RequestIDHandler (Sink LevelInfo [] []))]
    [(''GET'', ''/health/live'', liveness), (''GET'', ''/health/ready'', readiness [\<lambda>c s. (None, s)])] []
    (Some route_not_found) (Some method_not_allowed)"

definition demo_options :: Options where
  "demo_options = \<lparr>opt_CORS = \<lparr>cors_AllowedOrigins = [], cors_AllowCredentials = False\<rparr>,
     opt_ClientIP = \<lparr>ip_Mode = ''remote'', ip_TrustedHeader = [], ip_TrustedProxyCIDRs = [], ip_TrustedProxyCount = 0\<rparr>,
     opt_RequestTimeout = 0\<rparr>"

definition health_request :: "gostring \<Rightarrow> request" where
  "health_request path = \<lparr>rq_method = ''GET'', rq_path = path, rq_query = [], rq_header = (\<lambda>k. []),
     rq_body = ([], ErrEOF), rq_param = (\<lambda>k. []), rq_ctx = background\<rparr>"

lemma demo_router_built:
  "NewRouter reference_chi (Some (RequestIDHandler (Sink LevelInfo [] []))) [Some (\<lambda>c s. (None, s))] [] demo_options
    = Inr demo_router"
  by (simp add: NewRouter_def demo_options_def clientIPMiddleware_def reference_chi_def demo_router_def Let_def)

theorem every_response_is_marked_witness:
  "\<exists>i. safe_id i \<and> carries (published i)
     (wd_resp (snd (chi_ServeHTTP reference_chi demo_router (health_request ''/nothing'') (fresh_world ()))))"
  using every_response_is_marked [OF reference_documented demo_router_built _ _ unwritten_fresh(1) prod.collapse [symmetric],
      of "health_request ''/nothing''" "()"]
  by auto

lemma WriteError_status:
  "n \<noteq> 0 \<Longrightarrow> n \<noteq> 204 \<Longrightarrow>
     rs_status (WriteError n code message x) = (if rs_status x = 0 then n else rs_status x)"
  by (simp add: WriteError_def WriteErrorDetails_def WriteJSON_def ErrorResponse_json_def writeJSONBytes_status)

lemma panic_log_enabled: "enabled logger LevelInfo \<Longrightarrow> enabled logger LevelError"
  by (induction logger) simp_all

text \<open>
  C9. A panic is contained: whatever the handler panics with before anything was written, the
  client is sent the status 500 with the same body and nothing of the panic, the log holds the
  panic and then the completed request with the status 500, and the server goes on. A response
  that was begun is left as it is, and a deliberate abort passes through with the response
  untouched.
\<close>

theorem panic_is_contained:
  assumes "unwritten (wd_resp w)" "behaves K h" "''Content-Type'' \<notin> K"
    and "h r (update_resp (record_resp True) w) = (Panicked v, w1)" "rs_broken (wd_resp w1) = None"
    and "logRequest logger (recoverPanic logger h) r w = (out, w')"
  shows "if aborts v then out = Panicked v \<and> rs_status (wd_resp w') = rs_status (wd_resp w1) \<and> rs_body (wd_resp w') = rs_body (wd_resp w1)
    else out = Returned \<and> wd_state w' = wd_state w1
      \<and> (if rs_status (wd_resp w1) \<noteq> 0
         then rs_status (wd_resp w') = rs_status (wd_resp w1) \<and> rs_body (wd_resp w') = rs_body (wd_resp w1)
         else rs_status (wd_resp w') = 500 \<and> (rs_body (wd_resp w1) = [] \<longrightarrow> rs_body (wd_resp w') = internalErrorJSON))
      \<and> (enabled logger LevelInfo \<longrightarrow> wd_log w' = wd_log w1
          @ Handle logger (rq_ctx r) \<lparr>lr_level = LevelError, lr_message = ''HTTP handler panicked'', lr_attrs = [([''stack''], AttrStack)]\<rparr>
          @ Handle logger (rq_ctx r) (completion r w w'))"
proof (cases "aborts v")
  case True
  with assms(4,6) show ?thesis by (auto simp: logRequest_def recoverPanic_def Let_def)
next
  case False
  have wb: "well_behaved h K" using assms(2) by unfold_locales
  have flag: "rs_recorder (wd_resp w1)"
    using well_behaved.keeps_recorder [OF wb, of r "update_resp (record_resp True) w"] assms(4) by simp
  let ?panicked = "log_context logger LevelError (rq_ctx r) ''HTTP handler panicked'' [(''stack'', AttrStack)] w1"
  let ?w2 = "if rs_status (wd_resp w1) = 0
    then update_resp (WriteError 500 ''internal_error'' ''An internal error occurred.'') ?panicked else ?panicked"
  have guard: "recoverPanic logger h r (update_resp (record_resp True) w) = (Returned, ?w2)"
    using assms(4) False flag by (simp add: recoverPanic_def Let_def)
  have "unwritten (wd_resp w1) \<Longrightarrow> WriteError 500 ''internal_error'' ''An internal error occurred.'' (wd_resp w1)
      = json_response 500 (error_object ''internal_error'' ''An internal error occurred.'') (wd_resp w1)"
    by (simp add: WriteError_unwritten)
  then have body: "rs_status (wd_resp w1) = 0 \<Longrightarrow> rs_body (wd_resp w1) = [] \<Longrightarrow>
      rs_body (WriteError 500 ''internal_error'' ''An internal error occurred.'' (wd_resp w1)) = internalErrorJSON"
    using assms(5) by (simp add: unwritten_def internalErrorJSON_object)
  from assms(1,6) guard have "out = Returned" and w': "w' = update_resp (record_resp (rs_recorder (wd_resp w)))
      (log_context logger LevelInfo (rq_ctx r) ''HTTP request completed''
        (map (\<lambda>(k, v). (hd k, v)) (lr_attrs (completion r w ?w2))) ?w2)"
    by (simp_all add: logRequest_def Let_def completion_def unwritten_def)
  have attrs: "map (\<lambda>(k, v). ([k], v)) (map (\<lambda>(k, v). (hd k, v)) (lr_attrs (completion r w x))) = lr_attrs (completion r w x)"
    for x :: "'a world"
    by (simp add: completion_def)
  have same: "completion r w w' = completion r w ?w2"
    unfolding w' by (simp add: completion_def)
  have "enabled logger LevelInfo \<Longrightarrow> wd_log w' = wd_log w1
      @ Handle logger (rq_ctx r) \<lparr>lr_level = LevelError, lr_message = ''HTTP handler panicked'', lr_attrs = [([''stack''], AttrStack)]\<rparr>
      @ Handle logger (rq_ctx r) (completion r w w')"
    unfolding same unfolding w'
    by (simp add: log_context_def panic_log_enabled attrs) (simp add: completion_def)
  then show ?thesis
    using False \<open>out = Returned\<close> body by (simp add: WriteError_status w')
qed

theorem panic_is_contained_witness:
  "\<exists>w'. logRequest (Sink LevelInfo [] []) (recoverPanic (Sink LevelInfo [] []) (\<lambda>r w. (Panicked (PanicValue ''boom''), w)))
      (health_request ''/'') (fresh_world ()) = (Returned, w') \<and> rs_status (wd_resp w') = 500
    \<and> rs_body (wd_resp w') = internalErrorJSON"
proof -
  let ?h = "\<lambda>(r :: request) (w :: unit world). (Panicked (PanicValue ''boom''), w)"
  have behaves: "behaves {} ?h" by (simp add: behaves_def leaves_refl)
  obtain out w' where run: "logRequest (Sink LevelInfo [] []) (recoverPanic (Sink LevelInfo [] []) ?h)
      (health_request ''/'') (fresh_world ()) = (out, w')" by fastforce
  have fresh: "rs_broken (wd_resp (fresh_world ())) = None" "rs_body (wd_resp (fresh_world ())) = []"
    using unwritten_fresh(1) [of "()"] by (simp_all add: unwritten_def)
  from panic_is_contained [OF unwritten_fresh(1) behaves _ refl _ run] fresh run show ?thesis
    by (simp add: aborts_def)
qed

section \<open>Readiness\<close>

text \<open>The states between the checks of a run in which all of them pass.\<close>

definition all_pass :: "'s ReadinessCheck list \<Rightarrow> ctx \<Rightarrow> 's list \<Rightarrow> bool" where
  "all_pass checks c ss \<longleftrightarrow> length ss = length checks + 1
     \<and> (\<forall>i < length checks. (checks ! i) c (ss ! i) = (None, ss ! (i + 1)))"

lemma run_checks_pass:
  "run_checks checks c s = (None, s') \<Longrightarrow> \<exists>ss. all_pass checks c (s # ss) \<and> last (s # ss) = s'"
proof (induction checks arbitrary: s)
  case (Cons check checks)
  then obtain s1 where s1: "check c s = (None, s1)" "run_checks checks c s1 = (None, s')"
    by (auto split: prod.splits option.splits)
  from Cons.IH [OF s1(2)] obtain ss where "all_pass checks c (s1 # ss)" "last (s1 # ss) = s'" by blast
  with s1(1) show ?case
    by (intro exI [of _ "s1 # ss"]) (auto simp: all_pass_def nth_Cons split: nat.splits)
qed (auto simp: all_pass_def)

lemma run_checks_fail:
  "run_checks checks c s = (Some e, s') \<Longrightarrow>
    \<exists>passed check rest ss s1. checks = passed @ check # rest \<and> all_pass passed c (s # ss) \<and> last (s # ss) = s1
      \<and> check c s1 = (Some e, s')"
proof (induction checks arbitrary: s)
  case (Cons check checks)
  show ?case
  proof (cases "check c s")
    case (Pair r s1)
    show ?thesis
    proof (cases r)
      case (Some e')
      with Pair Cons.prems have "check c s = (Some e, s')" by simp
      then show ?thesis
        by (intro exI [of _ "[]"] exI [of _ check] exI [of _ checks]) (simp add: all_pass_def)
    next
      case None
      with Pair Cons.prems have "run_checks checks c s1 = (Some e, s')" by simp
      from Cons.IH [OF this] obtain passed check' rest ss s2
        where "checks = passed @ check' # rest" "all_pass passed c (s1 # ss)" "last (s1 # ss) = s2"
          "check' c s2 = (Some e, s')" by blast
      with Pair None show ?thesis
        by (intro exI [of _ "check # passed"] exI [of _ check'] exI [of _ rest] exI [of _ "s1 # ss"] exI [of _ s2])
          (auto simp: all_pass_def nth_Cons split: nat.splits)
    qed
  qed
qed simp

text \<open>
  C29. Readiness asks its checks in order, each with at most a second left for all of them
  together: either every check passes and the answer is 200, or the answer is the 503 of the first
  check that fails and no check behind it runs.
\<close>

theorem readiness_stops_at_failure:
  assumes "unwritten (wd_resp w)" "readiness checks r w = (out, w')"
    and "c = WithTimeout (wd_now w) (sint readinessCheckTimeout) (rq_ctx r)"
  shows "(\<exists>d \<le> wd_now w + 1000000000. ctx_deadline c = Some d) \<and> out = Returned
    \<and> ((\<exists>ss. all_pass checks c (wd_state w # ss) \<and> last (wd_state w # ss) = wd_state w'
          \<and> wd_resp w' = json_response 200 (JObj [(''status'', JStr ''ok'')]) (wd_resp w))
      \<or> (\<exists>passed check rest ss s1 e. checks = passed @ check # rest \<and> all_pass passed c (wd_state w # ss)
          \<and> last (wd_state w # ss) = s1 \<and> check c s1 = (Some e, wd_state w')
          \<and> wd_resp w' = json_response 503 (error_object ''not_ready'' ''Service is not ready.'') (wd_resp w)))"
proof -
  have bound: "\<exists>d \<le> wd_now w + 1000000000. ctx_deadline c = Some d"
    by (auto simp: assms(3) WithTimeout_def readinessCheckTimeout_def split: option.split)
  obtain e s' where run: "run_checks checks c (wd_state w) = (e, s')" by fastforce
  show ?thesis
  proof (cases e)
    case None
    with run assms(2,3) have "out = Returned" "wd_state w' = s'"
      "wd_resp w' = json_response 200 (JObj [(''status'', JStr ''ok'')]) (wd_resp w)"
      by (auto simp: readiness_response [OF assms(1)])
    with bound run_checks_pass [OF run [unfolded None]] show ?thesis by simp
  next
    case (Some err)
    with run assms(2,3) have "out = Returned" "wd_state w' = s'"
      "wd_resp w' = json_response 503 (error_object ''not_ready'' ''Service is not ready.'') (wd_resp w)"
      by (auto simp: readiness_response [OF assms(1)])
    note facts = this
    obtain passed check rest ss s1 where "checks = passed @ check # rest" "all_pass passed c (wd_state w # ss)"
      "last (wd_state w # ss) = s1" "check c s1 = (Some err, s')"
      using run_checks_fail [OF run [unfolded Some]] by (elim exE conjE)
    with facts show ?thesis
      by (intro conjI bound disjI2 exI [of _ passed] exI [of _ check] exI [of _ rest] exI [of _ ss] exI [of _ s1]
          exI [of _ err]) simp_all
  qed
qed

theorem readiness_stops_at_failure_witness:
  "rs_status (wd_resp (snd (readiness [\<lambda>c s. (Some (NewError ''down''), s), \<lambda>c s. (None, s + 1)]
     (health_request ''/health/ready'') (fresh_world (0 :: nat))))) \<in> {200, 503}"
proof -
  obtain out w' where run: "readiness [\<lambda>c s. (Some (NewError ''down''), s), \<lambda>c s. (None, s + 1)]
     (health_request ''/health/ready'') (fresh_world (0 :: nat)) = (out, w')" by fastforce
  from readiness_stops_at_failure [OF unwritten_fresh(1) run refl] run show ?thesis by auto
qed

section \<open>JSON on the wire\<close>

text \<open>
  C25. Responses can be read: whatever object a handler writes as a response body, a JSON reader of
  the client gets the same object back, with only the final newline behind it, under the status
  and the content type that announce it; and when the payload cannot be encoded the client gets
  the status 500 with an object of its own, and the handler is told.
\<close>

theorem written_json_reads_back:
  assumes "unwritten r" "0 < status" "status \<noteq> 204"
    and "case payload of Inl e \<Rightarrow> True | Inr j \<Rightarrow> (\<exists>kvs. j = JObj kvs) \<and> sendable j \<and> depth j \<le> max_depth"
    and "WriteJSON status (Some payload) r = (err, r')"
  shows "(case payload of
       Inr j \<Rightarrow> err = None \<and> rs_status r' = status \<and> read_value BeginValue [] (rs_body r') ErrEOF = Inr (j, newline)
     | Inl e \<Rightarrow> err = Some (Joined [Wrapped ''encode JSON response'' e]) \<and> rs_status r' = 500
         \<and> read_value BeginValue [] (rs_body r') ErrEOF
           = Inr (error_object ''internal_error'' ''An internal error occurred.'', newline))
    \<and> rs_sent r' ''Content-Type'' = Some ''application/json; charset=utf-8''"
proof (cases payload)
  case (Inr j)
  then obtain kvs where j: "j = JObj kvs" "sendable j" "depth j \<le> max_depth" using assms(4) by auto
  then have "read_value BeginValue [] (marshal j @ newline) ErrEOF = Inr (j, newline)"
    using read_value_marshal [of kvs newline ErrEOF] by (simp del: marshal.simps read_value.simps)
  then show ?thesis using assms(5) Inr
    by (auto simp: WriteJSON_unwritten [OF assms(1-3)] simp del: read_value.simps)
next
  case (Inl e)
  have "sendable (error_object ''internal_error'' ''An internal error occurred.'')"
    "depth (error_object ''internal_error'' ''An internal error occurred.'') \<le> max_depth"
    using valid_utf8_plain [of "''error''"] valid_utf8_plain [of "''code''"] valid_utf8_plain [of "''message''"]
      valid_utf8_plain [of "''internal_error''"] valid_utf8_plain [of "''An internal error occurred.''"]
    by (simp_all add: error_object_def max_depth_def plain_char_def del: valid_utf8.simps)
  then have "read_value BeginValue [] (marshal (error_object ''internal_error'' ''An internal error occurred.'') @ newline) ErrEOF
      = Inr (error_object ''internal_error'' ''An internal error occurred.'', newline)"
    unfolding error_object_def by (rule read_value_marshal)
  then show ?thesis using assms(5) Inl
    by (auto simp: WriteJSON_unencodable [OF assms(1,3)] simp del: read_value.simps)
qed

theorem written_json_reads_back_witness:
  "read_value BeginValue [] (rs_body (snd (WriteJSON 200 (Some (Inl (NewError ''loop''))) (wd_resp (fresh_world ()))))) ErrEOF
    = Inr (error_object ''internal_error'' ''An internal error occurred.'', newline)"
proof -
  obtain err r' where run: "WriteJSON 200 (Some (Inl (NewError ''loop''))) (wd_resp (fresh_world ())) = (err, r')"
    by fastforce
  from written_json_reads_back [OF unwritten_fresh(1) _ _ _ run] run show ?thesis
    by (simp del: read_value.simps)
qed

text \<open>
  C20. What the decoder accepts: exactly the bodies with a JSON content type that end within the
  limit and hold one value, with nothing but white space behind it, that fits the destination
  type, its unknown fields refused, and passes validation. A longer body is refused whatever its
  first value is.
\<close>

theorem decoder_accepts_exactly:
  assumes "rq_body r = (bs, ErrEOF)"
  shows "(\<exists>x. Decode d u r = Inr x) \<longleftrightarrow>
    isJSONContentType (rq_header r ''Content-Type'') \<and> int (length bs) \<le> sint (maxRequestBytes d)
    \<and> (\<exists>j rest x. read_value BeginValue [] bs ErrEOF = Inr (j, rest) \<and> list_all json_space rest \<and> u j = Inr x
         \<and> dec_validator d x = Valid)"
  using Decode_accepts [OF assms, of d u] by blast

theorem decoder_accepts_exactly_witness:
  "\<not> (\<exists>x. Decode \<lparr>maxRequestBytes = 1, dec_validator = (\<lambda>x. Valid)\<rparr> (\<lambda>j. Inr ())
     (health_request ''/''\<lparr>rq_body := (''{}'', ErrEOF)\<rparr>) = Inr x)"
  using decoder_accepts_exactly [of "health_request ''/''\<lparr>rq_body := (''{}'', ErrEOF)\<rparr>" "''{}''"
      "\<lparr>maxRequestBytes = 1, dec_validator = (\<lambda>x. Valid)\<rparr>" "\<lambda>j. Inr ()"]
  by simp

section \<open>The log\<close>

text \<open>
  C31. Every record logged with a request's context names the request, at any level and however
  many attributes and groups the logger was derived with: its level and message are as logged,
  and one of its attributes, below the groups of the logger, is the correlation identifier.
\<close>

theorem derived_loggers_name_the_request:
  assumes "NewLogHandler (Some h) = Inr logger" "ctx_request_id c \<noteq> []"
    and "out \<in> set (Handle (derive_all logger ds) c record)"
  shows "lr_level out = lr_level record \<and> lr_message out = lr_message record
    \<and> (\<exists>groups. (groups @ [''requestID''], AttrString (ctx_request_id c)) \<in> set (lr_attrs out))"
proof -
  have "logger = RequestIDHandler h" using assms(1) by (simp add: NewLogHandler_def)
  then obtain h' where "derive_all logger ds = RequestIDHandler h'" using derive_all_wrapped by blast
  with Handle_request_id [OF assms(2)] Handle_keeps assms(3) show ?thesis by metis
qed

theorem derived_loggers_name_the_request_witness:
  "list_all (\<lambda>out. \<exists>groups. (groups @ [''requestID''], AttrString ''abc'') \<in> set (lr_attrs out))
     (Handle (derive_all (RequestIDHandler (Sink LevelInfo [] [])) [DeriveGroup ''db'', DeriveAttrs []])
       (background\<lparr>ctx_request_id := ''abc''\<rparr>) \<lparr>lr_level = LevelInfo, lr_message = ''hi'', lr_attrs = []\<rparr>)"
  unfolding list_all_iff
  using derived_loggers_name_the_request [of "Sink LevelInfo [] []" _ "background\<lparr>ctx_request_id := ''abc''\<rparr>"]
  by (simp add: NewLogHandler_def)

end
