(* ===== verification/Go_Netip.thy ===== *)
theory Go_Netip
  imports Go_Strconv
begin

text \<open>
  Which texts \<open>netip.ParsePrefix\<close> accepts. Only the family of the address and whether it has a
  zone matter for that; the address itself is not kept.
\<close>

section \<open>Addresses\<close>

text \<open>
  The four fields of an IPv4 address: the value and the number of digits of the current field, the
  fields behind it, and whether the last character was a dot.
\<close>

fun ipv4_fields :: "nat \<Rightarrow> nat \<Rightarrow> nat \<Rightarrow> bool \<Rightarrow> gostring \<Rightarrow> bool" where
  "ipv4_fields val digLen pos at_start [] = (3 \<le> pos)"
| "ipv4_fields val digLen pos at_start (c # s) =
     (if is_digit c
      then (if digLen = 1 \<and> val = 0 then False
            else let val = val * 10 + digit_value c in
              if 255 < val then False else ipv4_fields val (digLen + 1) pos False s)
      else if c = CHR ''.''
      then (if at_start \<or> s = [] then False
            else if pos = 3 then False
            else ipv4_fields 0 0 (pos + 1) True s)
      else False)"

definition parseIPv4 :: "gostring \<Rightarrow> bool" where
  "parseIPv4 s = ipv4_fields 0 0 0 True s"

definition hex_value :: "char \<Rightarrow> nat option" where
  "hex_value c =
     (if is_digit c then Some (digit_value c)
      else if byte_of CHR ''a'' \<le> byte_of c \<and> byte_of c \<le> byte_of CHR ''f'' then Some (byte_of c - 87)
      else if byte_of CHR ''A'' \<le> byte_of c \<and> byte_of c \<le> byte_of CHR ''F'' then Some (byte_of c - 55)
      else None)"

text \<open>
  A group of hexadecimal digits, at most four of them: how many there are and what follows, or
  nothing when there are more.
\<close>

fun hex_group :: "nat \<Rightarrow> gostring \<Rightarrow> (nat \<times> gostring) option" where
  "hex_group off [] = Some (off, [])"
| "hex_group off (c # s) =
     (if hex_value c = None then Some (off, c # s)
      else if 3 < off then None
      else hex_group (off + 1) s)"

text \<open>
  The groups of an IPv6 address: how many more there is room for, whether \<open>::\<close> was seen, and the
  rest of the text. The result is the room left behind the text, with the mark for \<open>::\<close>.
\<close>

fun ipv6_groups :: "nat \<Rightarrow> bool \<Rightarrow> gostring \<Rightarrow> (nat \<times> bool) option" where
  "ipv6_groups 0 ellipsis s = (if s = [] then Some (0, ellipsis) else None)"
| "ipv6_groups (Suc n) ellipsis s =
     (case hex_group 0 s of
        None \<Rightarrow> None
      | Some (0, s1) \<Rightarrow> None
      | Some (Suc k, s1) \<Rightarrow>
          (if s1 \<noteq> [] \<and> hd s1 = CHR ''.''
           then (if \<not> ellipsis \<and> Suc n \<noteq> 2 then None
                 else if Suc n < 2 then None
                 else if parseIPv4 s then Some (n - 1, ellipsis) else None)
           else case s1 of
             [] \<Rightarrow> Some (n, ellipsis)
           | c # s2 \<Rightarrow>
               if c \<noteq> CHR '':'' then None
               else if s2 = [] then None
               else if hd s2 = CHR '':''
               then (if ellipsis then None
                     else if tl s2 = [] then Some (n, True)
                     else ipv6_groups n True (tl s2))
               else ipv6_groups n ellipsis s2))"

text \<open>The result tells whether the address has a zone.\<close>

definition parseIPv6 :: "gostring \<Rightarrow> bool option" where
  "parseIPv6 text =
     (let (s, zone, zoned) = Cut (CHR ''%'') text in
      if zoned \<and> zone = [] then None
      else let ellipsis = (take 2 s = ''::''); s = (if ellipsis then drop 2 s else s) in
        if ellipsis \<and> s = [] then Some zoned
        else case ipv6_groups 8 ellipsis s of
          None \<Rightarrow> None
        | Some (room, ellipsis) \<Rightarrow>
            if 0 < room \<and> \<not> ellipsis then None
            else if room = 0 \<and> ellipsis then None
            else Some zoned)"

datatype address = IPv4 | IPv6 bool

text \<open>The first of dot, colon and percent sign tells the family.\<close>

definition ParseAddr :: "gostring \<Rightarrow> address option" where
  "ParseAddr s =
     (case List.find (\<lambda>c. c = CHR ''.'' \<or> c = CHR '':'' \<or> c = CHR ''%'') s of
        None \<Rightarrow> None
      | Some c \<Rightarrow>
          if c = CHR ''.'' then (if parseIPv4 s then Some IPv4 else None)
          else if c = CHR '':'' then map_option IPv6 (parseIPv6 s)
          else None)"

section \<open>Prefixes\<close>

text \<open>The text before the last slash and the text behind it.\<close>

definition cut_last :: "char \<Rightarrow> gostring \<Rightarrow> (gostring \<times> gostring) option" where
  "cut_last c s =
     (if c \<in> set s
      then Some (rev (tl (dropWhile (\<lambda>x. x \<noteq> c) (rev s))), rev (takeWhile (\<lambda>x. x \<noteq> c) (rev s)))
      else None)"

definition ParsePrefix :: "gostring \<Rightarrow> bool" where
  "ParsePrefix s =
     (case cut_last (CHR ''/'') s of
        None \<Rightarrow> False
      | Some (ip, bits) \<Rightarrow>
          (case ParseAddr ip of
             None \<Rightarrow> False
           | Some addr \<Rightarrow>
               if addr = IPv6 True then False
               else if 1 < length bits \<and> (byte_of (hd bits) < byte_of CHR ''1'' \<or> byte_of CHR ''9'' < byte_of (hd bits))
               then False
               else case Atoi bits of
                 Inl err \<Rightarrow> False
               | Inr n \<Rightarrow> 0 \<le> n \<and> n \<le> (if addr = IPv4 then 32 else 128)))"

end
