(* ===== verification/Config.thy ===== *)
theory Config
  imports Go_Duration Go_Netip "HOL-Library.State_Monad"
begin

text \<open>
  Loading and validating the process configuration (\<open>internal/platform/config\<close>): the environment
  is a map from names to texts; a reader records the values it cannot parse and goes on with the
  fallback, in the order of the fields.
\<close>

section \<open>The configuration\<close>

record CORS =
  AllowedOrigins :: "gostring list"
  AllowCredentials :: bool

record ClientIP =
  Mode :: gostring
  TrustedHeader :: gostring
  TrustedProxyCIDRs :: "gostring list"
  TrustedProxyCount :: int64

record HTTP =
  Address :: gostring
  ReadHeaderTimeout :: duration
  ReadTimeout :: duration
  WriteTimeout :: duration
  IdleTimeout :: duration
  RequestTimeout :: duration
  MaxRequestBytes :: int64
  HTTP_CORS :: CORS
  HTTP_ClientIP :: ClientIP

record Database =
  URL :: gostring
  MaxConnections :: int32
  MinConnections :: int32
  MaxConnLifetime :: duration
  MaxConnIdleTime :: duration
  StatementTimeout :: duration

record Config =
  Environment :: gostring
  Config_HTTP :: HTTP
  Config_Database :: Database
  ShutdownDrainDelay :: duration
  ShutdownTimeout :: duration

abbreviation seconds :: "int \<Rightarrow> duration" where
  "seconds n \<equiv> word_of_int (n * 1000000000)"

section \<open>Reading the environment\<close>

type_synonym env = "gostring \<rightharpoonup> gostring"

text \<open>The reader's state is the list of its errors.\<close>

type_synonym 'a envReader = "(gerror list, 'a) state"

definition Env_Text :: "env \<Rightarrow> gostring \<Rightarrow> gostring \<Rightarrow> gostring envReader" where
  "Env_Text env key fallback = State_Monad.return (case env key of Some v \<Rightarrow> v | None \<Rightarrow> fallback)"

definition parseEnv :: "env \<Rightarrow> gostring \<Rightarrow> 'a \<Rightarrow> gostring \<Rightarrow> (gostring \<Rightarrow> gerror + 'a) \<Rightarrow> 'a envReader" where
  "parseEnv env key fallback kind parse =
     State (\<lambda>errs. case env key of
         None \<Rightarrow> (fallback, errs)
       | Some v \<Rightarrow>
           (case parse v of
              Inl err \<Rightarrow> (fallback, errs @ [NewError (key @ '' is not a valid '' @ kind)])
            | Inr parsed \<Rightarrow> (parsed, errs)))"

definition Env_Duration :: "env \<Rightarrow> gostring \<Rightarrow> duration \<Rightarrow> duration envReader" where
  "Env_Duration env key fallback = parseEnv env key fallback ''duration'' ParseDuration"

definition Env_Int :: "env \<Rightarrow> gostring \<Rightarrow> int64 \<Rightarrow> int64 envReader" where
  "Env_Int env key fallback = parseEnv env key fallback ''integer'' (map_sum id word_of_int \<circ> Atoi)"

definition Env_Int32 :: "env \<Rightarrow> gostring \<Rightarrow> int32 \<Rightarrow> int32 envReader" where
  "Env_Int32 env key fallback = parseEnv env key fallback ''32-bit integer'' (map_sum id word_of_int \<circ> ParseInt 32)"

definition Env_Int64 :: "env \<Rightarrow> gostring \<Rightarrow> int64 \<Rightarrow> int64 envReader" where
  "Env_Int64 env key fallback = parseEnv env key fallback ''64-bit integer'' (map_sum id word_of_int \<circ> ParseInt 64)"

definition Env_Bool :: "env \<Rightarrow> gostring \<Rightarrow> bool \<Rightarrow> bool envReader" where
  "Env_Bool env key fallback = parseEnv env key fallback ''boolean'' ParseBool"

definition Env_List :: "env \<Rightarrow> gostring \<Rightarrow> gostring list envReader" where
  "Env_List env key =
     (let v = TrimSpace (case env key of Some v \<Rightarrow> v | None \<Rightarrow> []) in
      State_Monad.return (if v = [] then [] else filter (\<lambda>t. t \<noteq> []) (map TrimSpace (Split (CHR '','') v))))"

definition read_cors :: "env \<Rightarrow> CORS envReader" where
  "read_cors env = do {
     origins \<leftarrow> Env_List env ''HTTP_CORS_ALLOWED_ORIGINS'';
     credentials \<leftarrow> Env_Bool env ''HTTP_CORS_ALLOW_CREDENTIALS'' False;
     State_Monad.return \<lparr>AllowedOrigins = origins, AllowCredentials = credentials\<rparr>
   }"

definition read_client_ip :: "env \<Rightarrow> ClientIP envReader" where
  "read_client_ip env = do {
     mode \<leftarrow> Env_Text env ''HTTP_CLIENT_IP_MODE'' ''remote'';
     header \<leftarrow> Env_Text env ''HTTP_CLIENT_IP_HEADER'' ''X-Real-IP'';
     cidrs \<leftarrow> Env_List env ''HTTP_TRUSTED_PROXY_CIDRS'';
     count \<leftarrow> Env_Int env ''HTTP_TRUSTED_PROXY_COUNT'' 1;
     State_Monad.return \<lparr>Mode = mode, TrustedHeader = header, TrustedProxyCIDRs = cidrs, TrustedProxyCount = count\<rparr>
   }"

definition read_http :: "env \<Rightarrow> HTTP envReader" where
  "read_http env = do {
     address \<leftarrow> Env_Text env ''HTTP_ADDR'' '':8080'';
     readHeader \<leftarrow> Env_Duration env ''HTTP_READ_HEADER_TIMEOUT'' (seconds 5);
     readTimeout \<leftarrow> Env_Duration env ''HTTP_READ_TIMEOUT'' (seconds 15);
     write \<leftarrow> Env_Duration env ''HTTP_WRITE_TIMEOUT'' (seconds 30);
     idle \<leftarrow> Env_Duration env ''HTTP_IDLE_TIMEOUT'' (seconds 60);
     request \<leftarrow> Env_Duration env ''HTTP_REQUEST_TIMEOUT'' (seconds 10);
     maxBytes \<leftarrow> Env_Int64 env ''HTTP_MAX_REQUEST_BYTES'' 1048576;
     cors \<leftarrow> read_cors env;
     clientIP \<leftarrow> read_client_ip env;
     State_Monad.return \<lparr>Address = address, ReadHeaderTimeout = readHeader, ReadTimeout = readTimeout,
       WriteTimeout = write, IdleTimeout = idle, RequestTimeout = request, MaxRequestBytes = maxBytes,
       HTTP_CORS = cors, HTTP_ClientIP = clientIP\<rparr>
   }"

definition read_database :: "env \<Rightarrow> Database envReader" where
  "read_database env = do {
     url \<leftarrow> Env_Text env ''DATABASE_URL'' [];
     maxConns \<leftarrow> Env_Int32 env ''DB_MAX_CONNS'' 10;
     minConns \<leftarrow> Env_Int32 env ''DB_MIN_CONNS'' 2;
     lifetime \<leftarrow> Env_Duration env ''DB_MAX_CONN_LIFETIME'' (seconds (30 * 60));
     idle \<leftarrow> Env_Duration env ''DB_MAX_CONN_IDLE_TIME'' (seconds (5 * 60));
     statement \<leftarrow> Env_Duration env ''DB_STATEMENT_TIMEOUT'' (seconds 5);
     State_Monad.return \<lparr>URL = url, MaxConnections = maxConns, MinConnections = minConns, MaxConnLifetime = lifetime,
       MaxConnIdleTime = idle, StatementTimeout = statement\<rparr>
   }"

definition read_config :: "env \<Rightarrow> Config envReader" where
  "read_config env = do {
     environment \<leftarrow> Env_Text env ''APP_ENV'' ''development'';
     http \<leftarrow> read_http env;
     database \<leftarrow> read_database env;
     drainDelay \<leftarrow> Env_Duration env ''SHUTDOWN_DRAIN_DELAY'' (seconds 5);
     shutdown \<leftarrow> Env_Duration env ''SHUTDOWN_TIMEOUT'' (seconds 10);
     State_Monad.return \<lparr>Environment = environment, Config_HTTP = http, Config_Database = database,
       ShutdownDrainDelay = drainDelay, ShutdownTimeout = shutdown\<rparr>
   }"

section \<open>Validation\<close>

definition millisecond :: int where
  "millisecond = 1000000"

text \<open>\<open>errs = append(errs, errors.New(text))\<close> under a condition.\<close>

definition complain :: "bool \<Rightarrow> gostring \<Rightarrow> gerror list" where
  "complain wrong message = (if wrong then [NewError message] else [])"

text \<open>
  The checks of the client address, by its mode. The prefix stands in the message as it is; the
  quoting of the format directive is left out.
\<close>

definition validate_client_ip :: "ClientIP \<Rightarrow> gerror list" where
  "validate_client_ip c =
     (if Mode c = ''remote'' then []
      else if Mode c = ''header'' then
        complain (TrustedHeader c = []) ''HTTP_CLIENT_IP_HEADER must not be empty in header mode''
      else if Mode c = ''xff-cidrs'' then
        complain (length (TrustedProxyCIDRs c) = 0) ''HTTP_TRUSTED_PROXY_CIDRS must not be empty in xff-cidrs mode''
        @ concat (map (\<lambda>prefix. complain (\<not> ParsePrefix prefix)
            (''HTTP_TRUSTED_PROXY_CIDRS contains invalid prefix '' @ prefix)) (TrustedProxyCIDRs c))
      else if Mode c = ''xff-count'' then
        complain (sint (TrustedProxyCount c) < 1) ''HTTP_TRUSTED_PROXY_COUNT must be at least 1 in xff-count mode''
      else [NewError ''HTTP_CLIENT_IP_MODE must be one of remote, header, xff-cidrs, or xff-count''])"

definition validate_http :: "HTTP \<Rightarrow> gerror list" where
  "validate_http h =
     complain (Address h = []) ''HTTP_ADDR must not be empty''
     @ complain (sint (ReadHeaderTimeout h) \<le> 0) ''HTTP_READ_HEADER_TIMEOUT must be a positive duration''
     @ complain (sint (ReadTimeout h) \<le> 0) ''HTTP_READ_TIMEOUT must be a positive duration''
     @ complain (sint (WriteTimeout h) \<le> 0) ''HTTP_WRITE_TIMEOUT must be a positive duration''
     @ complain (sint (IdleTimeout h) \<le> 0) ''HTTP_IDLE_TIMEOUT must be a positive duration''
     @ complain (sint (RequestTimeout h) \<le> 0) ''HTTP_REQUEST_TIMEOUT must be a positive duration''
     @ complain (0 < sint (RequestTimeout h) \<and> 0 < sint (WriteTimeout h) \<and> sint (WriteTimeout h) \<le> sint (RequestTimeout h))
         ''HTTP_REQUEST_TIMEOUT must be shorter than HTTP_WRITE_TIMEOUT''
     @ complain (sint (MaxRequestBytes h) < 1) ''HTTP_MAX_REQUEST_BYTES must be at least 1''
     @ complain (AllowCredentials (HTTP_CORS h) \<and> ''*'' \<in> set (AllowedOrigins (HTTP_CORS h)))
         ''HTTP_CORS_ALLOWED_ORIGINS must not contain * when credentials are allowed''
     @ validate_client_ip (HTTP_ClientIP h)"

definition validate_database :: "HTTP \<Rightarrow> Database \<Rightarrow> gerror list" where
  "validate_database h d =
     complain (URL d = []) ''DATABASE_URL must not be empty''
     @ complain (sint (MaxConnections d) < 1) ''DB_MAX_CONNS must be at least 1''
     @ complain (sint (MinConnections d) < 0) ''DB_MIN_CONNS must not be negative''
     @ complain (sint (MaxConnections d) < sint (MinConnections d)) ''DB_MIN_CONNS must not exceed DB_MAX_CONNS''
     @ complain (sint (MaxConnLifetime d) \<le> 0) ''DB_MAX_CONN_LIFETIME must be a positive duration''
     @ complain (sint (MaxConnIdleTime d) \<le> 0) ''DB_MAX_CONN_IDLE_TIME must be a positive duration''
     @ complain (sint (StatementTimeout d) < millisecond) ''DB_STATEMENT_TIMEOUT must be at least 1ms''
     @ complain (millisecond \<le> sint (StatementTimeout d) \<and> 0 < sint (RequestTimeout h)
           \<and> sint (RequestTimeout h) < sint (StatementTimeout d))
         ''DB_STATEMENT_TIMEOUT must not exceed HTTP_REQUEST_TIMEOUT''"

definition config_validate :: "Config \<Rightarrow> gerror option" where
  "config_validate cfg = errors_Join
     (validate_http (Config_HTTP cfg) @ validate_database (Config_HTTP cfg) (Config_Database cfg)
      @ complain (sint (ShutdownDrainDelay cfg) < 0) ''SHUTDOWN_DRAIN_DELAY must not be negative''
      @ complain (sint (ShutdownTimeout cfg) \<le> 0) ''SHUTDOWN_TIMEOUT must be positive'')"

section \<open>Loading\<close>

definition Load :: "env \<Rightarrow> gerror + Config" where
  "Load env =
     (case run_state (read_config env) [] of
        (cfg, errs) \<Rightarrow>
          (case errors_Join errs of
             Some err \<Rightarrow> Inl err
           | None \<Rightarrow> (case config_validate cfg of Some err \<Rightarrow> Inl err | None \<Rightarrow> Inr cfg)))"

definition config_String :: "Config \<Rightarrow> gostring" where
  "config_String cfg = ''environment='' @ Environment cfg @ '' httpAddress='' @ Address (Config_HTTP cfg)"

section \<open>What a valid configuration is\<close>

fun valid_client_ip :: "ClientIP \<Rightarrow> bool" where
  "valid_client_ip c \<longleftrightarrow> Mode c = ''remote''
     \<or> Mode c = ''header'' \<and> TrustedHeader c \<noteq> []
     \<or> Mode c = ''xff-cidrs'' \<and> TrustedProxyCIDRs c \<noteq> [] \<and> (\<forall>p \<in> set (TrustedProxyCIDRs c). ParsePrefix p)
     \<or> Mode c = ''xff-count'' \<and> 1 \<le> sint (TrustedProxyCount c)"

definition valid_http :: "HTTP \<Rightarrow> bool" where
  "valid_http h \<longleftrightarrow> Address h \<noteq> []
     \<and> (\<forall>d \<in> {ReadHeaderTimeout h, ReadTimeout h, WriteTimeout h, IdleTimeout h, RequestTimeout h}. 0 < sint d)
     \<and> sint (RequestTimeout h) < sint (WriteTimeout h) \<and> 1 \<le> sint (MaxRequestBytes h)
     \<and> \<not> (AllowCredentials (HTTP_CORS h) \<and> ''*'' \<in> set (AllowedOrigins (HTTP_CORS h)))
     \<and> valid_client_ip (HTTP_ClientIP h)"

definition valid_database :: "Database \<Rightarrow> bool" where
  "valid_database d \<longleftrightarrow> URL d \<noteq> [] \<and> 1 \<le> sint (MaxConnections d) \<and> 0 \<le> sint (MinConnections d)
     \<and> sint (MinConnections d) \<le> sint (MaxConnections d)
     \<and> 0 < sint (MaxConnLifetime d) \<and> 0 < sint (MaxConnIdleTime d) \<and> millisecond \<le> sint (StatementTimeout d)"

definition valid_config :: "Config \<Rightarrow> bool" where
  "valid_config cfg \<longleftrightarrow> valid_http (Config_HTTP cfg) \<and> valid_database (Config_Database cfg)
     \<and> sint (StatementTimeout (Config_Database cfg)) \<le> sint (RequestTimeout (Config_HTTP cfg))
     \<and> 0 \<le> sint (ShutdownDrainDelay cfg) \<and> 0 < sint (ShutdownTimeout cfg)"

lemma complain_empty [simp]: "complain wrong message = [] \<longleftrightarrow> \<not> wrong"
  by (simp add: complain_def)

lemma errors_Join_None [simp]: "errors_Join es = None \<longleftrightarrow> es = []"
  by (simp add: errors_Join_def)

lemma validate_client_ip_iff: "validate_client_ip c = [] \<longleftrightarrow> valid_client_ip c"
  by (auto simp: validate_client_ip_def)

lemma validate_http_iff: "validate_http h = [] \<longleftrightarrow> valid_http h"
  by (auto simp: validate_http_def valid_http_def validate_client_ip_iff not_le not_less)

lemma validate_iff: "config_validate cfg = None \<longleftrightarrow> valid_config cfg"
proof -
  have "validate_database h d = [] \<longleftrightarrow> valid_database d \<and> sint (StatementTimeout d) \<le> sint (RequestTimeout h)"
    if "valid_http h" for h d
    using that by (auto simp: validate_database_def valid_database_def valid_http_def millisecond_def)
  then show ?thesis
    by (auto simp: config_validate_def valid_config_def validate_http_iff not_less)
qed

section \<open>Reading, one variable at a time\<close>

text \<open>The value of one variable on its own, and the complaint it gives rise to.\<close>

definition setting :: "env \<Rightarrow> gostring \<Rightarrow> 'a \<Rightarrow> (gostring \<Rightarrow> gerror + 'a) \<Rightarrow> 'a" where
  "setting env key fallback parse = (case env key of
       None \<Rightarrow> fallback
     | Some v \<Rightarrow> (case parse v of Inl err \<Rightarrow> fallback | Inr x \<Rightarrow> x))"

type_synonym typed_variable = "gostring \<times> gostring \<times> (gostring \<Rightarrow> bool)"

fun unparsable :: "env \<Rightarrow> typed_variable \<Rightarrow> bool" where
  "unparsable env (key, kind, ok) \<longleftrightarrow> (case env key of None \<Rightarrow> False | Some v \<Rightarrow> \<not> ok v)"

fun complaint :: "typed_variable \<Rightarrow> gerror" where
  "complaint (key, kind, ok) = NewError (key @ '' is not a valid '' @ kind)"

definition accepts :: "(gostring \<Rightarrow> gerror + 'a) \<Rightarrow> gostring \<Rightarrow> bool" where
  "accepts parse v \<longleftrightarrow> \<not> isl (parse v)"

definition typed_variables :: "typed_variable list" where
  "typed_variables =
     [(''HTTP_READ_HEADER_TIMEOUT'', ''duration'', accepts ParseDuration),
      (''HTTP_READ_TIMEOUT'', ''duration'', accepts ParseDuration),
      (''HTTP_WRITE_TIMEOUT'', ''duration'', accepts ParseDuration),
      (''HTTP_IDLE_TIMEOUT'', ''duration'', accepts ParseDuration),
      (''HTTP_REQUEST_TIMEOUT'', ''duration'', accepts ParseDuration),
      (''HTTP_MAX_REQUEST_BYTES'', ''64-bit integer'', accepts (ParseInt 64)),
      (''HTTP_CORS_ALLOW_CREDENTIALS'', ''boolean'', accepts ParseBool),
      (''HTTP_TRUSTED_PROXY_COUNT'', ''integer'', accepts Atoi),
      (''DB_MAX_CONNS'', ''32-bit integer'', accepts (ParseInt 32)),
      (''DB_MIN_CONNS'', ''32-bit integer'', accepts (ParseInt 32)),
      (''DB_MAX_CONN_LIFETIME'', ''duration'', accepts ParseDuration),
      (''DB_MAX_CONN_IDLE_TIME'', ''duration'', accepts ParseDuration),
      (''DB_STATEMENT_TIMEOUT'', ''duration'', accepts ParseDuration),
      (''SHUTDOWN_DRAIN_DELAY'', ''duration'', accepts ParseDuration),
      (''SHUTDOWN_TIMEOUT'', ''duration'', accepts ParseDuration)]"

abbreviation text_setting :: "env \<Rightarrow> gostring \<Rightarrow> gostring \<Rightarrow> gostring" where
  "text_setting env key fallback \<equiv> (case env key of None \<Rightarrow> fallback | Some v \<Rightarrow> v)"

definition list_setting :: "env \<Rightarrow> gostring \<Rightarrow> gostring list" where
  "list_setting env key = filter (\<lambda>t. t \<noteq> []) (map TrimSpace (Split (CHR '','') (TrimSpace (text_setting env key []))))"

abbreviation duration_setting :: "env \<Rightarrow> gostring \<Rightarrow> int \<Rightarrow> duration" where
  "duration_setting env key n \<equiv> setting env key (seconds n) ParseDuration"

definition http_settings :: "env \<Rightarrow> HTTP" where
  "http_settings env =
     \<lparr>Address = text_setting env ''HTTP_ADDR'' '':8080'',
      ReadHeaderTimeout = duration_setting env ''HTTP_READ_HEADER_TIMEOUT'' 5,
      ReadTimeout = duration_setting env ''HTTP_READ_TIMEOUT'' 15,
      WriteTimeout = duration_setting env ''HTTP_WRITE_TIMEOUT'' 30,
      IdleTimeout = duration_setting env ''HTTP_IDLE_TIMEOUT'' 60,
      RequestTimeout = duration_setting env ''HTTP_REQUEST_TIMEOUT'' 10,
      MaxRequestBytes = word_of_int (setting env ''HTTP_MAX_REQUEST_BYTES'' 1048576 (ParseInt 64)),
      HTTP_CORS = \<lparr>AllowedOrigins = list_setting env ''HTTP_CORS_ALLOWED_ORIGINS'',
        AllowCredentials = setting env ''HTTP_CORS_ALLOW_CREDENTIALS'' False ParseBool\<rparr>,
      HTTP_ClientIP = \<lparr>Mode = text_setting env ''HTTP_CLIENT_IP_MODE'' ''remote'',
        TrustedHeader = text_setting env ''HTTP_CLIENT_IP_HEADER'' ''X-Real-IP'',
        TrustedProxyCIDRs = list_setting env ''HTTP_TRUSTED_PROXY_CIDRS'',
        TrustedProxyCount = word_of_int (setting env ''HTTP_TRUSTED_PROXY_COUNT'' 1 Atoi)\<rparr>\<rparr>"

definition database_settings :: "env \<Rightarrow> Database" where
  "database_settings env =
     \<lparr>URL = text_setting env ''DATABASE_URL'' [],
      MaxConnections = word_of_int (setting env ''DB_MAX_CONNS'' 10 (ParseInt 32)),
      MinConnections = word_of_int (setting env ''DB_MIN_CONNS'' 2 (ParseInt 32)),
      MaxConnLifetime = duration_setting env ''DB_MAX_CONN_LIFETIME'' 1800,
      MaxConnIdleTime = duration_setting env ''DB_MAX_CONN_IDLE_TIME'' 300,
      StatementTimeout = duration_setting env ''DB_STATEMENT_TIMEOUT'' 5\<rparr>"

definition config_settings :: "env \<Rightarrow> Config" where
  "config_settings env =
     \<lparr>Environment = text_setting env ''APP_ENV'' ''development'', Config_HTTP = http_settings env,
      Config_Database = database_settings env,
      ShutdownDrainDelay = duration_setting env ''SHUTDOWN_DRAIN_DELAY'' 5,
      ShutdownTimeout = duration_setting env ''SHUTDOWN_TIMEOUT'' 10\<rparr>"

named_theorems reading \<open>how a reader runs\<close>

lemma run_bind [reading]: "run_state (State_Monad.bind m f) es = (case run_state m es of (x, es') \<Rightarrow> run_state (f x) es')"
  by (simp add: State_Monad.bind_def)

lemma run_parseEnv [reading]:
  "run_state (parseEnv env key fallback kind parse) es =
    (setting env key fallback parse, es @ map complaint (filter (unparsable env) [(key, kind, accepts parse)]))"
  by (auto simp: parseEnv_def setting_def accepts_def split: option.split sum.split)

lemma run_Text [reading]: "run_state (Env_Text env key fallback) es = (text_setting env key fallback, es)"
  by (simp add: Env_Text_def)

lemma TrimSpace_Nil: "TrimSpace [] = []"
  by code_simp

lemma run_List [reading]: "run_state (Env_List env key) es = (list_setting env key, es)"
  by (auto simp: Env_List_def Let_def list_setting_def TrimSpace_Nil)

lemma accepts_map [simp]: "accepts (map_sum id f \<circ> parse) = accepts parse"
  by (rule ext) (simp add: accepts_def isl_map_sum)

lemmas env_readers = Env_Duration_def Env_Int_def Env_Int32_def Env_Int64_def Env_Bool_def

lemma complaints_split:
  "map complaint (filter P (x # y # xs)) = map complaint (filter P [x]) @ map complaint (filter P (y # xs))"
  by simp

text \<open>The reader as a whole: every setting on its own, and the complaints in the order of the table.\<close>

lemma run_read_config:
  "run_state (read_config env) [] = (config_settings env, map complaint (filter (unparsable env) typed_variables))"
proof -
  have num: "setting env key 1048576 (map_sum id word_of_int \<circ> p) = (word_of_int (setting env key 1048576 p) :: int64)"
    "setting env key 1 (map_sum id word_of_int \<circ> p) = (word_of_int (setting env key 1 p) :: int64)"
    "setting env key 10 (map_sum id word_of_int \<circ> p) = (word_of_int (setting env key 10 p) :: int32)"
    "setting env key 2 (map_sum id word_of_int \<circ> p) = (word_of_int (setting env key 2 p) :: int32)"
    for key p
    by (simp_all add: setting_def split: option.split sum.split)
  have minutes: "30 * 60 = (1800 :: int)" "5 * 60 = (300 :: int)" by simp_all
  show ?thesis
    by (simp only: minutes read_config_def read_http_def read_cors_def read_client_ip_def read_database_def env_readers
        reading case_prod_conv State_Monad.run_state_return append_assoc accepts_map num
        config_settings_def http_settings_def database_settings_def typed_variables_def
        complaints_split append_Nil)
qed

end
