(* ===== verification/Config_Properties.thy ===== *)
theory Config_Properties
  imports Config
begin

text \<open>
  The properties of the configuration: what loading answers for every environment, the bounds a
  loaded configuration meets, and the defaults.
\<close>

text \<open>
  C12. Loading is exactly this, for every environment: the variables that cannot be parsed are
  reported, all of them, alone and in the order of the fields; without such a variable the
  configuration is read setting by setting and returned when it is valid; and otherwise it is
  refused with at least one violation. Validity is what the code's checks together say.
\<close>

theorem load_is_per_setting:
  "Load env =
    (let bad = filter (unparsable env) typed_variables; cfg = config_settings env in
     if bad \<noteq> [] then Inl (Joined (map complaint bad))
     else if valid_config cfg then Inr cfg
     else Inl (the (config_validate cfg)))"
  using validate_iff [of "config_settings env"]
  by (auto simp: Load_def run_read_config Let_def errors_Join_def split: option.split)

definition only_database :: "gostring \<Rightarrow> env" where
  "only_database url = Map.empty(''DATABASE_URL'' \<mapsto> url)"

lemma nothing_unparsable: "filter (unparsable (only_database url)) typed_variables = []"
  by (simp add: typed_variables_def only_database_def)

text \<open>The defaults, as the documentation of the program lists them.\<close>

definition default_config :: "gostring \<Rightarrow> Config" where
  "default_config url =
     \<lparr>Environment = ''development'',
      Config_HTTP = \<lparr>Address = '':8080'', ReadHeaderTimeout = seconds 5, ReadTimeout = seconds 15, WriteTimeout = seconds 30,
        IdleTimeout = seconds 60, RequestTimeout = seconds 10, MaxRequestBytes = 1048576,
        HTTP_CORS = \<lparr>AllowedOrigins = [], AllowCredentials = False\<rparr>,
        HTTP_ClientIP = \<lparr>Mode = ''remote'', TrustedHeader = ''X-Real-IP'', TrustedProxyCIDRs = [], TrustedProxyCount = 1\<rparr>\<rparr>,
      Config_Database = \<lparr>URL = url, MaxConnections = 10, MinConnections = 2, MaxConnLifetime = seconds 1800,
        MaxConnIdleTime = seconds 300, StatementTimeout = seconds 5\<rparr>,
      ShutdownDrainDelay = seconds 5, ShutdownTimeout = seconds 10\<rparr>"

lemma default_settings: "config_settings (only_database url) = default_config url"
  by (simp add: config_settings_def http_settings_def database_settings_def list_setting_def setting_def
      only_database_def TrimSpace_Nil default_config_def)

lemma default_valid: "valid_config (default_config url) \<longleftrightarrow> url \<noteq> []"
  by (simp add: default_config_def valid_config_def valid_http_def valid_database_def millisecond_def)

text \<open>
  C40. The defaults work: with the database URL alone the process gets the default configuration,
  and without it the one thing that is reported is the missing URL.
\<close>

theorem defaults_need_only_the_database:
  "Load (only_database url) =
    (if url = [] then Inl (Joined [NewError ''DATABASE_URL must not be empty'']) else Inr (default_config url))"
proof (cases "url = []")
  case True
  have "config_validate (default_config []) = Some (Joined [NewError ''DATABASE_URL must not be empty''])"
    by (simp add: config_validate_def validate_http_def validate_database_def validate_client_ip_def default_config_def
        complain_def millisecond_def errors_Join_def)
  with True show ?thesis
    by (simp add: Load_def run_read_config nothing_unparsable default_settings errors_Join_def)
next
  case False
  with default_valid have "config_validate (default_config url) = None" by (simp add: validate_iff)
  with False show ?thesis
    by (simp add: Load_def run_read_config nothing_unparsable default_settings errors_Join_def)
qed

lemma loaded_valid: "Load env = Inr cfg \<Longrightarrow> valid_config cfg"
  by (auto simp: Load_def validate_iff split: prod.splits option.splits)

lemma valid_statement_timeout:
  assumes "valid_config cfg"
  shows "1000000 \<le> sint (StatementTimeout (Config_Database cfg))" "1 \<le> Milliseconds (StatementTimeout (Config_Database cfg))"
proof -
  show ms: "1000000 \<le> sint (StatementTimeout (Config_Database cfg))"
    using assms by (simp add: valid_config_def valid_database_def millisecond_def)
  then show "1 \<le> Milliseconds (StatementTimeout (Config_Database cfg))"
    using zdiv_mono1 [of 1000000 "sint (StatementTimeout (Config_Database cfg))" 1000000] by (simp add: Milliseconds_def)
qed

text \<open>
  C13. What the rest of the program can rely on in a configuration that was loaded: every timeout
  is positive; a statement ends within its request and a request before the write timeout that
  would cut off its answer; the statement timeout is at least one whole millisecond, so that
  PostgreSQL does not read it as no limit; the pool and the request size are at least 1; and
  credentials are never combined with the wildcard origin.
\<close>

theorem loaded_configuration_bounds:
  assumes "Load env = Inr cfg" "h = Config_HTTP cfg" "d = Config_Database cfg"
  shows "0 < sint (StatementTimeout d) \<and> sint (StatementTimeout d) \<le> sint (RequestTimeout h)
    \<and> sint (RequestTimeout h) < sint (WriteTimeout h)
    \<and> 1 \<le> Milliseconds (StatementTimeout d)
    \<and> (\<forall>t \<in> {ReadHeaderTimeout h, ReadTimeout h, IdleTimeout h, MaxConnLifetime d, MaxConnIdleTime d, ShutdownTimeout cfg}. 0 < sint t)
    \<and> 0 \<le> sint (ShutdownDrainDelay cfg) \<and> 1 \<le> sint (MaxRequestBytes h)
    \<and> 0 \<le> sint (MinConnections d) \<and> sint (MinConnections d) \<le> sint (MaxConnections d) \<and> 1 \<le> sint (MaxConnections d)
    \<and> \<not> (AllowCredentials (HTTP_CORS h) \<and> ''*'' \<in> set (AllowedOrigins (HTTP_CORS h)))
    \<and> URL d \<noteq> [] \<and> valid_client_ip (HTTP_ClientIP h)"
proof -
  have valid: "valid_config cfg" by (rule loaded_valid [OF assms(1)])
  from valid valid_statement_timeout [OF valid] show ?thesis
    by (simp add: valid_config_def valid_http_def valid_database_def assms(2,3) del: valid_client_ip.simps)
qed

lemma default_loads: "Load (only_database ''postgres://db'') = Inr (default_config ''postgres://db'')"
  using default_valid [of "''postgres://db''"]
  by (simp add: Load_def run_read_config nothing_unparsable default_settings errors_Join_def validate_iff
      split: option.split)

theorem loaded_configuration_bounds_witness:
  "\<exists>cfg. Load (only_database ''postgres://db'') = Inr cfg \<and> 1 \<le> Milliseconds (StatementTimeout (Config_Database cfg))"
  using default_loads loaded_configuration_bounds [OF default_loads refl refl] by blast

end
