(* ===== verification/Database.thy ===== *)
theory Database
  imports Config Http Widget_Dbgen
begin

text \<open>
  The database infrastructure (\<open>internal/platform/database\<close>): opening and verifying the connection
  pool, and one migration run. The driver, its pool and the migration library are parameters.
\<close>

section \<open>The pool\<close>

text \<open>A pool of connections, as far as the program uses it.\<close>

record 's pool =
  pool_DBTX :: "'s DBTX"
  pool_Ping :: "ctx \<Rightarrow> 's \<Rightarrow> gerror option \<times> 's"
  pool_Close :: "'s \<Rightarrow> 's"

text \<open>
  The configuration of a pool: the settings the program makes and the parameters sent to the
  server with a new connection, beside the address and credentials parsed from the URL.
\<close>

record 'c pool_config =
  pc_MaxConns :: int32
  pc_MinConns :: int32
  pc_MaxConnLifetime :: duration
  pc_MaxConnIdleTime :: duration
  pc_HealthCheckPeriod :: duration
  pc_RuntimeParams :: "gostring \<rightharpoonup> gostring"
  pc_Connection :: 'c

record ('s, 'c) pgxpool =
  pgxpool_ParseConfig :: "gostring \<Rightarrow> gerror + 'c pool_config"
  pgxpool_NewWithConfig :: "ctx \<Rightarrow> 'c pool_config \<Rightarrow> 's \<Rightarrow> (gerror + 's pool) \<times> 's"

definition poolHealthCheckPeriod :: duration where
  "poolHealthCheckPeriod = seconds 30"

definition startupPingTimeout :: duration where
  "startupPingTimeout = seconds 3"

definition configure_pool :: "Database \<Rightarrow> 'c pool_config \<Rightarrow> 'c pool_config" where
  "configure_pool cfg p = p\<lparr>pc_MaxConns := MaxConnections cfg, pc_MinConns := MinConnections cfg,
     pc_MaxConnLifetime := MaxConnLifetime cfg, pc_MaxConnIdleTime := MaxConnIdleTime cfg,
     pc_HealthCheckPeriod := poolHealthCheckPeriod,
     pc_RuntimeParams := (pc_RuntimeParams p)(''statement_timeout'' \<mapsto> FormatInt (Milliseconds (StatementTimeout cfg)))\<rparr>"

text \<open>\<open>Open\<close>, at the time \<open>now\<close>.\<close>

definition Open :: "('s, 'c) pgxpool \<Rightarrow> int \<Rightarrow> ctx \<Rightarrow> Database \<Rightarrow> 's \<Rightarrow> (gerror + 's pool) \<times> 's" where
  "Open lib now c cfg s =
     (case pgxpool_ParseConfig lib (URL cfg) of
        Inl err \<Rightarrow> (Inl (Wrapped ''parse database configuration'' err), s)
      | Inr poolConfig \<Rightarrow>
          (case pgxpool_NewWithConfig lib c (configure_pool cfg poolConfig) s of
             (Inl err, s) \<Rightarrow> (Inl (Wrapped ''create database pool'' err), s)
           | (Inr pool, s) \<Rightarrow>
               (case pool_Ping pool (WithTimeout now (sint startupPingTimeout) c) s of
                  (Some err, s) \<Rightarrow> (Inl (Wrapped ''ping database'' err), pool_Close pool s)
                | (None, s) \<Rightarrow> (Inr pool, s))))"

section \<open>Migrations\<close>

record MigrationOptions =
  LockTimeout :: duration
  Logger :: "slog_handler option"

text \<open>The result of one migration, by the version of its source.\<close>

record MigrationResult =
  Source_Version :: int64

record 'c conn_config =
  cc_RuntimeParams :: "gostring \<rightharpoonup> gostring"
  cc_Connection :: 'c

text \<open>
  The driver and the migration library. A failed run returns its results and the error, with the
  results of the partial error that \<open>errors.As\<close> finds in it, if there is one.
\<close>

record ('s, 'c, 'fs, 'd, 'p) goose =
  pgx_ParseConfig :: "gostring \<Rightarrow> gerror + 'c conn_config"
  stdlib_OpenDB :: "'c conn_config \<Rightarrow> 'd"
  goose_NewProvider :: "'d \<Rightarrow> 'fs \<Rightarrow> slog_handler option \<Rightarrow> 's \<Rightarrow> (gerror + 'p) \<times> 's"
  provider_Up :: "'p \<Rightarrow> ctx \<Rightarrow> 's \<Rightarrow> (MigrationResult list \<times> (gerror \<times> MigrationResult list option) option) \<times> 's"
  sql_Close :: "'d \<Rightarrow> 's \<Rightarrow> gerror option \<times> 's"

definition appliedVersions :: "MigrationResult list \<Rightarrow> int64 list" where
  "appliedVersions results = map Source_Version results"

definition closeMigrationDatabase ::
  "('s, 'c, 'fs, 'd, 'p) goose \<Rightarrow> 'd \<Rightarrow> 's \<Rightarrow> gerror option \<times> 's" where
  "closeMigrationDatabase lib db s =
     (case sql_Close lib db s of
        (Some err, s) \<Rightarrow> (Some (Wrapped ''close migration database'' err), s)
      | (None, s) \<Rightarrow> (None, s))"

definition migration_params :: "MigrationOptions \<Rightarrow> (gostring \<rightharpoonup> gostring) \<Rightarrow> gostring \<rightharpoonup> gostring" where
  "migration_params options params =
     (let params = params(''statement_timeout'' \<mapsto> ''0'') in
      if 0 < sint (LockTimeout options)
      then params(''lock_timeout'' \<mapsto> FormatInt (Milliseconds (LockTimeout options))) else params)"

definition join_close :: "gerror \<Rightarrow> gerror option \<times> 's \<Rightarrow> gerror option \<times> 's" where
  "join_close err closed = (errors_Join (err # (case fst closed of None \<Rightarrow> [] | Some e \<Rightarrow> [e])), snd closed)"

definition Migrate ::
  "('s, 'c, 'fs, 'd, 'p) goose \<Rightarrow> ctx \<Rightarrow> gostring \<Rightarrow> 'fs \<Rightarrow> MigrationOptions \<Rightarrow> 's \<Rightarrow> (int64 list \<times> gerror option) \<times> 's" where
  "Migrate lib c databaseURL migrations options s =
     (case pgx_ParseConfig lib databaseURL of
        Inl err \<Rightarrow> (([], Some (Wrapped ''parse database configuration'' err)), s)
      | Inr connConfig \<Rightarrow>
          (let connConfig = connConfig\<lparr>cc_RuntimeParams := migration_params options (cc_RuntimeParams connConfig)\<rparr>;
               migrationDatabase = stdlib_OpenDB lib connConfig in
           case goose_NewProvider lib migrationDatabase migrations (Logger options) s of
             (Inl err, s) \<Rightarrow>
               (case join_close (Wrapped ''create migration provider'' err) (closeMigrationDatabase lib migrationDatabase s) of
                  (e, s) \<Rightarrow> (([], e), s))
           | (Inr provider, s) \<Rightarrow>
               (case provider_Up lib provider c s of
                  ((results, None), s) \<Rightarrow>
                    (case closeMigrationDatabase lib migrationDatabase s of
                       (e, s) \<Rightarrow> ((appliedVersions results, e), s))
                | ((results, Some (err, partial)), s) \<Rightarrow>
                    (let applied = (case partial of Some done \<Rightarrow> appliedVersions done | None \<Rightarrow> appliedVersions results) in
                     case join_close (Wrapped ''apply migrations'' err) (closeMigrationDatabase lib migrationDatabase s) of
                       (e, s) \<Rightarrow> ((applied, e), s)))))"

section \<open>What Open and Migrate do\<close>

lemma Milliseconds_bounds:
  assumes "0 \<le> sint d"
  shows "Milliseconds d * 1000000 \<le> sint d" "sint d < Milliseconds d * 1000000 + 1000000" "0 \<le> Milliseconds d"
proof -
  have "Milliseconds d = sint d div 1000000" using assms by (simp add: Milliseconds_def)
  moreover have "sint d = sint d div 1000000 * 1000000 + sint d mod 1000000" by (simp only: div_mult_mod_eq)
  moreover have "0 \<le> sint d mod 1000000" "sint d mod 1000000 < 1000000" by simp_all
  moreover have "0 \<le> sint d div 1000000" using assms by (simp add: pos_imp_zdiv_nonneg_iff)
  ultimately show "Milliseconds d * 1000000 \<le> sint d" "sint d < Milliseconds d * 1000000 + 1000000" "0 \<le> Milliseconds d"
    by linarith+
qed

lemma Milliseconds_zero: "0 < sint d \<Longrightarrow> Milliseconds d = 0 \<longleftrightarrow> sint d < 1000000"
  using Milliseconds_bounds [of d] by linarith

lemma FormatInt_0: "FormatInt 0 = ''0''"
  unfolding FormatInt_def by (subst decimal.simps) code_simp

lemma FormatInt_Milliseconds:
  assumes "0 \<le> sint d"
  shows "ParseInt 64 (FormatInt (Milliseconds d)) = Inr (Milliseconds d)"
proof (rule ParseInt_FormatInt)
  show "Milliseconds d < 2 ^ (64 - 1)"
    using Milliseconds_bounds [OF assms] sint_int64_bounds(2) [of d] by simp
  show "- (2 ^ (64 - 1)) \<le> Milliseconds d" using Milliseconds_bounds(3) [OF assms] by simp
qed simp

end
