(* ===== verification/Database_Properties.thy ===== *)
theory Database_Properties
  imports Database Config_Properties
begin

text \<open>
  The properties of the database infrastructure: what an opened pool is set to, that no pool and no
  migration connection is left open, and what a migration run reports.
\<close>

section \<open>The documented behaviour of the driver\<close>

text \<open>
  The number of open pools, as a function of the state: a pool that was made counts until it is
  closed, and neither a ping nor a statement changes it.
\<close>

definition documented_pool :: "('s \<Rightarrow> int) \<Rightarrow> 's pool \<Rightarrow> bool" where
  "documented_pool opened pool \<longleftrightarrow>
     (\<forall>c s. opened (snd (pool_Ping pool c s)) = opened s) \<and> (\<forall>s. opened (pool_Close pool s) = opened s - 1)
     \<and> (\<forall>c sql args s. opened (snd (Exec (pool_DBTX pool) c sql args s)) = opened s
       \<and> opened (snd (Query (pool_DBTX pool) c sql args s)) = opened s
       \<and> opened (snd (QueryRow (pool_DBTX pool) c sql args s)) = opened s)"

definition documented_pgxpool :: "('s \<Rightarrow> int) \<Rightarrow> ('s, 'c) pgxpool \<Rightarrow> bool" where
  "documented_pgxpool opened lib \<longleftrightarrow>
     (\<forall>c cfg s made s'. pgxpool_NewWithConfig lib c cfg s = (made, s') \<longrightarrow> (case made of
        Inl err \<Rightarrow> opened s' = opened s
      | Inr pool \<Rightarrow> opened s' = opened s + 1 \<and> documented_pool opened pool))"

section \<open>Opening the pool\<close>

lemma open_counts:
  assumes "documented_pgxpool opened lib" "Open lib now c cfg s = (result, s')"
  shows "case result of Inl err \<Rightarrow> opened s' = opened s
    | Inr pool \<Rightarrow> opened s' = opened s + 1 \<and> documented_pool opened pool"
proof (cases "pgxpool_ParseConfig lib (URL cfg)")
  case (Inl err)
  then show ?thesis using assms(2) by (auto simp: Open_def)
next
  case (Inr p)
  obtain made s1 where made: "pgxpool_NewWithConfig lib c (configure_pool cfg p) s = (made, s1)" by fastforce
  have new: "case made of Inl err \<Rightarrow> opened s1 = opened s
      | Inr pool \<Rightarrow> opened s1 = opened s + 1 \<and> documented_pool opened pool"
    using assms(1) made unfolding documented_pgxpool_def by blast
  show ?thesis
  proof (cases made)
    case (Inl err)
    with new made Inr assms(2) show ?thesis by (auto simp: Open_def)
  next
    case (Inr pool)
    let ?ctx = "WithTimeout now (sint startupPingTimeout) c"
    obtain e s2 where ping: "pool_Ping pool ?ctx s1 = (e, s2)" by fastforce
    have "opened (snd (pool_Ping pool ?ctx s1)) = opened s1" "opened (pool_Close pool s2) = opened s2 - 1"
      using new Inr by (simp_all add: documented_pool_def)
    with new made Inr \<open>pgxpool_ParseConfig lib (URL cfg) = Inr p\<close> assms(2) ping show ?thesis
      by (cases e) (auto simp: Open_def)
  qed
qed

text \<open>
  C36. Opening leaves no pool behind when it fails, on any of its error paths: the pool of a database
  that does not answer the ping is closed. When it succeeds there is exactly one more, the one that
  is returned.
\<close>

theorem open_leaves_no_pool:
  assumes "documented_pgxpool opened lib" "Open lib now c cfg s = (result, s')"
  shows "case result of Inl err \<Rightarrow> opened s' = opened s
    | Inr pool \<Rightarrow> opened s' = opened s + 1 \<and> documented_pool opened pool"
  by (rule open_counts [OF assms])

text \<open>A database that never answers: the state is the number of open pools.\<close>

definition dead_DBTX :: "int DBTX" where
  "dead_DBTX = \<lparr>Exec = (\<lambda>c sql args s. (Inl (NewError ''closed''), s)),
     Query = (\<lambda>c sql args s. (Inl (NewError ''closed''), s)), QueryRow = (\<lambda>c sql args s. (Inl (NewError ''closed''), s))\<rparr>"

definition counting_pgxpool :: "gerror option \<Rightarrow> (int, unit) pgxpool" where
  "counting_pgxpool answer =
     \<lparr>pgxpool_ParseConfig = (\<lambda>url. Inr \<lparr>pc_MaxConns = 4, pc_MinConns = 0, pc_MaxConnLifetime = 0, pc_MaxConnIdleTime = 0,
        pc_HealthCheckPeriod = 0, pc_RuntimeParams = Map.empty, pc_Connection = ()\<rparr>),
      pgxpool_NewWithConfig = (\<lambda>c cfg s. (Inr \<lparr>pool_DBTX = dead_DBTX, pool_Ping = (\<lambda>c s. (answer, s)),
        pool_Close = (\<lambda>s. s - 1)\<rparr>, s + 1))\<rparr>"

lemma counting_documented: "documented_pgxpool id (counting_pgxpool answer)"
  by (simp add: documented_pgxpool_def documented_pool_def counting_pgxpool_def dead_DBTX_def)

theorem open_leaves_no_pool_witness:
  "snd (Open (counting_pgxpool (Some Canceled)) 0 background (Config_Database (default_config ''postgres://db'')) 0) = 0"
  using open_leaves_no_pool [OF counting_documented prod.collapse [symmetric], of "Some Canceled" 0 background
      "Config_Database (default_config ''postgres://db'')" 0]
  by (simp add: Open_def counting_pgxpool_def)

text \<open>
  C37. What a pool is set to when it is opened for a loaded configuration. The limits and the two
  lifetimes are those of the configuration, each in its place, and within their bounds; idle
  connections are checked every 30 seconds; the statement timeout is sent to the server as the
  decimal number of whole milliseconds in the one configured, never 0, which would mean no limit;
  every other parameter and the connection are those of the URL; and the pool was pinged, within 3
  seconds, before it was handed out.
\<close>

theorem opened_pool_settings:
  assumes "Load env = Inr cfg" "d = Config_Database cfg" "Open lib now c d s = (Inr pool, s')"
  shows "\<exists>p q s1 c' v n. pgxpool_ParseConfig lib (URL d) = Inr p \<and> pgxpool_NewWithConfig lib c q s = (Inr pool, s1)
    \<and> pc_RuntimeParams q = (pc_RuntimeParams p)(''statement_timeout'' \<mapsto> v) \<and> pc_Connection q = pc_Connection p
    \<and> ParseInt 64 v = Inr n \<and> 1 \<le> n
    \<and> n * 1000000 \<le> sint (StatementTimeout d) \<and> sint (StatementTimeout d) < (n + 1) * 1000000
    \<and> pc_MaxConns q = MaxConnections d \<and> pc_MinConns q = MinConnections d
    \<and> 0 \<le> sint (pc_MinConns q) \<and> sint (pc_MinConns q) \<le> sint (pc_MaxConns q) \<and> 1 \<le> sint (pc_MaxConns q)
    \<and> pc_MaxConnLifetime q = MaxConnLifetime d \<and> 0 < sint (pc_MaxConnLifetime q)
    \<and> pc_MaxConnIdleTime q = MaxConnIdleTime d \<and> 0 < sint (pc_MaxConnIdleTime q)
    \<and> sint (pc_HealthCheckPeriod q) = 30000000000
    \<and> pool_Ping pool c' s1 = (None, s') \<and> (\<exists>t. ctx_deadline c' = Some t \<and> t \<le> now + 3000000000)"
proof -
  have valid: "valid_config cfg" by (rule loaded_valid [OF assms(1)])
  let ?t = "StatementTimeout d"
  have t: "1000000 \<le> sint ?t" "1 \<le> Milliseconds ?t" using valid_statement_timeout [OF valid] by (simp_all add: assms(2))
  have n: "Milliseconds ?t * 1000000 \<le> sint ?t" "sint ?t < (Milliseconds ?t + 1) * 1000000"
    using Milliseconds_bounds [of ?t] t by (simp_all add: distrib_right)
  have v: "ParseInt 64 (FormatInt (Milliseconds ?t)) = Inr (Milliseconds ?t)"
    by (rule FormatInt_Milliseconds) (use t in simp)
  obtain p where p: "pgxpool_ParseConfig lib (URL d) = Inr p"
    using assms(3) by (auto simp: Open_def split: sum.splits)
  let ?q = "configure_pool d p" and ?c = "WithTimeout now (sint startupPingTimeout) c"
  have "\<exists>s1. pgxpool_NewWithConfig lib c ?q s = (Inr pool, s1) \<and> pool_Ping pool ?c s1 = (None, s')"
    using assms(3) p by (auto simp: Open_def split: sum.splits prod.splits option.splits)
  then obtain s1 where s1: "pgxpool_NewWithConfig lib c ?q s = (Inr pool, s1)" "pool_Ping pool ?c s1 = (None, s')" by blast
  have deadline: "\<exists>t. ctx_deadline ?c = Some t \<and> t \<le> now + 3000000000"
    by (auto simp: WithTimeout_def startupPingTimeout_def split: option.split)
  have limits: "0 \<le> sint (pc_MinConns ?q)" "sint (pc_MinConns ?q) \<le> sint (pc_MaxConns ?q)" "1 \<le> sint (pc_MaxConns ?q)"
    "0 < sint (pc_MaxConnLifetime ?q)" "0 < sint (pc_MaxConnIdleTime ?q)" "sint (pc_HealthCheckPeriod ?q) = 30000000000"
    using valid by (simp_all add: valid_config_def valid_database_def configure_pool_def assms(2) poolHealthCheckPeriod_def)
  have copied: "pc_RuntimeParams ?q = (pc_RuntimeParams p)(''statement_timeout'' \<mapsto> FormatInt (Milliseconds ?t))"
    "pc_Connection ?q = pc_Connection p" "pc_MaxConns ?q = MaxConnections d" "pc_MinConns ?q = MinConnections d"
    "pc_MaxConnLifetime ?q = MaxConnLifetime d" "pc_MaxConnIdleTime ?q = MaxConnIdleTime d" by (simp_all add: configure_pool_def)
  show ?thesis
    by (intro exI [of _ p] exI [of _ ?q] exI [of _ s1] exI [of _ ?c] exI [of _ "FormatInt (Milliseconds ?t)"]
        exI [of _ "Milliseconds ?t"] conjI p s1 v t(2) n limits deadline copied)
qed

theorem opened_pool_settings_witness:
  "\<exists>q s1 v n pool. pgxpool_NewWithConfig (counting_pgxpool None) background q 0 = (Inr pool, s1)
    \<and> pc_RuntimeParams q ''statement_timeout'' = Some v \<and> ParseInt 64 v = Inr n \<and> 1 \<le> n"
proof -
  have "\<exists>pool s'. Open (counting_pgxpool None) 0 background (Config_Database (default_config ''postgres://db'')) 0 = (Inr pool, s')"
    by (simp add: Open_def counting_pgxpool_def)
  then obtain pool s' where
    "Open (counting_pgxpool None) 0 background (Config_Database (default_config ''postgres://db'')) 0 = (Inr pool, s')" by blast
  from opened_pool_settings [OF default_loads refl this] show ?thesis by (elim exE conjE) (auto intro!: exI)
qed

section \<open>Migrations\<close>

text \<open>
  What the migration library reports: its results are the migrations that were applied, except that
  a partial error carries those before the one that failed. The run relies on this report to be
  complete, with an error or without one; closing the connection is counted, whether or not it
  reports an error.
\<close>

definition reported :: "MigrationResult list \<Rightarrow> (gerror \<times> MigrationResult list option) option \<Rightarrow> MigrationResult list" where
  "reported results failure = (case failure of Some (err, Some done) \<Rightarrow> done | _ \<Rightarrow> results)"

definition documented_goose :: "('s \<Rightarrow> int64 set) \<Rightarrow> ('s \<Rightarrow> nat) \<Rightarrow> ('s, 'c, 'fs, 'd, 'p) goose \<Rightarrow> bool" where
  "documented_goose versions closed lib \<longleftrightarrow>
     (\<forall>d fs l s made s'. goose_NewProvider lib d fs l s = (made, s') \<longrightarrow> versions s' = versions s \<and> closed s' = closed s)
     \<and> (\<forall>p c s results failure s'. provider_Up lib p c s = ((results, failure), s') \<longrightarrow> closed s' = closed s
       \<and> versions s' = versions s \<union> Source_Version ` set (reported results failure))
     \<and> (\<forall>d s e s'. sql_Close lib d s = (e, s') \<longrightarrow> versions s' = versions s \<and> closed s' = closed s + 1)"

lemma closing:
  assumes "documented_goose versions closed lib" "closeMigrationDatabase lib d s = (e, s')"
  shows "versions s' = versions s" "closed s' = closed s + 1"
proof -
  obtain x s1 where x: "sql_Close lib d s = (x, s1)" by fastforce
  then have "s' = s1" using assms(2) by (auto simp: closeMigrationDatabase_def split: option.splits)
  with assms(1) x show "versions s' = versions s" "closed s' = closed s + 1"
    unfolding documented_goose_def by blast+
qed

lemma join_closing:
  assumes "documented_goose versions closed lib" "join_close err (closeMigrationDatabase lib d s) = (e, s')"
  shows "versions s' = versions s" "closed s' = closed s + 1" "\<exists>x. e = Some x \<and> (\<forall>target. errors_Is err target \<longrightarrow> errors_Is x target)"
proof -
  obtain y s1 where y: "closeMigrationDatabase lib d s = (y, s1)" by fastforce
  then have "s' = s1" and e: "e = errors_Join (err # (case y of None \<Rightarrow> [] | Some e \<Rightarrow> [e]))"
    using assms(2) by (simp_all add: join_close_def)
  with closing [OF assms(1) y] show "versions s' = versions s" "closed s' = closed s + 1" by simp_all
  show "\<exists>x. e = Some x \<and> (\<forall>target. errors_Is err target \<longrightarrow> errors_Is x target)"
    by (simp add: e errors_Join_def)
qed

text \<open>
  What a run returns when the library got as far as to apply: the report of the library, and an error
  that is the library's for \<open>errors.Is\<close>, or that of the close alone.
\<close>

lemma migrate_returns:
  assumes "Migrate lib c url fs options s = ((applied, err), s')" "pgx_ParseConfig lib url = Inr cc"
    and "db = stdlib_OpenDB lib (cc\<lparr>cc_RuntimeParams := migration_params options (cc_RuntimeParams cc)\<rparr>)"
    and "goose_NewProvider lib db fs (Logger options) s = (Inr p, s1)" "provider_Up lib p c s1 = ((results, failure), s2)"
  shows "applied = map Source_Version (reported results failure)"
    "failure = None \<Longrightarrow> err = map_option (Wrapped ''close migration database'') (fst (sql_Close lib db s2))"
    "failure = Some (e, partial) \<Longrightarrow> \<exists>x. err = Some x \<and> (\<forall>target. errors_Is e target \<longrightarrow> errors_Is x target)"
    "s' = snd (sql_Close lib db s2)"
proof -
  obtain x s3 where close: "sql_Close lib db s2 = (x, s3)" by fastforce
  note run = assms(1,2,4,5) assms(3) [symmetric]
  show "applied = map Source_Version (reported results failure)" "s' = snd (sql_Close lib db s2)"
    using run close
    by (auto simp: Migrate_def Let_def reported_def appliedVersions_def closeMigrationDatabase_def join_close_def
        split: option.splits prod.splits)
  show "err = map_option (Wrapped ''close migration database'') (fst (sql_Close lib db s2))" if "failure = None"
    using run close that by (auto simp: Migrate_def Let_def closeMigrationDatabase_def split: option.splits)
  show "\<exists>x. err = Some x \<and> (\<forall>target. errors_Is e target \<longrightarrow> errors_Is x target)" if "failure = Some (e, partial)"
    using run close that
    by (auto simp: Migrate_def Let_def closeMigrationDatabase_def join_close_def errors_Join_def split: option.splits)
qed

lemma migrate_lands:
  assumes "documented_goose versions closed lib" "Migrate lib c url fs options s = ((applied, err), s')"
  shows "versions s' = versions s \<union> set applied
    \<and> closed s' = closed s + (if isl (pgx_ParseConfig lib url) then 0 else 1)
    \<and> (isl (pgx_ParseConfig lib url) \<longrightarrow> s' = s \<and> err \<noteq> None)"
proof (cases "pgx_ParseConfig lib url")
  case (Inl e)
  then show ?thesis using assms(2) by (auto simp: Migrate_def)
next
  case (Inr cc)
  define db where "db = stdlib_OpenDB lib (cc\<lparr>cc_RuntimeParams := migration_params options (cc_RuntimeParams cc)\<rparr>)"
  obtain made s1 where made: "goose_NewProvider lib db fs (Logger options) s = (made, s1)" by fastforce
  then have s1: "versions s1 = versions s" "closed s1 = closed s"
    using assms(1) unfolding documented_goose_def by blast+
  have "versions s' = versions s \<union> set applied \<and> closed s' = closed s + 1"
  proof (cases made)
    case (Inl e)
    let ?err = "Wrapped ''create migration provider'' e"
    have "join_close ?err (closeMigrationDatabase lib db s1) = (err, s')" "applied = []"
      using assms(2) Inr made Inl by (simp_all add: Migrate_def Let_def db_def [symmetric] split: prod.splits)
    from join_closing [OF assms(1) this(1)] this(2) show ?thesis by (simp add: s1)
  next
    case (Inr p)
    obtain results failure s2 where up: "provider_Up lib p c s1 = ((results, failure), s2)"
      by (metis prod.exhaust)
    then have s2: "closed s2 = closed s1" "versions s2 = versions s1 \<union> Source_Version ` set (reported results failure)"
      using assms(1) unfolding documented_goose_def by blast+
    have "goose_NewProvider lib db fs (Logger options) s = (Inr p, s1)" using made Inr by simp
    note returned = migrate_returns [OF assms(2) \<open>pgx_ParseConfig lib url = Inr cc\<close> db_def this up]
    have "sql_Close lib db s2 = (fst (sql_Close lib db s2), s')" using returned(4) by simp
    then have "versions s' = versions s2 \<and> closed s' = closed s2 + 1"
      using assms(1) unfolding documented_goose_def by blast
    with s1 s2 returned(1) show ?thesis by simp
  qed
  with Inr show ?thesis by simp
qed

lemma migrate_succeeded:
  assumes "Migrate lib c url fs options s = ((applied, None), s')"
  shows "\<exists>p s1 results s2. provider_Up lib p c s1 = ((results, None), s2) \<and> applied = map Source_Version results"
  using assms
  by (auto simp: Migrate_def Let_def join_close_def errors_Join_def closeMigrationDatabase_def appliedVersions_def
      split: sum.splits prod.splits option.splits if_splits)

text \<open>
  C34. What a migration run reports. The versions it returns are exactly those that landed in the
  database by the run, also when it failed halfway or at its very end, and they are the report of
  the library, from the partial error when there is one; a failure of the library always is a failure
  of the run, with the same error for \<open>errors.Is\<close>, and without one the run only fails when the close
  does. The connection it opens is closed exactly once, on every path, and last; one that was never
  opened, for a URL that does not parse, is not.
\<close>

theorem migrate_reports_what_landed:
  assumes "documented_goose versions closed lib" "Migrate lib c url fs options s = ((applied, err), s')"
  shows "versions s' = versions s \<union> set applied
    \<and> closed s' = closed s + (if isl (pgx_ParseConfig lib url) then 0 else 1)
    \<and> (isl (pgx_ParseConfig lib url) \<longrightarrow> s' = s \<and> err \<noteq> None)
    \<and> (\<forall>cc db p s1 results failure s2. pgx_ParseConfig lib url = Inr cc
        \<and> db = stdlib_OpenDB lib (cc\<lparr>cc_RuntimeParams := migration_params options (cc_RuntimeParams cc)\<rparr>)
        \<and> goose_NewProvider lib db fs (Logger options) s = (Inr p, s1) \<and> provider_Up lib p c s1 = ((results, failure), s2) \<longrightarrow>
        applied = map Source_Version (reported results failure) \<and> s' = snd (sql_Close lib db s2)
        \<and> (case failure of
             None \<Rightarrow> err = map_option (Wrapped ''close migration database'') (fst (sql_Close lib db s2))
           | Some (e, partial) \<Rightarrow> \<exists>x. err = Some x \<and> (\<forall>target. errors_Is e target \<longrightarrow> errors_Is x target)))"
proof (intro conjI allI impI)
  fix cc db p s1 results failure s2
  assume "pgx_ParseConfig lib url = Inr cc
    \<and> db = stdlib_OpenDB lib (cc\<lparr>cc_RuntimeParams := migration_params options (cc_RuntimeParams cc)\<rparr>)
    \<and> goose_NewProvider lib db fs (Logger options) s = (Inr p, s1) \<and> provider_Up lib p c s1 = ((results, failure), s2)"
  then have *: "pgx_ParseConfig lib url = Inr cc"
    "db = stdlib_OpenDB lib (cc\<lparr>cc_RuntimeParams := migration_params options (cc_RuntimeParams cc)\<rparr>)"
    "goose_NewProvider lib db fs (Logger options) s = (Inr p, s1)" "provider_Up lib p c s1 = ((results, failure), s2)" by blast+
  note returned = migrate_returns [OF assms(2) *]
  show "applied = map Source_Version (reported results failure)" "s' = snd (sql_Close lib db s2)" by (rule returned)+
  show "case failure of
       None \<Rightarrow> err = map_option (Wrapped ''close migration database'') (fst (sql_Close lib db s2))
     | Some (e, partial) \<Rightarrow> \<exists>x. err = Some x \<and> (\<forall>target. errors_Is e target \<longrightarrow> errors_Is x target)"
    using returned(2,3) by (cases failure) auto
qed (use migrate_lands [OF assms] in auto)

text \<open>A migration library on the set of applied versions and the number of closed connections.\<close>

definition demo_goose :: "MigrationResult list \<Rightarrow> (gerror \<times> MigrationResult list option) option
    \<Rightarrow> (int64 set \<times> nat, unit, unit, unit conn_config, unit) goose" where
  "demo_goose results failure =
     \<lparr>pgx_ParseConfig = (\<lambda>url. Inr \<lparr>cc_RuntimeParams = Map.empty, cc_Connection = ()\<rparr>), stdlib_OpenDB = id,
      goose_NewProvider = (\<lambda>d fs l s. (Inr (), s)),
      provider_Up = (\<lambda>p c s. ((results, failure), (fst s \<union> Source_Version ` set (reported results failure), snd s))),
      sql_Close = (\<lambda>d s. (None, (fst s, snd s + 1)))\<rparr>"

lemma demo_goose_documented:
  "documented_goose fst snd (demo_goose [] (Some (DeadlineExceeded, Some [\<lparr>Source_Version = 1\<rparr>])))"
  by (simp add: documented_goose_def demo_goose_def)

theorem migrate_reports_what_landed_witness:
  "fst (snd (Migrate (demo_goose [] (Some (DeadlineExceeded, Some [\<lparr>Source_Version = 1\<rparr>]))) background ''postgres://db'' ()
     \<lparr>LockTimeout = seconds 5, Logger = None\<rparr> ({}, 0))) = {1}"
  using migrate_reports_what_landed [OF demo_goose_documented, of background "''postgres://db''" "()"
      "\<lparr>LockTimeout = seconds 5, Logger = None\<rparr>" "({}, 0)" "[1]"]
  by (simp add: Migrate_def demo_goose_def Let_def appliedVersions_def closeMigrationDatabase_def join_close_def)

text \<open>
  C35. What a migration connection sends to the server: no statement limit; no lock timeout of its
  own when none is asked for, so that one of the URL or of the role stays in force; otherwise the
  number of whole milliseconds in it, which is 0 exactly for a timeout below one millisecond.
\<close>

theorem migration_limits:
  assumes "0 \<le> sint (LockTimeout options)" "params' = migration_params options params"
  shows "params' ''statement_timeout'' = Some ''0''
    \<and> (\<forall>k. k \<notin> {''statement_timeout'', ''lock_timeout''} \<longrightarrow> params' k = params k)
    \<and> (LockTimeout options = 0 \<longrightarrow> params' ''lock_timeout'' = params ''lock_timeout'')
    \<and> (LockTimeout options \<noteq> 0 \<longrightarrow> (\<exists>v n. params' ''lock_timeout'' = Some v \<and> ParseInt 64 v = Inr n
        \<and> n * 1000000 \<le> sint (LockTimeout options) \<and> sint (LockTimeout options) < (n + 1) * 1000000
        \<and> (v = ''0'' \<longleftrightarrow> sint (LockTimeout options) < 1000000)))"
proof -
  let ?t = "LockTimeout options"
  have zero: "?t = 0 \<longleftrightarrow> sint ?t = 0" by (metis sint_0 sint_inject)
  have v: "ParseInt 64 (FormatInt (Milliseconds ?t)) = Inr (Milliseconds ?t)" by (rule FormatInt_Milliseconds [OF assms(1)])
  have n: "Milliseconds ?t * 1000000 \<le> sint ?t" "sint ?t < (Milliseconds ?t + 1) * 1000000"
    using Milliseconds_bounds [OF assms(1)] by (simp_all add: distrib_right)
  have rendered: "FormatInt (Milliseconds ?t) = ''0'' \<longleftrightarrow> Milliseconds ?t = 0"
  proof
    assume "FormatInt (Milliseconds ?t) = ''0''"
    moreover have "ParseInt 64 (FormatInt 0) = Inr 0" by (rule ParseInt_FormatInt) simp_all
    ultimately show "Milliseconds ?t = 0" using v by (simp add: FormatInt_0)
  qed (simp add: FormatInt_0)
  have "v = ''0'' \<longleftrightarrow> sint ?t < 1000000" if "?t \<noteq> 0" "v = FormatInt (Milliseconds ?t)" for v
    using that rendered Milliseconds_zero [of ?t] assms(1) zero by simp
  with v n show ?thesis using assms(1) zero by (auto simp: assms(2) migration_params_def Let_def)
qed

theorem migration_limits_witness:
  "migration_params \<lparr>LockTimeout = word_of_int 500000, Logger = None\<rparr> Map.empty ''lock_timeout'' = Some ''0''"
  using migration_limits [of "\<lparr>LockTimeout = word_of_int 500000, Logger = None\<rparr>" _ Map.empty, OF _ refl] by fastforce

end
