(* ===== verification/App.thy ===== *)
theory App
  imports Config Database Http_Router Widget_Http Widget_Postgres
begin

text \<open>
  The composition of the application (\<open>internal/app/app.go\<close>): the capability behind its HTTP
  handler, the router with its checks, and the switch that takes the application out of
  readiness before it stops. The state is the switch together with the state of the services.
\<close>

section \<open>State\<close>

record 's app_state =
  acceptingTraffic :: bool
  app_inner :: 's

definition on_inner :: "('s \<Rightarrow> 'r \<times> 's) \<Rightarrow> 's app_state \<Rightarrow> 'r \<times> 's app_state" where
  "on_inner f a = (case f (app_inner a) of (r, s) \<Rightarrow> (r, a\<lparr>app_inner := s\<rparr>))"

definition lift_service :: "'s service \<Rightarrow> 's app_state service" where
  "lift_service v =
     \<lparr>svc_Create = (\<lambda>c name. on_inner (svc_Create v c name)), svc_Get = (\<lambda>c i. on_inner (svc_Get v c i)),
      svc_List = (\<lambda>c opts. on_inner (svc_List v c opts)), svc_Delete = (\<lambda>c i. on_inner (svc_Delete v c i))\<rparr>"

definition lift_check :: "'s ReadinessCheck \<Rightarrow> 's app_state ReadinessCheck" where
  "lift_check check c = on_inner (check c)"

section \<open>The application\<close>

record 's Dependencies =
  WidgetService :: "'s service option"
  ReadinessChecks :: "'s ReadinessCheck option list"

record 's App =
  app_handler :: "'s app_state mux"

definition BeginDrain :: "'s app_state \<Rightarrow> 's app_state" where
  "BeginDrain a = a\<lparr>acceptingTraffic := False\<rparr>"

definition checkAcceptingTraffic :: "'s app_state ReadinessCheck" where
  "checkAcceptingTraffic c a =
     (if \<not> acceptingTraffic a then (Some (NewError ''application is draining''), a) else (None, a))"

definition app_Handler :: "'s App \<Rightarrow> 's app_state mux" where
  "app_Handler application = app_handler application"

definition router_options :: "Config \<Rightarrow> Options" where
  "router_options cfg =
     (let cors = HTTP_CORS (Config_HTTP cfg); ip = HTTP_ClientIP (Config_HTTP cfg) in
      \<lparr>opt_CORS = \<lparr>cors_AllowedOrigins = AllowedOrigins cors, cors_AllowCredentials = AllowCredentials cors\<rparr>,
       opt_ClientIP = \<lparr>ip_Mode = Mode ip, ip_TrustedHeader = TrustedHeader ip,
         ip_TrustedProxyCIDRs = TrustedProxyCIDRs ip, ip_TrustedProxyCount = TrustedProxyCount ip\<rparr>,
       opt_RequestTimeout = RequestTimeout (Config_HTTP cfg)\<rparr>)"

text \<open>
  \<open>Build\<close>: \<open>validate\<close> is the validation library behind the decoder. The result is the application
  with the state it starts in, or the value of a panic.
\<close>

definition Build ::
  "'s app_state chi \<Rightarrow> ((gostring \<Rightarrow> gostring \<Rightarrow> gostring) \<Rightarrow> CreateWidgetJSONRequestBody \<Rightarrow> validation)
    \<Rightarrow> Config \<Rightarrow> slog_handler option \<Rightarrow> 's Dependencies \<Rightarrow> 's \<Rightarrow> gostring + 's App \<times> 's app_state" where
  "Build chi validate cfg logger dependencies s =
     (if logger = None \<or> WidgetService dependencies = None \<or> ReadinessChecks dependencies = []
      then Inl ''application dependencies must not be nil''
      else case NewLogHandler logger of
        Inl panic \<Rightarrow> Inl panic
      | Inr requestLogger \<Rightarrow>
          (case NewJSONDecoder validate (MaxRequestBytes (Config_HTTP cfg)) of
             Inl panic \<Rightarrow> Inl panic
           | Inr decoder \<Rightarrow>
               (case NewHandler (map_option lift_service (WidgetService dependencies)) (Some requestLogger) (Some decoder) of
                  Inl panic \<Rightarrow> Inl panic
                | Inr widgetHandler \<Rightarrow>
                    (let readinessChecks = Some checkAcceptingTraffic
                           # map (map_option lift_check) (ReadinessChecks dependencies) in
                     case NewRouter chi (Some requestLogger) readinessChecks
                       [\<lparr>rm_Pattern = ''/v1/widgets'',
                         rm_Handler = Some (MuxHandler (Mux [] (Router widgetHandler) [] None None))\<rparr>]
                       (router_options cfg) of
                       Inl panic \<Rightarrow> Inl panic
                     | Inr router \<Rightarrow>
                         Inr (\<lparr>app_handler = router\<rparr>, \<lparr>acceptingTraffic = True, app_inner = s\<rparr>)))))"

text \<open>\<open>New\<close>: the capability over the pool of connections, and the check that pings it.\<close>

definition app_New ::
  "'s app_state chi \<Rightarrow> ((gostring \<Rightarrow> gostring \<Rightarrow> gostring) \<Rightarrow> CreateWidgetJSONRequestBody \<Rightarrow> validation)
    \<Rightarrow> Config \<Rightarrow> slog_handler option \<Rightarrow> 's pool option \<Rightarrow> 's \<Rightarrow> gostring + 's App \<times> 's app_state" where
  "app_New chi validate cfg logger pool s =
     (case pool of
        None \<Rightarrow> Inl ''database pool must not be nil''
      | Some p \<Rightarrow>
          (case NewPostgresRepository (Some (dbgen_New (pool_DBTX p))) of
             Inl panic \<Rightarrow> Inl panic
           | Inr widgetRepository \<Rightarrow>
               (case NewService (Some (pg_repository widgetRepository)) of
                  Inl panic \<Rightarrow> Inl panic
                | Inr widgetService \<Rightarrow>
                    Build chi validate cfg logger
                      \<lparr>WidgetService = Some (service_over widgetService), ReadinessChecks = [Some (pool_Ping p)]\<rparr> s)))"

end
