(* ===== verification/App_Wiring.thy ===== *)
theory App_Wiring
  imports App
begin

text \<open>
  How the parts of the application work together: the handlers of the capability keep the
  contract the router relies on, they do the same whether they run on the state of the service
  alone or inside the application, and a request of the assembled application reaches them.
\<close>

section \<open>The capability's handlers behave\<close>

lemma leaves_failRequest:
  "''Content-Type'' \<notin> K \<Longrightarrow> leaves K (wd_resp w) (wd_resp (failRequest h r op err w))"
  using leaves_WriteContextError [of K "wd_resp w" err] leaves_trans [OF _ leaves_WriteError, of K]
  by (auto simp: failRequest_def split: prod.split bool.split)

lemma leaves_writeJSON:
  "''Content-Type'' \<notin> K \<Longrightarrow> leaves K (wd_resp w) (wd_resp (writeJSON h r status p w))"
  using leaves_WriteJSON [of K "wd_resp w" status p]
  by (auto simp: writeJSON_def Let_def split: prod.split option.split)

lemma logs_failRequest: "\<exists>l. wd_log (failRequest h r op err w) = wd_log w @ l"
  by (auto simp: failRequest_def log_context_def split: prod.split bool.split)

lemma logs_writeJSON: "\<exists>l. wd_log (writeJSON h r status p w) = wd_log w @ l"
  by (auto simp: writeJSON_def Let_def log_context_def split: prod.split option.split)

lemma call_service_keeps:
  "call_service f w = (x, w') \<Longrightarrow> wd_resp w' = wd_resp w \<and> wd_log w' = wd_log w"
  by (auto simp: call_service_def split: prod.splits)

text \<open>
  Each handler is one refusal, or one call of the service followed by one response. Both kinds of
  step keep the contract.
\<close>

definition well_done :: "'s world \<Rightarrow> 's world \<Rightarrow> bool" where
  "well_done w w' \<longleftrightarrow> leaves (- {''Content-Type''}) (wd_resp w) (wd_resp w') \<and> (\<exists>l. wd_log w' = wd_log w @ l)"

lemma well_done_responses [leaving]:
  "well_done w (failRequest h r op err w)" "well_done w (writeJSON h r status p w)"
  "well_done w (update_resp (WriteError status code message) w)"
  "well_done w (update_resp (WriteErrorDetails status code message details) w)"
  by (simp_all add: well_done_def leaves_failRequest leaves_writeJSON logs_failRequest logs_writeJSON leaving)

lemma well_done_call:
  "call_service f w = (x, w') \<Longrightarrow> well_done w' w'' \<Longrightarrow> well_done w w''"
  using call_service_keeps [of f w x w'] by (simp add: well_done_def)

lemma create_well_done: "well_done w (handler_create h r w)"
  by (auto simp: handler_create_def leaving split: sum.split prod.split option.split intro: well_done_call)

lemma get_well_done: "well_done w (handler_get h r w)"
  by (auto simp: handler_get_def leaving split: sum.split prod.split intro: well_done_call)

lemma list_well_done: "well_done w (handler_list h r w)"
  by (auto simp: handler_list_def leaving split: sum.split prod.split intro: well_done_call)

lemma delete_well_done: "well_done w (handler_delete h r w)"
  by (auto simp: handler_delete_def leaving split: sum.split prod.split intro: well_done_call)

interpretation endpoint: well_behaved "run_endpoint h ep" "- {''Content-Type''}" for h ep
proof
  have "well_done w (snd (run_endpoint h ep r w))" for r and w :: "'a world"
    by (cases ep) (simp_all add: create_well_done get_well_done list_well_done delete_well_done)
  then show "behaves (- {''Content-Type''}) (run_endpoint h ep)" by (simp add: behaves_def well_done_def)
qed

lemma Router_behaves: "g \<in> route_handlers (Router h) \<Longrightarrow> behaves own_headers g"
  using behaves_subset [OF endpoint.behaved own_headers_plain] by (auto simp: Router_def route_handlers_def)

section \<open>The handlers inside the application\<close>

text \<open>The application's world as the capability sees it: without the readiness switch.\<close>

definition inner_world :: "'s app_state world \<Rightarrow> 's world" where
  "inner_world w = \<lparr>wd_resp = wd_resp w, wd_state = app_inner (wd_state w), wd_log = wd_log w, wd_now = wd_now w,
     wd_gone = wd_gone w, wd_random = wd_random w\<rparr>"

lemma inner_world_simps [simp]:
  "wd_resp (inner_world w) = wd_resp w" "wd_state (inner_world w) = app_inner (wd_state w)"
  "wd_log (inner_world w) = wd_log w" "wd_now (inner_world w) = wd_now w"
  by (simp_all add: inner_world_def)

definition inner_handler :: "'s service \<Rightarrow> 's app_state Handler \<Rightarrow> 's Handler" where
  "inner_handler v h = \<lparr>h_service = v, h_logger = h_logger h, h_decoder = h_decoder h\<rparr>"

lemma inner_handler_simps [simp]:
  "h_service (inner_handler v h) = v" "h_logger (inner_handler v h) = h_logger h"
  "h_decoder (inner_handler v h) = h_decoder h"
  by (simp_all add: inner_handler_def)

lemma inner_responses:
  "inner_world (update_resp f w) = update_resp f (inner_world w)"
  "inner_world (log_context l lv c msg attrs w) = log_context l lv c msg attrs (inner_world w)"
  by (simp_all add: inner_world_def update_resp_def log_context_def)

lemma inner_resp_update: "inner_world (w\<lparr>wd_resp := x\<rparr>) = (inner_world w)\<lparr>wd_resp := x\<rparr>"
  by (simp add: inner_world_def)

lemma inner_failRequest: "inner_world (failRequest h r op err w) = failRequest (inner_handler v h) r op err (inner_world w)"
  by (simp add: failRequest_def inner_responses inner_resp_update split: prod.split bool.split)

lemma inner_writeJSON: "inner_world (writeJSON h r status p w) = writeJSON (inner_handler v h) r status p (inner_world w)"
  by (simp add: writeJSON_def Let_def inner_responses inner_resp_update split: prod.split option.split)

lemma inner_call:
  "call_service (on_inner f) w = (x, w') \<Longrightarrow> call_service f (inner_world w) = (x, inner_world w')
    \<and> acceptingTraffic (wd_state w') = acceptingTraffic (wd_state w)"
  by (auto simp: call_service_def on_inner_def inner_world_def split: prod.splits)

text \<open>What a handler does besides its call keeps the switch as it is.\<close>

lemma switch_kept [simp]:
  "wd_state (failRequest h r op err w) = wd_state w" "wd_state (writeJSON h r status p w) = wd_state w"
  by (auto simp: failRequest_def writeJSON_def Let_def split: prod.split bool.split option.split)


lemma lift_service_simps [simp]:
  "svc_Create (lift_service v) c name = on_inner (svc_Create v c name)" "svc_Get (lift_service v) c i = on_inner (svc_Get v c i)"
  "svc_List (lift_service v) c opts = on_inner (svc_List v c opts)" "svc_Delete (lift_service v) c i = on_inner (svc_Delete v c i)"
  by (simp_all add: lift_service_def)

text \<open>The handlers do not see that they run inside the application.\<close>

lemma endpoint_inside:
  assumes "h_service h = lift_service v" "run_endpoint h ep r w = (out, w')"
  shows "run_endpoint (inner_handler v h) ep r (inner_world w) = (out, inner_world w')
    \<and> acceptingTraffic (wd_state w') = acceptingTraffic (wd_state w)"
proof (cases ep)
  case EndpointCreate
  with assms show ?thesis
    by (auto simp: handler_create_def inner_responses inner_failRequest [where v = v] inner_writeJSON [where v = v] dest!: inner_call split: sum.splits prod.splits option.splits)
next
  case EndpointGet
  with assms show ?thesis
    by (auto simp: handler_get_def inner_responses inner_failRequest [where v = v] inner_writeJSON [where v = v] dest!: inner_call split: sum.splits prod.splits)
next
  case EndpointList
  with assms show ?thesis
    by (auto simp: handler_list_def inner_responses inner_failRequest [where v = v] inner_writeJSON [where v = v] dest!: inner_call split: sum.splits prod.splits)
next
  case EndpointDelete
  with assms show ?thesis
    by (auto simp: handler_delete_def inner_responses inner_failRequest [where v = v] inner_writeJSON [where v = v] dest!: inner_call split: sum.splits prod.splits)
qed

section \<open>The assembled application\<close>

text \<open>The handler of the capability as \<open>Build\<close> assembles it.\<close>

definition built_handler ::
  "((gostring \<Rightarrow> gostring \<Rightarrow> gostring) \<Rightarrow> CreateWidgetJSONRequestBody \<Rightarrow> validation) \<Rightarrow> Config \<Rightarrow> slog_handler
    \<Rightarrow> 's service \<Rightarrow> 's app_state Handler" where
  "built_handler validate cfg logger v =
     \<lparr>h_service = lift_service v, h_logger = RequestIDHandler logger,
      h_decoder = \<lparr>maxRequestBytes = MaxRequestBytes (Config_HTTP cfg), dec_validator = validate tag_name\<rparr>\<rparr>"

definition app_checks :: "'s ReadinessCheck option list \<Rightarrow> 's app_state ReadinessCheck list" where
  "app_checks checks = checkAcceptingTraffic # map (lift_check \<circ> the) checks"

definition app_routing ::
  "'s app_state chi \<Rightarrow> 's app_state Handler \<Rightarrow> 's ReadinessCheck option list \<Rightarrow> 's app_state handler" where
  "app_routing chi h checks = chi_ServeHTTP chi (Mux []
     [(''GET'', ''/health/live'', liveness), (''GET'', ''/health/ready'', readiness (app_checks checks))]
     [(''/v1/widgets'', MuxHandler (Mux [] (Router h) [] None None))] (Some route_not_found) (Some method_not_allowed))"

lemma Build_built:
  assumes "documented_chi chi" "Build chi validate cfg logger deps s = Inr (application, a)"
  obtains l v clientIP ms where "logger = Some l" "WidgetService deps = Some v"
    "a = \<lparr>acceptingTraffic = True, app_inner = s\<rparr>" "sets_client_ip clientIP"
    "list_all (\<lambda>m. (\<exists>t > 0. m = requestTimeout t) \<or> sets_cors_headers m) ms"
    "chi_ServeHTTP chi (app_handler application) = around clientIP (RequestIDHandler l)
      (apply_all ms (app_routing chi (built_handler validate cfg l v) (ReadinessChecks deps)))"
proof -
  from assms(2) obtain l v where l: "logger = Some l" "WidgetService deps = Some v"
    by (auto simp: Build_def split: if_splits)
  let ?h = "built_handler validate cfg l v"
  let ?checks = "Some checkAcceptingTraffic # map (map_option lift_check) (ReadinessChecks deps)"
  have start: "a = \<lparr>acceptingTraffic = True, app_inner = s\<rparr>"
    and router: "NewRouter chi (Some (RequestIDHandler l)) ?checks
      [\<lparr>rm_Pattern = ''/v1/widgets'', rm_Handler = Some (MuxHandler (Mux [] (Router ?h) [] None None))\<rparr>]
      (router_options cfg) = Inr (app_handler application)"
    using assms(2) l
    by (auto simp: Build_def NewLogHandler_def NewJSONDecoder_def NewHandler_def built_handler_def Let_def
        split: if_splits sum.splits)
  have "None \<notin> set ?checks" using router by (auto simp: NewRouter_def split: if_splits)
  then have "the (map_option lift_check x) = lift_check (the x)" if "x \<in> set (ReadinessChecks deps)" for x
    using that by (cases x) force+
  then have checks: "map the ?checks = app_checks (ReadinessChecks deps)"
    by (simp add: app_checks_def)
  from assms(1) router obtain log clientIP ms mounts where "Some (RequestIDHandler l) = Some log" "sets_client_ip clientIP"
    "mounts = map (\<lambda>route. (rm_Pattern route, the (rm_Handler route)))
      [\<lparr>rm_Pattern = ''/v1/widgets'', rm_Handler = Some (MuxHandler (Mux [] (Router ?h) [] None None))\<rparr>]"
    "list_all (\<lambda>m. (\<exists>t > 0. m = requestTimeout t) \<or> sets_cors_headers m) ms"
    "chi_ServeHTTP chi (app_handler application) = around clientIP log (apply_all ms (chi_ServeHTTP chi (Mux []
      [(''GET'', ''/health/live'', liveness), (''GET'', ''/health/ready'', readiness (map the ?checks))] mounts
      (Some route_not_found) (Some method_not_allowed))))"
    by (rule NewRouter_built)
  then show thesis using l start by (intro that [of l v clientIP ms]) (auto simp: app_routing_def checks [symmetric])
qed

lemma below_widgets: "\<not> below ''/v1/widgets'' ''/health/live''" "\<not> below ''/v1/widgets'' ''/health/ready''"
  by (simp_all add: below_def)

text \<open>The requests of the four endpoints, with the segment that names a widget.\<close>

fun endpoint_request :: "endpoint \<Rightarrow> gostring \<Rightarrow> request \<Rightarrow> bool" where
  "endpoint_request EndpointList seg r \<longleftrightarrow> rq_method r = ''GET'' \<and> rq_path r = ''/v1/widgets''"
| "endpoint_request EndpointCreate seg r \<longleftrightarrow> rq_method r = ''POST'' \<and> rq_path r = ''/v1/widgets''"
| "endpoint_request EndpointGet seg r \<longleftrightarrow> rq_method r = ''GET'' \<and> rq_path r = ''/v1/widgets'' @ ''/'' @ seg
     \<and> seg \<noteq> [] \<and> list_all id_character seg"
| "endpoint_request EndpointDelete seg r \<longleftrightarrow> rq_method r = ''DELETE'' \<and> rq_path r = ''/v1/widgets'' @ ''/'' @ seg
     \<and> seg \<noteq> [] \<and> list_all id_character seg"

lemma endpoint_routed:
  assumes "documented_chi chi" "endpoint_request ep seg r"
  shows "\<exists>ps. (ep \<in> {EndpointGet, EndpointDelete} \<longrightarrow> ps ''widgetID'' = seg)
    \<and> app_routing chi h checks r w = run_endpoint h ep (r\<lparr>rq_param := ps\<rparr>) w"
proof -
  have mounted: "\<forall>routes mount subroutes nf mna name m h r w seg.
        unambiguous subroutes \<and> (\<forall>(m', p, h') \<in> set subroutes. p = ''/'' \<or> p = ''/{'' @ name @ ''}'')
        \<and> (\<forall>(m', p, h') \<in> set routes. \<not> below mount p) \<and> rq_method r = m
        \<and> ((m, ''/'', h) \<in> set subroutes \<and> rq_path r = mount
           \<or> (m, ''/{'' @ name @ ''}'', h) \<in> set subroutes \<and> rq_path r = mount @ ''/'' @ seg
             \<and> seg \<noteq> [] \<and> list_all id_character seg) \<longrightarrow>
        (\<exists>ps. (rq_path r = mount @ ''/'' @ seg \<longrightarrow> ps name = seg)
          \<and> chi_ServeHTTP chi (Mux [] routes [(mount, MuxHandler (Mux [] subroutes [] None None))] (Some nf) (Some mna)) r w
            = h (r\<lparr>rq_param := ps\<rparr>) w)"
    using assms(1) unfolding documented_chi_def documented_mux_def by (elim conjE)
  have sub: "unambiguous (Router h)" "\<forall>(m', p, h') \<in> set (Router h). p = ''/'' \<or> p = ''/{'' @ ''widgetID'' @ ''}''"
    by (simp_all add: Router_def unambiguous_def)
  have routes: "\<forall>(m', p, h') \<in> set [(''GET'', ''/health/live'', liveness), (''GET'', ''/health/ready'', readiness (app_checks checks))].
      \<not> below ''/v1/widgets'' p"
    by (simp add: below_widgets)
  have "(rq_method r, ''/'', run_endpoint h ep) \<in> set (Router h) \<and> rq_path r = ''/v1/widgets''
      \<or> (rq_method r, ''/{'' @ ''widgetID'' @ ''}'', run_endpoint h ep) \<in> set (Router h)
        \<and> rq_path r = ''/v1/widgets'' @ ''/'' @ seg \<and> seg \<noteq> [] \<and> list_all id_character seg"
    using assms(2) by (cases ep) (simp_all add: Router_def)
  with mounted [rule_format, of "Router h" "''widgetID''" _ "''/v1/widgets''" r "rq_method r" "run_endpoint h ep" seg
      route_not_found method_not_allowed w] sub routes
  obtain ps where "rq_path r = ''/v1/widgets'' @ ''/'' @ seg \<longrightarrow> ps ''widgetID'' = seg"
    "app_routing chi h checks r w = run_endpoint h ep (r\<lparr>rq_param := ps\<rparr>) w"
    unfolding app_routing_def by blast
  moreover have "ep \<in> {EndpointGet, EndpointDelete} \<longrightarrow> rq_path r = ''/v1/widgets'' @ ''/'' @ seg"
    using assms(2) by auto
  ultimately show ?thesis by blast
qed

section \<open>What a request may change\<close>

text \<open>
  How a handler moves the state, as a relation between the states before and after a request. A
  handler is run at most once by what stands around it, so a reflexive relation is enough there.
\<close>

definition state_moves :: "('s \<Rightarrow> 's \<Rightarrow> bool) \<Rightarrow> 's handler \<Rightarrow> bool" where
  "state_moves R h \<longleftrightarrow> (\<forall>r w. R (wd_state w) (wd_state (snd (h r w))))"

lemma state_movesI: "(\<And>r w. R (wd_state w) (wd_state (snd (h r w)))) \<Longrightarrow> state_moves R h"
  by (simp add: state_moves_def)

lemma state_movesD: "state_moves R h \<Longrightarrow> R (wd_state w) (wd_state (snd (h r w)))"
  by (simp add: state_moves_def)

lemma moves_by_middleware:
  assumes "state_moves R h" "reflp R"
  shows "state_moves R (requestTimeout t h)" "state_moves R (recoverPanic logger h)" "state_moves R (logRequest logger h)"
    "state_moves R (securityHeaders h)" "state_moves R (requestID h)"
    and "sets_client_ip m \<Longrightarrow> state_moves R (m h)" "sets_cors_headers m \<Longrightarrow> state_moves R (m h)"
proof -
  have move: "R s (wd_state (snd (h r w)))" if "wd_state w = s" for r w s
    using state_movesD [OF assms(1), of w r] that by simp
  show "state_moves R (requestTimeout t h)" "state_moves R (securityHeaders h)" "state_moves R (logRequest logger h)"
    by (simp_all add: state_moves_def requestTimeout_def securityHeaders_def logRequest_def Let_def split_beta move)
  show "state_moves R (recoverPanic logger h)"
  proof (rule state_movesI)
    fix r w
    obtain out w' where run: "h r w = (out, w')" by fastforce
    have "R (wd_state w) (wd_state w')" using move [of w _ r] run by simp
    then show "R (wd_state w) (wd_state (snd (recoverPanic logger h r w)))"
      by (simp add: recoverPanic_def run Let_def split: outcome.split)
  qed
  show "state_moves R (requestID h)"
  proof (rule state_movesI)
    fix r and w :: "'a world"
    obtain w1 where "wd_state w1 = wd_state w"
      "requestID h r w = h (r\<lparr>rq_ctx := (rq_ctx r)\<lparr>ctx_request_id := chosen_id r w\<rparr>\<rparr>) w1" by (rule requestID_runs)
    with move show "R (wd_state w) (wd_state (snd (requestID h r w)))" by simp
  qed
  show "state_moves R (m h)" if ip: "sets_client_ip m"
  proof (rule state_movesI)
    fix r and w :: "'a world"
    obtain ip where "m h r w = h (r\<lparr>rq_ctx := (rq_ctx r)\<lparr>ctx_client_ip := ip\<rparr>\<rparr>) w"
      using ip [unfolded sets_client_ip_def, rule_format, of h r w] by blast
    with move show "R (wd_state w) (wd_state (snd (m h r w)))" by simp
  qed
  show "state_moves R (m h)" if cors: "sets_cors_headers m"
  proof (rule state_movesI)
    fix r and w :: "'a world"
    obtain g where "m h r w = h r (update_resp g w) \<or> m h r w = (Returned, update_resp g w)"
      using cors [unfolded sets_cors_headers_def, rule_format, of h r w] by blast
    with move reflpD [OF assms(2)] show "R (wd_state w) (wd_state (snd (m h r w)))" by auto
  qed
qed

lemma moves_by_inner:
  assumes "list_all (\<lambda>m. (\<exists>t > 0. m = requestTimeout t) \<or> sets_cors_headers m) ms" "state_moves R h" "reflp R"
  shows "state_moves R (apply_all ms h)"
  using assms
proof (induction ms)
  case (Cons m ms)
  then have "state_moves R (apply_all ms h)" by simp
  then have "state_moves R (m (apply_all ms h))"
    using Cons.prems(1,3) moves_by_middleware(1,7) [of R "apply_all ms h"] by auto
  then show ?case by (simp add: apply_all_def)
qed (simp add: apply_all_def)

lemma moves_around:
  "sets_client_ip m \<Longrightarrow> state_moves R h \<Longrightarrow> reflp R \<Longrightarrow> state_moves R (around m logger h)"
  by (simp add: moves_by_middleware)

lemma moves_by_routing:
  assumes "documented_chi chi" "list_all (flat \<circ> snd) mounts"
    and "\<And>h. h \<in> {nf, mna} \<union> route_handlers routes \<union> (\<Union>mount \<in> set mounts. mount_handlers (snd mount)) \<Longrightarrow> state_moves R h"
  shows "state_moves R (chi_ServeHTTP chi (Mux [] routes mounts (Some nf) (Some mna)))"
proof (rule state_movesI)
  fix r and w :: "'a world"
  from assms(1,2) obtain p h
    where h: "h \<in> {nf, mna} \<union> route_handlers routes \<union> (\<Union>mount \<in> set mounts. mount_handlers (snd mount))"
      and run: "chi_ServeHTTP chi (Mux [] routes mounts (Some nf) (Some mna)) r w = h (r\<lparr>rq_param := p\<rparr>) w" by (rule mux_routes)
  from assms(3) [OF h]
  show "R (wd_state w) (wd_state (snd (chi_ServeHTTP chi (Mux [] routes mounts (Some nf) (Some mna)) r w)))"
    unfolding run by (simp add: state_moves_def)
qed

text \<open>What the operations of a service and a list of checks do to their state, reaches through.\<close>

definition service_moves :: "('s \<Rightarrow> 's \<Rightarrow> bool) \<Rightarrow> 's service \<Rightarrow> bool" where
  "service_moves R v \<longleftrightarrow> (\<forall>c s. (\<forall>name. R s (snd (svc_Create v c name s))) \<and> (\<forall>i. R s (snd (svc_Get v c i s)))
     \<and> (\<forall>opts. R s (snd (svc_List v c opts s))) \<and> (\<forall>i. R s (snd (svc_Delete v c i s))))"

definition check_moves :: "('s \<Rightarrow> 's \<Rightarrow> bool) \<Rightarrow> 's ReadinessCheck \<Rightarrow> bool" where
  "check_moves R check \<longleftrightarrow> (\<forall>c s. R s (snd (check c s)))"

text \<open>In the application the readiness switch stays as it is.\<close>

definition app_moves :: "('s \<Rightarrow> 's \<Rightarrow> bool) \<Rightarrow> 's app_state \<Rightarrow> 's app_state \<Rightarrow> bool" where
  "app_moves R a b \<longleftrightarrow> acceptingTraffic b = acceptingTraffic a \<and> R (app_inner a) (app_inner b)"

lemma app_moves_preorder: "reflp R \<Longrightarrow> reflp (app_moves R)" "transp R \<Longrightarrow> transp (app_moves R)"
  by (auto simp: app_moves_def reflp_def transp_def)

lemma app_moves_on_inner: "R (app_inner a) (snd (f (app_inner a))) \<Longrightarrow> app_moves R a (snd (on_inner f a))"
  by (simp add: app_moves_def on_inner_def split_beta)

lemma lifted_moves:
  "service_moves R v \<Longrightarrow> service_moves (app_moves R) (lift_service v)"
  "check_moves R check \<Longrightarrow> check_moves (app_moves R) (lift_check check)"
  by (simp_all add: service_moves_def check_moves_def lift_check_def app_moves_on_inner)

lemma call_moves: "call_service f w = (x, w') \<Longrightarrow> wd_state w' = snd (f (wd_state w))"
  by (auto simp: call_service_def split: prod.splits)

lemma moves_by_endpoint:
  assumes "service_moves R (h_service h)" "reflp R"
  shows "state_moves R (run_endpoint h ep)"
proof (rule state_movesI)
  fix r :: request and w :: "'a world"
  have stay: "R s s" for s by (rule reflpD [OF assms(2)])
  have move: "R s (snd (svc_Create (h_service h) c name s))" "R s (snd (svc_Get (h_service h) c i s))"
    "R s (snd (svc_List (h_service h) c opts s))" "R s (snd (svc_Delete (h_service h) c i s))" for c name i opts s
    using assms(1) by (auto simp: service_moves_def)
  show "R (wd_state w) (wd_state (snd (run_endpoint h ep r w)))"
    by (cases ep) (auto simp: handler_create_def handler_get_def handler_list_def handler_delete_def stay move
        dest!: call_moves split: sum.split prod.split option.split)
qed

lemma moves_by_checks:
  assumes "list_all (check_moves R) checks" "reflp R" "transp R"
  shows "R s (snd (run_checks checks c s))"
  using assms(1)
proof (induction checks arbitrary: s)
  case Nil
  show ?case using reflpD [OF assms(2)] by simp
next
  case (Cons check checks)
  obtain e s1 where run: "check c s = (e, s1)" by fastforce
  with Cons.prems have "R s s1" by (auto simp: check_moves_def dest!: spec [of _ c] spec [of _ s])
  moreover have "R s1 (snd (run_checks checks c s1))" using Cons by simp
  ultimately show ?case using run transpD [OF assms(3)] by (auto split: option.split)
qed

lemma moves_by_application:
  assumes "documented_chi chi" "Build chi validate cfg logger deps s = Inr (application, a)"
    and "WidgetService deps = Some v" "service_moves R v" "list_all (check_moves R \<circ> the) (ReadinessChecks deps)"
    and "reflp R" "transp R"
  shows "state_moves (app_moves R) (chi_ServeHTTP chi (app_handler application))"
proof -
  from assms(1,2) obtain l v' clientIP ms where v': "WidgetService deps = Some v'" and ip: "sets_client_ip clientIP"
    and ms: "list_all (\<lambda>m. (\<exists>t > 0. m = requestTimeout t) \<or> sets_cors_headers m) ms"
    and serve: "chi_ServeHTTP chi (app_handler application) = around clientIP (RequestIDHandler l)
      (apply_all ms (app_routing chi (built_handler validate cfg l v') (ReadinessChecks deps)))"
    by (rule Build_built)
  let ?h = "built_handler validate cfg l v'" and ?checks = "app_checks (ReadinessChecks deps)"
  note pre = app_moves_preorder(1) [OF assms(6)] app_moves_preorder(2) [OF assms(7)]
  have endpoint: "state_moves (app_moves R) (run_endpoint ?h ep)" for ep
    using moves_by_endpoint [OF _ pre(1), of ?h ep] lifted_moves(1) [OF assms(4)] v' assms(3) by (simp add: built_handler_def)
  have "check_moves (app_moves R) checkAcceptingTraffic"
    using reflpD [OF pre(1)] by (simp add: check_moves_def checkAcceptingTraffic_def)
  then have "list_all (check_moves (app_moves R)) ?checks"
    using assms(5) by (simp add: app_checks_def list_all_iff lifted_moves(2))
  note checks = moves_by_checks [OF this pre]
  have ready: "state_moves (app_moves R) (readiness ?checks)"
  proof (rule state_movesI)
    fix r :: request and w :: "'a app_state world"
    have "wd_state (snd (readiness ?checks r w))
        = snd (run_checks ?checks (WithTimeout (wd_now w) (sint readinessCheckTimeout) (rq_ctx r)) (wd_state w))"
      by (simp add: readiness_def Let_def split: option.split prod.split)
    with checks show "app_moves R (wd_state w) (wd_state (snd (readiness ?checks r w)))" by simp
  qed
  have "state_moves (app_moves R) (app_routing chi ?h (ReadinessChecks deps))"
    unfolding app_routing_def
  proof (rule moves_by_routing [OF assms(1)])
    show "state_moves (app_moves R) g"
      if "g \<in> {route_not_found, method_not_allowed}
        \<union> route_handlers [(''GET'', ''/health/live'', liveness), (''GET'', ''/health/ready'', readiness ?checks)]
        \<union> (\<Union>mount \<in> set [(''/v1/widgets'', MuxHandler (Mux [] (Router ?h) [] None None))]. mount_handlers (snd mount))" for g
      using that endpoint ready reflpD [OF pre(1)]
      by (auto simp: route_handlers_def Router_def state_moves_def liveness_def route_not_found_def method_not_allowed_def)
  qed simp
  then show ?thesis unfolding serve by (intro moves_around moves_by_inner ip ms pre(1))
qed

text \<open>The readiness switch moves with no request.\<close>

lemma switch_kept_by_application:
  assumes "documented_chi chi" "Build chi validate cfg logger deps s = Inr (application, a)"
  shows "acceptingTraffic (wd_state (snd (chi_ServeHTTP chi (app_handler application) r w))) = acceptingTraffic (wd_state w)"
proof -
  from assms obtain v where "WidgetService deps = Some v" by (rule Build_built)
  from moves_by_application [OF assms this, of "\<lambda>_ _. True"]
  have "state_moves (app_moves (\<lambda>_ _. True)) (chi_ServeHTTP chi (app_handler application))"
    by (simp add: service_moves_def check_moves_def list_all_iff reflp_def transp_def)
  from state_movesD [OF this, of w r] show ?thesis by (simp add: app_moves_def)
qed

end
