(* ===== verification/App_Properties.thy ===== *)
theory App_Properties
  imports App_Wiring Config_Properties Http_Properties Widget_Properties
begin

text \<open>
  The properties of the assembled application: that a loaded configuration always gives one, that
  its endpoints are those of the capability, and what draining changes.
\<close>

section \<open>Assembly\<close>

text \<open>
  The constructors of chi's client address middleware accept what the configuration accepts: a
  header name, parsable prefixes, a positive count.
\<close>

definition accepts_client_ip :: "'s chi \<Rightarrow> bool" where
  "accepts_client_ip chi \<longleftrightarrow>
     (\<forall>name. name \<noteq> [] \<longrightarrow> \<not> isl (chi_ClientIPFromHeader chi name))
     \<and> (\<forall>ps. ps \<noteq> [] \<and> (\<forall>p \<in> set ps. ParsePrefix p) \<longrightarrow> \<not> isl (chi_ClientIPFromXFF chi ps))
     \<and> (\<forall>n. 1 \<le> sint n \<longrightarrow> \<not> isl (chi_ClientIPFromXFFTrustedProxies chi n))"

lemma not_isl_Inr: "\<not> isl x \<Longrightarrow> \<exists>y. x = Inr y"
  by (cases x) auto

lemma valid_client_ip_builds:
  assumes "valid_client_ip ip" "accepts_client_ip chi"
    and "o' = \<lparr>ip_Mode = Mode ip, ip_TrustedHeader = TrustedHeader ip, ip_TrustedProxyCIDRs = TrustedProxyCIDRs ip,
      ip_TrustedProxyCount = TrustedProxyCount ip\<rparr>"
  shows "\<exists>m. clientIPMiddleware chi o' = Inr m"
  using assms not_isl_Inr by (auto simp: clientIPMiddleware_def accepts_client_ip_def)

lemma Build_succeeds:
  assumes "valid_config cfg" "accepts_client_ip chi" "WidgetService deps \<noteq> None"
    and "ReadinessChecks deps \<noteq> []" "None \<notin> set (ReadinessChecks deps)"
  shows "\<exists>application. Build chi validate cfg (Some l) deps s = Inr (application, \<lparr>acceptingTraffic = True, app_inner = s\<rparr>)"
proof -
  obtain v where v: "WidgetService deps = Some v" using assms(3) by blast
  have limit: "\<not> sint (MaxRequestBytes (Config_HTTP cfg)) < 1"
    and origins: "\<not> (AllowCredentials (HTTP_CORS (Config_HTTP cfg)) \<and> ''*'' \<in> set (AllowedOrigins (HTTP_CORS (Config_HTTP cfg))))"
    and ip: "valid_client_ip (HTTP_ClientIP (Config_HTTP cfg))"
    using assms(1) by (simp_all add: valid_config_def valid_http_def del: valid_client_ip.simps)
  obtain m where "clientIPMiddleware chi (opt_ClientIP (router_options cfg)) = Inr m"
    using valid_client_ip_builds [OF ip assms(2) refl] by (auto simp: router_options_def Let_def)
  moreover have "None \<notin> map_option lift_check ` set (ReadinessChecks deps)" using assms(5) by force
  ultimately show ?thesis
    using v limit origins assms(4)
    by (auto simp: Build_def NewLogHandler_def NewJSONDecoder_def NewHandler_def NewRouter_def Let_def router_options_def)
qed

text \<open>What \<open>New\<close> hands to \<open>Build\<close>.\<close>

lemma app_New_Build:
  "app_New chi validate cfg logger (Some pool) s = Build chi validate cfg logger
     \<lparr>WidgetService = Some (service_over (repository_over (pool_DBTX pool))), ReadinessChecks = [Some (pool_Ping pool)]\<rparr> s"
  by (simp add: app_New_def NewPostgresRepository_def NewService_def repository_over_def)

lemma app_New_succeeds:
  assumes "valid_config cfg" "accepts_client_ip chi"
  shows "\<exists>application. app_New chi validate cfg (Some l) (Some pool) s
    = Inr (application, \<lparr>acceptingTraffic = True, app_inner = s\<rparr>)"
  unfolding app_New_Build by (rule Build_succeeds [OF assms]) simp_all

text \<open>
  C39. A configuration that was loaded never makes the assembly of the application panic: with a
  logger and a pool the application is built, and it starts out accepting traffic.
\<close>

theorem loaded_configuration_assembles:
  assumes "Load env = Inr cfg" "accepts_client_ip chi"
  shows "\<exists>application. app_New chi validate cfg (Some l) (Some pool) s
    = Inr (application, \<lparr>acceptingTraffic = True, app_inner = s\<rparr>)"
  by (rule app_New_succeeds [OF loaded_valid [OF assms(1)] assms(2)])

lemma reference_accepts: "accepts_client_ip reference_chi"
  by (simp add: accepts_client_ip_def reference_chi_def)

definition demo_pool :: "pg pool" where
  "demo_pool = \<lparr>pool_DBTX = pg_db, pool_Ping = (\<lambda>c s. (None, s)), pool_Close = (\<lambda>s. s)\<rparr>"

theorem loaded_configuration_assembles_witness:
  "\<exists>application. app_New reference_chi (\<lambda>tag b. Valid) (default_config ''postgres://db'') (Some (Sink LevelInfo [] []))
     (Some demo_pool) demo_pg = Inr (application, \<lparr>acceptingTraffic = True, app_inner = demo_pg\<rparr>)"
  by (rule loaded_configuration_assembles [OF default_loads reference_accepts])

section \<open>Endpoints\<close>

definition capability_handler ::
  "((gostring \<Rightarrow> gostring \<Rightarrow> gostring) \<Rightarrow> CreateWidgetJSONRequestBody \<Rightarrow> validation) \<Rightarrow> Config \<Rightarrow> slog_handler
    \<Rightarrow> 's service \<Rightarrow> 's Handler" where
  "capability_handler validate cfg l v = inner_handler v (built_handler validate cfg l v)"

lemma application_endpoint:
  assumes "documented_chi chi" "Build chi validate cfg (Some l) deps s0 = Inr (application, a)"
    and "WidgetService deps = Some v" "unwritten (wd_resp w)" "endpoint_request ep seg r"
  obtains r2 x w' y where "same_request r r2" "ep \<in> {EndpointGet, EndpointDelete} \<Longrightarrow> rq_param r2 ''widgetID'' = seg"
    "unwritten (wd_resp x)" "wd_state x = app_inner (wd_state w)"
    "run_endpoint (capability_handler validate cfg l v) ep r2 x = (Returned, y)"
    "chi_ServeHTTP chi (app_handler application) r w = (Returned, w')"
    "wd_state w' = \<lparr>acceptingTraffic = acceptingTraffic (wd_state w), app_inner = wd_state y\<rparr>"
    "rs_status (wd_resp w') = rs_status (wd_resp y)" "rs_body (wd_resp w') = rs_body (wd_resp y)"
proof -
  let ?h = "built_handler validate cfg l v"
  from assms(1,2) obtain l' v' clientIP ms where built: "Some l = Some l'" "WidgetService deps = Some v'"
      "sets_client_ip clientIP" "list_all (\<lambda>m. (\<exists>t > 0. m = requestTimeout t) \<or> sets_cors_headers m) ms"
    and serve: "chi_ServeHTTP chi (app_handler application) = around clientIP (RequestIDHandler l')
      (apply_all ms (app_routing chi (built_handler validate cfg l' v') (ReadinessChecks deps)))"
    by (rule Build_built)
  have verb: "rq_method r \<noteq> ''OPTIONS''" using assms(5) by (cases ep) simp_all
  obtain r2 w2 where same: "same_request r r2" and w2: "unwritten (wd_resp w2)" "wd_state w2 = wd_state w"
    and out: "\<And>w3. app_routing chi ?h (ReadinessChecks deps) r2 w2 = (Returned, w3) \<Longrightarrow>
      \<exists>w'. around clientIP (RequestIDHandler l') (apply_all ms (app_routing chi ?h (ReadinessChecks deps))) r w = (Returned, w')
      \<and> wd_state w' = wd_state w3 \<and> rs_status (wd_resp w') = rs_status (wd_resp w3) \<and> rs_body (wd_resp w') = rs_body (wd_resp w3)"
    using around_reaches [OF built(3) assms(4) verb built(4)] by metis
  have "endpoint_request ep seg r2" using assms(5) same by (cases ep) (auto simp: same_request_def)
  from endpoint_routed [OF assms(1) this] obtain ps
    where ps: "ep \<in> {EndpointGet, EndpointDelete} \<longrightarrow> ps ''widgetID'' = seg"
      and routed: "app_routing chi ?h (ReadinessChecks deps) r2 w2 = run_endpoint ?h ep (r2\<lparr>rq_param := ps\<rparr>) w2"
    by blast
  obtain w3 where run: "run_endpoint ?h ep (r2\<lparr>rq_param := ps\<rparr>) w2 = (Returned, w3)" by (cases ep) simp_all
  have "h_service ?h = lift_service v" by (simp add: built_handler_def)
  from endpoint_inside [OF this run] have inside:
    "run_endpoint (capability_handler validate cfg l v) ep (r2\<lparr>rq_param := ps\<rparr>) (inner_world w2) = (Returned, inner_world w3)"
    "acceptingTraffic (wd_state w3) = acceptingTraffic (wd_state w)"
    using w2(2) by (simp_all add: capability_handler_def)
  from out [of w3] routed run serve built assms(3) obtain w' where w':
    "chi_ServeHTTP chi (app_handler application) r w = (Returned, w')" "wd_state w' = wd_state w3"
    "rs_status (wd_resp w') = rs_status (wd_resp w3)" "rs_body (wd_resp w') = rs_body (wd_resp w3)" by auto
  show thesis
    by (rule that [of "r2\<lparr>rq_param := ps\<rparr>" "inner_world w2" "inner_world w3" w'])
      (use same ps w2 inside w' in \<open>auto simp: same_request_def\<close>)
qed

text \<open>
  C6. The endpoints of the application are the capability's: a request of one of the four routes,
  sent to the fully assembled router, is handled by that handler of the capability on the state of
  the service, with the method, path, query, headers and body it was sent with and the identifier
  from its path; status, body and new state are the handler's own, and the readiness switch stays.
\<close>

theorem application_serves_the_endpoints:
  assumes "documented_chi chi" "Build chi validate cfg (Some l) deps s0 = Inr (application, a)"
    and "WidgetService deps = Some v" "unwritten (wd_resp w)" "endpoint_request ep seg r"
  shows "\<exists>r2 x y w'. same_request r r2 \<and> (ep \<in> {EndpointGet, EndpointDelete} \<longrightarrow> rq_param r2 ''widgetID'' = seg)
    \<and> unwritten (wd_resp x) \<and> wd_state x = app_inner (wd_state w)
    \<and> run_endpoint (capability_handler validate cfg l v) ep r2 x = (Returned, y)
    \<and> chi_ServeHTTP chi (app_handler application) r w = (Returned, w')
    \<and> wd_state w' = \<lparr>acceptingTraffic = acceptingTraffic (wd_state w), app_inner = wd_state y\<rparr>
    \<and> rs_status (wd_resp w') = rs_status (wd_resp y) \<and> rs_body (wd_resp w') = rs_body (wd_resp y)"
proof -
  obtain r2 x w' y where "same_request r r2" "ep \<in> {EndpointGet, EndpointDelete} \<Longrightarrow> rq_param r2 ''widgetID'' = seg"
    "unwritten (wd_resp x)" "wd_state x = app_inner (wd_state w)"
    "run_endpoint (capability_handler validate cfg l v) ep r2 x = (Returned, y)"
    "chi_ServeHTTP chi (app_handler application) r w = (Returned, w')"
    "wd_state w' = \<lparr>acceptingTraffic = acceptingTraffic (wd_state w), app_inner = wd_state y\<rparr>"
    "rs_status (wd_resp w') = rs_status (wd_resp y)" "rs_body (wd_resp w') = rs_body (wd_resp y)"
    by (rule application_endpoint [OF assms]) blast
  then show ?thesis by (intro exI [of _ r2] exI [of _ x] exI [of _ y] exI [of _ w']) simp
qed

definition demo_tags_validator :: "(gostring \<Rightarrow> gostring \<Rightarrow> gostring) \<Rightarrow> CreateWidgetJSONRequestBody \<Rightarrow> validation" where
  "demo_tags_validator tag = create_rules (tag ''name'' ''Name'')"

lemma demo_built:
  obtains application deps where
    "Build reference_chi demo_tags_validator (default_config ''postgres://db'') (Some (Sink LevelInfo [] [])) deps demo_pg
      = Inr (application, \<lparr>acceptingTraffic = True, app_inner = demo_pg\<rparr>)"
    "WidgetService deps = Some (service_over pg_service)" "ReadinessChecks deps = [Some (\<lambda>c s. (None, s))]"
proof -
  let ?deps = "\<lparr>WidgetService = Some (service_over pg_service), ReadinessChecks = [Some (\<lambda>c s. (None, s))]\<rparr>"
  have "valid_config (default_config ''postgres://db'')" by (simp add: default_valid)
  from Build_succeeds [OF this reference_accepts, where deps = ?deps and validate = demo_tags_validator
      and l = "Sink LevelInfo [] []" and s = demo_pg]
  obtain application where
    "Build reference_chi demo_tags_validator (default_config ''postgres://db'') (Some (Sink LevelInfo [] [])) ?deps demo_pg
      = Inr (application, \<lparr>acceptingTraffic = True, app_inner = demo_pg\<rparr>)" by auto
  then show thesis by (rule that) simp_all
qed

theorem application_serves_the_endpoints_witness:
  "\<exists>(application :: pg App) w'. chi_ServeHTTP reference_chi (app_handler application)
      (demo_request\<lparr>rq_path := ''/v1/widgets/2''\<rparr>)
      (fresh_world \<lparr>acceptingTraffic = True, app_inner = demo_pg\<rparr>) = (Returned, w') \<and> acceptingTraffic (wd_state w')"
proof -
  obtain application deps where
    build: "Build reference_chi demo_tags_validator (default_config ''postgres://db'') (Some (Sink LevelInfo [] [])) deps demo_pg
      = Inr (application, \<lparr>acceptingTraffic = True, app_inner = demo_pg\<rparr>)"
    and service: "WidgetService deps = Some (service_over pg_service)" by (rule demo_built)
  have "endpoint_request EndpointGet ''2'' (demo_request\<lparr>rq_path := ''/v1/widgets/2''\<rparr>)"
    by (simp add: demo_request_def id_character_def)
  from application_serves_the_endpoints [OF reference_documented build service
      unwritten_fresh(1) [of "\<lparr>acceptingTraffic = True, app_inner = demo_pg\<rparr>"] this]
  obtain w' y where "chi_ServeHTTP reference_chi (app_handler application) (demo_request\<lparr>rq_path := ''/v1/widgets/2''\<rparr>)
      (fresh_world \<lparr>acceptingTraffic = True, app_inner = demo_pg\<rparr>) = (Returned, w')"
    "wd_state w' = \<lparr>acceptingTraffic = acceptingTraffic (wd_state (fresh_world \<lparr>acceptingTraffic = True, app_inner = demo_pg\<rparr>)),
      app_inner = wd_state (y :: pg world)\<rparr>" by (elim exE conjE)
  then show ?thesis by (intro exI [of _ application] exI [of _ w']) simp
qed

text \<open>
  C2. Creating a widget through the whole program: the configuration that was loaded, the router
  with all its middleware, the capability and the adapter, over PostgreSQL. For every JSON string
  a client can send within the body limit, the answer is the one of the handler alone: 422 and
  nothing stored for a name that is empty, too long or blank, 500 and nothing stored for a name
  with a zero byte, and otherwise 201 with the JSON of the widget, which is stored with the
  trimmed name and a new identifier.
\<close>

theorem create_through_the_application:
  assumes "documented_chi chi" "app_New chi validate cfg (Some l) (Some pool) s0 = Inr (application, a)"
    and "pool_DBTX pool = pg_db" "validate tag_name = create_rules (tag_name ''name'' ''Name'')"
    and "pg_inv s" "pg_answering s" "pg_next s \<le> max_bigint" "unwritten (wd_resp w)" "app_inner (wd_state w) = s"
    and "rq_method r = ''POST''" "rq_path r = ''/v1/widgets''"
    and "create_request r name (MaxRequestBytes (Config_HTTP cfg))" "valid_utf8 name"
    and "chi_ServeHTTP chi (app_handler application) r w = (out, w')" "s' = app_inner (wd_state w')" "trimmed = TrimSpace name"
  shows "out = Returned \<and>
   (if name = [] \<or> 120 < length (runes name) \<or> trimmed = []
    then rs_status (wd_resp w') = 422 \<and> s' = s
    else if CHR 0x00 \<in> set trimmed then rs_status (wd_resp w') = 500 \<and> pg_rows s' = pg_rows s
    else rs_status (wd_resp w') = 201 \<and> (\<exists>v. rs_body (wd_resp w') = marshal (item_object v) @ newline
      \<and> Name v = trimmed \<and> ID v \<notin> ID ` set (pg_rows s) \<and> set (pg_rows s') = insert v (set (pg_rows s))))"
proof -
  let ?deps = "\<lparr>WidgetService = Some (service_over pg_service), ReadinessChecks = [Some (pool_Ping pool)]\<rparr>"
  let ?h = "capability_handler validate cfg l (service_over pg_service)"
  have build: "Build chi validate cfg (Some l) ?deps s0 = Inr (application, a)"
    using assms(2,3) by (simp add: app_New_def NewPostgresRepository_def NewService_def repository_over_def)
  have service: "WidgetService ?deps = Some (service_over pg_service)" by simp
  have "endpoint_request EndpointCreate [] r" using assms(10,11) by simp
  from assms(1) build service assms(8) this obtain r2 x w1 y where same: "same_request r r2"
    and x: "unwritten (wd_resp x)" "wd_state x = app_inner (wd_state w)"
    and run: "run_endpoint ?h EndpointCreate r2 x = (Returned, y)"
    and served: "chi_ServeHTTP chi (app_handler application) r w = (Returned, w1)"
    and w1: "wd_state w1 = \<lparr>acceptingTraffic = acceptingTraffic (wd_state w), app_inner = wd_state y\<rparr>"
      "rs_status (wd_resp w1) = rs_status (wd_resp y)" "rs_body (wd_resp w1) = rs_body (wd_resp y)"
    by (rule application_endpoint)
  have h: "h_service ?h = service_over pg_service" "checks_create_tags (h_decoder ?h)"
    "maxRequestBytes (h_decoder ?h) = MaxRequestBytes (Config_HTTP cfg)"
    using assms(4) by (simp_all add: capability_handler_def built_handler_def checks_create_tags_def)
  have "create_request r2 name (maxRequestBytes (h_decoder ?h))"
    using assms(12) same by (simp add: create_request_def same_request_def h(3))
  note created = create_runs_over_http [OF assms(5-7) h(1,2) this assms(13) refl assms(16) x(1) trans [OF x(2) assms(9)]]
  have y: "y = handler_create ?h r2 x" using run by simp
  have "if name = [] \<or> 120 < length (runes name) \<or> trimmed = []
    then rs_status (wd_resp y) = 422 \<and> wd_state y = s
    else if CHR 0x00 \<in> set trimmed then rs_status (wd_resp y) = 500 \<and> pg_rows (wd_state y) = pg_rows s
    else rs_status (wd_resp y) = 201 \<and> (\<exists>v. rs_body (wd_resp y) = marshal (item_object v) @ newline
      \<and> Name v = trimmed \<and> ID v \<notin> ID ` set (pg_rows s) \<and> set (pg_rows (wd_state y)) = insert v (set (pg_rows s)))"
    unfolding y by (rule created)
  moreover have "out = Returned" "w' = w1" using assms(14) served by simp_all
  ultimately show ?thesis using w1 assms(15) by simp
qed

theorem create_through_the_application_witness:
  "\<exists>(application :: pg App) w'. chi_ServeHTTP reference_chi (app_handler application)
      (demo_request\<lparr>rq_method := ''POST'', rq_path := ''/v1/widgets''\<rparr>)
      (fresh_world \<lparr>acceptingTraffic = True, app_inner = demo_pg\<rparr>) = (Returned, w') \<and> rs_status (wd_resp w') = 201"
proof -
  let ?r = "demo_request\<lparr>rq_method := ''POST'', rq_path := ''/v1/widgets''\<rparr>"
  let ?w = "fresh_world \<lparr>acceptingTraffic = True, app_inner = demo_pg\<rparr>"
  obtain application where new: "app_New reference_chi demo_tags_validator (default_config ''postgres://db'')
      (Some (Sink LevelInfo [] [])) (Some demo_pool) demo_pg = Inr (application, \<lparr>acceptingTraffic = True, app_inner = demo_pg\<rparr>)"
    using Build_succeeds [of "default_config ''postgres://db''" reference_chi
        "\<lparr>WidgetService = Some (service_over (repository_over (pool_DBTX demo_pool))), ReadinessChecks = [Some (pool_Ping demo_pool)]\<rparr>"
        demo_tags_validator "Sink LevelInfo [] []" demo_pg]
    by (auto simp: app_New_def NewPostgresRepository_def NewService_def repository_over_def default_valid reference_accepts)
  obtain out w' where run: "chi_ServeHTTP reference_chi (app_handler application) ?r ?w = (out, w')" by fastforce
  have db: "pool_DBTX demo_pool = pg_db" by (simp add: demo_pool_def)
  have tags: "demo_tags_validator tag_name = create_rules (tag_name ''name'' ''Name'')" by (simp add: demo_tags_validator_def)
  have request: "create_request ?r ''d'' (MaxRequestBytes (Config_HTTP (default_config ''postgres://db'')))"
    using demo_create_request by (simp add: create_request_def demo_request_def demo_handler_def demo_decoder_def default_config_def)
  have trim: "TrimSpace ''d'' = ''d''" by code_simp
  have "valid_utf8 ''d''" by (rule valid_utf8_plain) (simp add: plain_char_def)
  moreover have "length (runes ''d'') \<le> 120" by (subst runes_plain) (simp_all add: plain_char_def)
  moreover have "pg_next demo_pg \<le> max_bigint" by (simp add: demo_pg_def max_bigint_def)
  ultimately show ?thesis
    using create_through_the_application [OF reference_documented new db tags demo_inv demo_answering _ unwritten_fresh(1)
        _ _ _ request _ run refl refl] run
    by (auto simp: trim simp del: valid_utf8.simps runes.simps)
qed

section \<open>Draining\<close>

text \<open>The answers of the two probes, through the whole router.\<close>

lemma application_probe:
  assumes "documented_chi chi" "Build chi validate cfg (Some l) deps s0 = Inr (application, a)"
    and "unwritten (wd_resp w)" "rq_method r = ''GET''"
    and "(rq_path r, probe) \<in> {(''/health/live'', liveness), (''/health/ready'', readiness (app_checks (ReadinessChecks deps)))}"
  obtains r2 x w' where "unwritten (wd_resp x)" "wd_state x = wd_state w"
    "chi_ServeHTTP chi (app_handler application) r w = (Returned, w')"
    "wd_state w' = wd_state (snd (probe r2 x))" "rs_status (wd_resp w') = rs_status (wd_resp (snd (probe r2 x)))"
    "rs_body (wd_resp w') = rs_body (wd_resp (snd (probe r2 x)))"
proof -
  from assms(1,2) obtain l' v clientIP ms where ip: "sets_client_ip clientIP"
      and ms: "list_all (\<lambda>m. (\<exists>t > 0. m = requestTimeout t) \<or> sets_cors_headers m) ms"
      and serve: "chi_ServeHTTP chi (app_handler application) = around clientIP (RequestIDHandler l')
        (apply_all ms (app_routing chi (built_handler validate cfg l' v) (ReadinessChecks deps)))"
    by (rule Build_built)
  let ?routing = "app_routing chi (built_handler validate cfg l' v) (ReadinessChecks deps)"
  have verb: "rq_method r \<noteq> ''OPTIONS''" using assms(4) by simp
  obtain r2 w2 where same: "same_request r r2" and w2: "unwritten (wd_resp w2)" "wd_state w2 = wd_state w"
    and out: "\<And>w3. ?routing r2 w2 = (Returned, w3) \<Longrightarrow>
      \<exists>w'. around clientIP (RequestIDHandler l') (apply_all ms ?routing) r w = (Returned, w')
      \<and> wd_state w' = wd_state w3 \<and> rs_status (wd_resp w') = rs_status (wd_resp w3) \<and> rs_body (wd_resp w') = rs_body (wd_resp w3)"
    using around_reaches [OF ip assms(3) verb ms] by metis
  have verb2: "rq_method r2 = ''GET''" and path: "rq_path r2 = rq_path r" using same assms(4) by (simp_all add: same_request_def)
  have mount: "\<forall>(q, mh) \<in> set [(''/v1/widgets'', MuxHandler (Mux [] (Router (built_handler validate cfg l' v)) [] None None))].
      \<not> below q (rq_path r)"
    using assms(5) below_widgets by auto
  from probe_served [OF assms(1) verb2 assms(5) path mount] obtain ps
    where routed: "?routing r2 w2 = probe (r2\<lparr>rq_param := ps\<rparr>) w2" unfolding app_routing_def by blast
  have "fst (probe (r2\<lparr>rq_param := ps\<rparr>) w2) = Returned"
    using assms(5) by (auto simp: liveness_def readiness_def Let_def split: prod.split option.split)
  then have "?routing r2 w2 = (Returned, snd (probe (r2\<lparr>rq_param := ps\<rparr>) w2))" using routed by (simp add: prod_eq_iff)
  from out [OF this] serve obtain w' where "chi_ServeHTTP chi (app_handler application) r w = (Returned, w')"
    "wd_state w' = wd_state (snd (probe (r2\<lparr>rq_param := ps\<rparr>) w2))"
    "rs_status (wd_resp w') = rs_status (wd_resp (snd (probe (r2\<lparr>rq_param := ps\<rparr>) w2)))"
    "rs_body (wd_resp w') = rs_body (wd_resp (snd (probe (r2\<lparr>rq_param := ps\<rparr>) w2)))" by auto
  with w2 show thesis by (intro that [of w2 w' "r2\<lparr>rq_param := ps\<rparr>"])
qed

text \<open>The state after a sequence of requests, each with a response of its own.\<close>

definition serve_all :: "'s chi \<Rightarrow> 's mux \<Rightarrow> request list \<Rightarrow> 's \<Rightarrow> 's" where
  "serve_all chi m rs s = fold (\<lambda>r s. wd_state (snd (chi_ServeHTTP chi m r (fresh_world s)))) rs s"

lemma serve_all_keeps_switch:
  assumes "documented_chi chi" "Build chi validate cfg logger deps s0 = Inr (application, a)"
  shows "acceptingTraffic (serve_all chi (app_handler application) rs s) = acceptingTraffic s"
proof -
  note kept = switch_kept_by_application [OF assms]
  have "acceptingTraffic (fold (\<lambda>r s. wd_state (snd (chi_ServeHTTP chi (app_handler application) r (fresh_world s)))) rs s)
      = acceptingTraffic s"
    by (induction rs arbitrary: s) (simp_all add: kept)
  then show ?thesis by (simp add: serve_all_def)
qed

text \<open>
  C30. Draining is final: once the application has begun to drain, the readiness probe answers 503
  and asks no dependency, whatever requests were served in between, on whatever routes, while the
  liveness probe keeps answering 200.
\<close>

theorem draining_stays_unready:
  assumes "documented_chi chi" "Build chi validate cfg (Some l) deps s0 = Inr (application, a)"
    and "s = serve_all chi (app_handler application) rs (BeginDrain b)" "rq_method r = ''GET''"
    and "chi_ServeHTTP chi (app_handler application) r (fresh_world s) = (out, w')"
  shows "(rq_path r = ''/health/ready'' \<longrightarrow> out = Returned \<and> wd_state w' = s \<and> rs_status (wd_resp w') = 503
      \<and> rs_body (wd_resp w') = marshal (error_object ''not_ready'' ''Service is not ready.'') @ newline)
    \<and> (rq_path r = ''/health/live'' \<longrightarrow> out = Returned \<and> wd_state w' = s \<and> rs_status (wd_resp w') = 200)"
proof -
  have drained: "\<not> acceptingTraffic s"
    using serve_all_keeps_switch [OF assms(1,2)] by (simp add: assms(3) BeginDrain_def)
  have ready: "out = Returned \<and> wd_state w' = s \<and> rs_status (wd_resp w') = 503
      \<and> rs_body (wd_resp w') = marshal (error_object ''not_ready'' ''Service is not ready.'') @ newline"
    if "rq_path r = ''/health/ready''"
  proof -
    from that have "(rq_path r, readiness (app_checks (ReadinessChecks deps)))
        \<in> {(''/health/live'', liveness), (''/health/ready'', readiness (app_checks (ReadinessChecks deps)))}" by simp
    from assms(1,2) unwritten_fresh(1) assms(4) this obtain r2 x w1 where x: "unwritten (wd_resp x)" "wd_state x = s"
      and w1: "chi_ServeHTTP chi (app_handler application) r (fresh_world s) = (Returned, w1)"
      "wd_state w1 = wd_state (snd (readiness (app_checks (ReadinessChecks deps)) r2 x))"
      "rs_status (wd_resp w1) = rs_status (wd_resp (snd (readiness (app_checks (ReadinessChecks deps)) r2 x)))"
      "rs_body (wd_resp w1) = rs_body (wd_resp (snd (readiness (app_checks (ReadinessChecks deps)) r2 x)))"
      by (rule application_probe) simp
    have "run_checks (app_checks (ReadinessChecks deps)) c s = (Some (NewError ''application is draining''), s)" for c
      using drained by (simp add: app_checks_def checkAcceptingTraffic_def)
    then have "wd_state w1 = s" "rs_status (wd_resp w1) = 503"
      "rs_body (wd_resp w1) = marshal (error_object ''not_ready'' ''Service is not ready.'') @ newline"
      using w1 x by (simp_all add: readiness_response)
    with w1(1) assms(5) show ?thesis by simp
  qed
  moreover have "out = Returned \<and> wd_state w' = s \<and> rs_status (wd_resp w') = 200" if "rq_path r = ''/health/live''"
  proof -
    from that have "(rq_path r, liveness)
        \<in> {(''/health/live'', liveness), (''/health/ready'', readiness (app_checks (ReadinessChecks deps)))}" by simp
    from assms(1,2) unwritten_fresh(1) assms(4) this obtain r2 x w1 where "unwritten (wd_resp x)" "wd_state x = s"
      "chi_ServeHTTP chi (app_handler application) r (fresh_world s) = (Returned, w1)"
      "wd_state w1 = wd_state (snd (liveness r2 x))" "rs_status (wd_resp w1) = rs_status (wd_resp (snd (liveness r2 x)))"
      by (rule application_probe) simp
    with assms(5) show ?thesis by (simp add: liveness_response)
  qed
  ultimately show ?thesis by blast
qed

theorem draining_stays_unready_witness:
  "\<exists>(application :: pg App) w'. chi_ServeHTTP reference_chi (app_handler application) (health_request ''/health/ready'')
     (fresh_world (BeginDrain \<lparr>acceptingTraffic = True, app_inner = demo_pg\<rparr>)) = (Returned, w') \<and> rs_status (wd_resp w') = 503"
proof -
  let ?b = "\<lparr>acceptingTraffic = True, app_inner = demo_pg\<rparr>"
  obtain application deps where
    build: "Build reference_chi demo_tags_validator (default_config ''postgres://db'') (Some (Sink LevelInfo [] [])) deps demo_pg
      = Inr (application, ?b)" by (rule demo_built)
  obtain out w' where run: "chi_ServeHTTP reference_chi (app_handler application) (health_request ''/health/ready'')
      (fresh_world (BeginDrain ?b)) = (out, w')" by fastforce
  have "BeginDrain ?b = serve_all reference_chi (app_handler application) [] (BeginDrain ?b)" by (simp add: serve_all_def)
  from draining_stays_unready [OF reference_documented build this _ run] run show ?thesis
    by (intro exI [of _ application] exI [of _ w']) (simp add: health_request_def)
qed

end
