(* ===== verification/Http_Server.thy ===== *)
theory Http_Server
  imports App
begin

text \<open>
  Running the inbound server (\<open>internal/platform/httpserver/server.go\<close>). \<open>Run\<close> waits in two
  \<open>select\<close> statements for the goroutine that serves, for its context and for a timer, so it is a
  step relation between the states of the run: its own steps, those of the goroutine, the requests
  that are served meanwhile, the cancellation of its context and the passing of time.
\<close>

section \<open>The server\<close>

record 's Server =
  srv_Addr :: gostring
  srv_Handler :: "'s mux"
  srv_ReadHeaderTimeout :: duration
  srv_ReadTimeout :: duration
  srv_WriteTimeout :: duration
  srv_IdleTimeout :: duration
  srv_ErrorLog :: "slog_handler \<times> level"

definition server_New :: "HTTP \<Rightarrow> 's mux \<Rightarrow> slog_handler \<Rightarrow> 's Server" where
  "server_New cfg handler logger =
     \<lparr>srv_Addr = Address cfg, srv_Handler = handler, srv_ReadHeaderTimeout = ReadHeaderTimeout cfg,
      srv_ReadTimeout = ReadTimeout cfg, srv_WriteTimeout = WriteTimeout cfg, srv_IdleTimeout = IdleTimeout cfg,
      srv_ErrorLog = (logger, LevelError)\<rparr>"

record 's ShutdownOptions =
  so_BeginDrain :: "('s \<Rightarrow> 's) option"
  so_DrainDelay :: duration
  so_Timeout :: duration

section \<open>The states of a run\<close>

text \<open>
  Where \<open>Run\<close> is: in its first \<open>select\<close>, in the \<open>select\<close> of \<open>drain\<close> with a timer for the given
  time, in \<open>Shutdown\<close> with a context that expires at the given time, or returned.
\<close>

datatype phase = Selecting | Draining int | ShuttingDown int | Finished "gerror option"

text \<open>The goroutine: not scheduled yet, in \<open>ListenAndServe\<close>, or done.\<close>

datatype goroutine = Spawned | Listening | Exited

text \<open>
  \<open>run_channel\<close> is the buffered channel with the result of \<open>ListenAndServe\<close>, \<open>run_canceled\<close> whether
  the context of \<open>Run\<close> is done. \<open>run_began\<close> keeps the time at which the cancellation was taken, for
  the statements about it.
\<close>

record 's run_state =
  run_phase :: phase
  run_goroutine :: goroutine
  run_channel :: "gerror option"
  run_canceled :: bool
  run_now :: int
  run_app :: 's
  run_log :: "log_record list"
  run_began :: "int option"

definition run_info :: "slog_handler \<Rightarrow> gostring \<Rightarrow> (gostring \<times> attr_value) list \<Rightarrow> 's run_state \<Rightarrow> 's run_state" where
  "run_info logger msg attrs s =
     (if enabled logger LevelInfo
      then s\<lparr>run_log := run_log s
        @ Handle logger background \<lparr>lr_level = LevelInfo, lr_message = msg, lr_attrs = map (\<lambda>(k, v). ([k], v)) attrs\<rparr>\<rparr>
      else s)"

definition run_start :: "'s \<Rightarrow> 's run_state" where
  "run_start a = \<lparr>run_phase = Selecting, run_goroutine = Spawned, run_channel = None, run_canceled = False,
     run_now = 0, run_app = a, run_log = [], run_began = None\<rparr>"

text \<open>
  What serving one request with a handler may do to the state behind it. Requests are served one
  at a time here; what they share beside the state is the pool, which keeps its own order.
\<close>

definition app_request :: "'s chi \<Rightarrow> 's mux \<Rightarrow> 's \<Rightarrow> 's \<Rightarrow> bool" where
  "app_request chi handler a a' \<longleftrightarrow>
     (\<exists>r w. wd_state w = a \<and> a' = wd_state (snd (chi_ServeHTTP chi handler r w)))"

section \<open>The steps of Run\<close>

text \<open>Behind the first \<open>select\<close>: a context for the shutdown, with its own timeout.\<close>

definition begin_shutdown :: "'s ShutdownOptions \<Rightarrow> 's run_state \<Rightarrow> 's run_state" where
  "begin_shutdown options s = s\<lparr>run_phase := ShuttingDown (run_now s + sint (so_Timeout options))\<rparr>"

text \<open>The result of \<open>ListenAndServe\<close>, in either \<open>select\<close>.\<close>

definition take_result :: "'s ShutdownOptions \<Rightarrow> gerror \<Rightarrow> 's run_state \<Rightarrow> 's run_state" where
  "take_result options err s =
     (let s = s\<lparr>run_channel := None\<rparr> in
      if \<not> errors_Is err ErrServerClosed then s\<lparr>run_phase := Finished (Some (Wrapped ''serve HTTP'' err))\<rparr>
      else begin_shutdown options s)"

text \<open>\<open>drain\<close>: no delay ends it at once, otherwise it waits for its timer.\<close>

definition drain :: "'s ShutdownOptions \<Rightarrow> slog_handler \<Rightarrow> 's run_state \<Rightarrow> 's run_state" where
  "drain options logger s =
     (if sint (so_DrainDelay options) \<le> 0 then begin_shutdown options s
      else (run_info logger ''HTTP server draining'' [(''delay'', AttrDuration (sint (so_DrainDelay options)))] s)
        \<lparr>run_phase := Draining (run_now s + sint (so_DrainDelay options))\<rparr>)"

definition take_cancellation :: "'s ShutdownOptions \<Rightarrow> slog_handler \<Rightarrow> 's run_state \<Rightarrow> 's run_state" where
  "take_cancellation options logger s =
     (let s = s\<lparr>run_began := Some (run_now s)\<rparr>;
          s = (case so_BeginDrain options of None \<Rightarrow> s | Some f \<Rightarrow> s\<lparr>run_app := f (run_app s)\<rparr>)
      in drain options logger s)"

definition finish_shutdown :: "slog_handler \<Rightarrow> gerror option \<Rightarrow> 's run_state \<Rightarrow> 's run_state" where
  "finish_shutdown logger result s =
     (case result of
        Some err \<Rightarrow> s\<lparr>run_phase := Finished (Some (Wrapped ''shut down HTTP server'' err))\<rparr>
      | None \<Rightarrow> (run_info logger ''HTTP server stopped'' [] s)\<lparr>run_phase := Finished None\<rparr>)"

text \<open>
  One step. \<open>requests\<close> are the effects a request may have on the application; time passes up to the
  expiry of the timer or of the shutdown context that \<open>Run\<close> waits for, when it does.
\<close>

definition expires :: "phase \<Rightarrow> int option" where
  "expires p = (case p of Draining t \<Rightarrow> Some t | ShuttingDown t \<Rightarrow> Some t | _ \<Rightarrow> None)"

inductive run_step ::
  "'s Server \<Rightarrow> 's ShutdownOptions \<Rightarrow> slog_handler \<Rightarrow> ('s \<Rightarrow> 's \<Rightarrow> bool) \<Rightarrow> 's run_state \<Rightarrow> 's run_state \<Rightarrow> bool"
  for server options logger requests where
  Goroutine_starts: "run_goroutine s = Spawned \<Longrightarrow>
    run_step server options logger requests s
      ((run_info logger ''HTTP server started'' [(''address'', AttrString (srv_Addr server))] s)\<lparr>run_goroutine := Listening\<rparr>)"
| Goroutine_ends: "run_goroutine s = Listening \<Longrightarrow> run_channel s = None \<Longrightarrow>
    run_step server options logger requests s (s\<lparr>run_goroutine := Exited, run_channel := Some err\<rparr>)"
| Request_served: "run_goroutine s \<noteq> Spawned \<Longrightarrow> requests (run_app s) a \<Longrightarrow>
    run_step server options logger requests s (s\<lparr>run_app := a\<rparr>)"
| Context_canceled: "\<not> run_canceled s \<Longrightarrow>
    run_step server options logger requests s (s\<lparr>run_canceled := True\<rparr>)"
| Time_passes: "run_now s < t \<Longrightarrow> (\<forall>e. expires (run_phase s) = Some e \<longrightarrow> t \<le> e) \<Longrightarrow>
    run_step server options logger requests s (s\<lparr>run_now := t\<rparr>)"
| Select_result: "run_phase s = Selecting \<Longrightarrow> run_channel s = Some err \<Longrightarrow>
    run_step server options logger requests s (take_result options err s)"
| Select_done: "run_phase s = Selecting \<Longrightarrow> run_canceled s \<Longrightarrow>
    run_step server options logger requests s (take_cancellation options logger s)"
| Drain_result: "run_phase s = Draining t \<Longrightarrow> run_channel s = Some err \<Longrightarrow>
    run_step server options logger requests s (take_result options err s)"
| Drain_timer: "run_phase s = Draining t \<Longrightarrow> t \<le> run_now s \<Longrightarrow>
    run_step server options logger requests s (begin_shutdown options s)"
| Shutdown_returns: "run_phase s = ShuttingDown t \<Longrightarrow>
    run_step server options logger requests s (finish_shutdown logger result s)"

inductive_cases run_stepE [elim]: "run_step server options logger requests s s'"

text \<open>The states a run can reach.\<close>

inductive runs_to ::
  "'s Server \<Rightarrow> 's ShutdownOptions \<Rightarrow> slog_handler \<Rightarrow> ('s \<Rightarrow> 's \<Rightarrow> bool) \<Rightarrow> 's run_state \<Rightarrow> 's run_state \<Rightarrow> bool"
  for server options logger requests s where
  Run_starts: "runs_to server options logger requests s s"
| Run_goes_on: "runs_to server options logger requests s s' \<Longrightarrow> run_step server options logger requests s' s'' \<Longrightarrow>
    runs_to server options logger requests s s''"

lemma run_info_simps [simp]:
  "run_phase (run_info logger msg attrs s) = run_phase s" "run_goroutine (run_info logger msg attrs s) = run_goroutine s"
  "run_channel (run_info logger msg attrs s) = run_channel s" "run_canceled (run_info logger msg attrs s) = run_canceled s"
  "run_now (run_info logger msg attrs s) = run_now s" "run_app (run_info logger msg attrs s) = run_app s"
  "run_began (run_info logger msg attrs s) = run_began s"
  by (simp_all add: run_info_def)

section \<open>The invariant of a run\<close>

text \<open>
  For a fact \<open>P\<close> on the application that draining establishes: when the shutdown began, the delay
  had passed or serving had ended on its own, and the time of each wait is bounded.
\<close>

definition run_inv :: "'s ShutdownOptions \<Rightarrow> ('s \<Rightarrow> bool) \<Rightarrow> 's run_state \<Rightarrow> bool" where
  "run_inv options P s \<longleftrightarrow>
     (run_channel s \<noteq> None \<longrightarrow> run_goroutine s = Exited)
     \<and> (case run_began s of
          None \<Rightarrow> \<not> (\<exists>t. run_phase s = Draining t)
        | Some t0 \<Rightarrow> P (run_app s) \<and> t0 \<le> run_now s \<and>
            (case run_phase s of
               Selecting \<Rightarrow> False
             | Draining t \<Rightarrow> 0 < sint (so_DrainDelay options) \<and> t = t0 + sint (so_DrainDelay options) \<and> run_now s \<le> t
             | ShuttingDown t \<Rightarrow> run_now s \<le> t
                 \<and> t \<le> t0 + max 0 (sint (so_DrainDelay options)) + sint (so_Timeout options)
                 \<and> (t0 + sint (so_DrainDelay options) \<le> run_now s \<or> run_goroutine s = Exited)
             | Finished e \<Rightarrow> t0 + sint (so_DrainDelay options) \<le> run_now s \<or> run_goroutine s = Exited))"

lemma run_step_inv:
  assumes "run_step server options logger requests s s'" "run_inv options P s" "0 \<le> sint (so_Timeout options)"
    and "so_BeginDrain options = Some f" "\<And>a. P (f a)" "\<And>a a'. P a \<Longrightarrow> requests a a' \<Longrightarrow> P a'"
  shows "run_inv options P s'"
  using assms(1)
proof cases
  case Goroutine_starts
  with assms(2) show ?thesis by (auto simp: run_inv_def split: option.splits phase.splits)
next
  case (Goroutine_ends err)
  with assms(2) show ?thesis by (auto simp: run_inv_def split: option.splits phase.splits)
next
  case (Request_served a)
  with assms(2,6) show ?thesis by (auto simp: run_inv_def split: option.splits phase.splits)
next
  case Context_canceled
  with assms(2) show ?thesis by (auto simp: run_inv_def split: option.splits phase.splits)
next
  case (Time_passes t)
  with assms(2) show ?thesis by (auto simp: run_inv_def expires_def split: option.splits phase.splits)
next
  case (Select_result err)
  with assms(2,3) show ?thesis
    by (auto simp: run_inv_def take_result_def begin_shutdown_def Let_def split: option.splits phase.splits)
next
  case Select_done
  with assms(2-5) show ?thesis
    by (auto simp: run_inv_def take_cancellation_def drain_def begin_shutdown_def Let_def split: option.splits)
next
  case (Drain_result t err)
  with assms(2,3) show ?thesis
    by (auto simp: run_inv_def take_result_def begin_shutdown_def Let_def split: option.splits)
next
  case (Drain_timer t)
  with assms(2,3) show ?thesis
    by (auto simp: run_inv_def begin_shutdown_def split: option.splits)
next
  case (Shutdown_returns t result)
  with assms(2) show ?thesis
    by (cases result) (auto simp: run_inv_def finish_shutdown_def split: option.splits)
qed

lemma runs_to_inv:
  assumes "runs_to server options logger requests (run_start a) s" "0 \<le> sint (so_Timeout options)"
    and "so_BeginDrain options = Some f" "\<And>a. P (f a)" "\<And>a a'. P a \<Longrightarrow> requests a a' \<Longrightarrow> P a'"
  shows "run_inv options P s"
  using assms(1)
proof induction
  case Run_starts
  then show ?case by (simp add: run_inv_def run_start_def)
next
  case (Run_goes_on s' s'')
  show ?case by (rule run_step_inv [OF Run_goes_on(2,3) assms(2,3)]) (use assms(4,5) in auto)
qed

text \<open>
  What holds of the application throughout a run: what draining and the requests keep. Whether
  the cancellation was taken is part of it.
\<close>

lemma runs_to_app:
  assumes "runs_to server options logger requests (run_start a) s" "so_BeginDrain options = Some f"
    and "P False a" "\<And>b a. P b a \<Longrightarrow> P True (f a)" "\<And>b a a'. P b a \<Longrightarrow> requests a a' \<Longrightarrow> P b a'"
  shows "P (run_began s \<noteq> None) (run_app s)"
  using assms(1)
proof induction
  case Run_starts
  show ?case using assms(3) by (simp add: run_start_def)
next
  case (Run_goes_on s' s'')
  from Run_goes_on(2) show ?case
  proof cases
    case Select_done
    with Run_goes_on(3) assms(2,4) show ?thesis by (simp add: take_cancellation_def drain_def begin_shutdown_def Let_def)
  next
    case (Request_served a)
    with Run_goes_on(3) assms(5) show ?thesis by simp
  next
    case (Shutdown_returns t result)
    with Run_goes_on(3) show ?thesis by (cases result) (simp_all add: finish_shutdown_def)
  qed (use Run_goes_on(3) in \<open>simp_all add: take_result_def begin_shutdown_def Let_def\<close>)
qed

lemma runs_step: "run_step server options logger requests s s' \<Longrightarrow> runs_to server options logger requests s s'"
  by (rule Run_goes_on [OF Run_starts])

section \<open>Executions\<close>

text \<open>
  An execution is an infinite sequence of steps, in which time goes on after the end. It is fair
  when \<open>Run\<close> itself, whose steps are those that change its phase, does not stand still for ever
  while it could take one, and when the clock reaches every time that no expiry keeps it from: it may
  stop at the expiry of a timer only if the run stays at that timer. The listener, the requests and
  the cancellation need not be fair.
\<close>

definition could_move_on ::
  "'s Server \<Rightarrow> 's ShutdownOptions \<Rightarrow> slog_handler \<Rightarrow> ('s \<Rightarrow> 's \<Rightarrow> bool) \<Rightarrow> 's run_state \<Rightarrow> bool" where
  "could_move_on server options logger requests s \<longleftrightarrow>
     (\<exists>s'. run_step server options logger requests s s' \<and> run_phase s' \<noteq> run_phase s)"

definition fair_execution ::
  "'s Server \<Rightarrow> 's ShutdownOptions \<Rightarrow> slog_handler \<Rightarrow> ('s \<Rightarrow> 's \<Rightarrow> bool) \<Rightarrow> 's \<Rightarrow> (nat \<Rightarrow> 's run_state) \<Rightarrow> bool" where
  "fair_execution server options logger requests a \<sigma> \<longleftrightarrow>
     \<sigma> 0 = run_start a \<and> (\<forall>i. run_step server options logger requests (\<sigma> i) (\<sigma> (Suc i)))
     \<and> (\<forall>n. (\<forall>i \<ge> n. could_move_on server options logger requests (\<sigma> i))
          \<longrightarrow> (\<exists>i \<ge> n. run_phase (\<sigma> (Suc i)) \<noteq> run_phase (\<sigma> i)))
     \<and> (\<forall>n t. (\<forall>i \<ge> n. \<forall>e. expires (run_phase (\<sigma> i)) = Some e \<longrightarrow> t \<le> e) \<longrightarrow> (\<exists>i \<ge> n. t \<le> run_now (\<sigma> i)))"

lemma fair_executionD:
  assumes "fair_execution server options logger requests a \<sigma>"
  shows "run_step server options logger requests (\<sigma> i) (\<sigma> (Suc i))"
    "\<forall>n. (\<forall>i \<ge> n. could_move_on server options logger requests (\<sigma> i))
      \<longrightarrow> (\<exists>i \<ge> n. run_phase (\<sigma> (Suc i)) \<noteq> run_phase (\<sigma> i))"
    "\<forall>n t. (\<forall>i \<ge> n. \<forall>e. expires (run_phase (\<sigma> i)) = Some e \<longrightarrow> t \<le> e) \<longrightarrow> (\<exists>i \<ge> n. t \<le> run_now (\<sigma> i))"
  using assms unfolding fair_execution_def by simp_all

lemma execution_reaches:
  "fair_execution server options logger requests a \<sigma> \<Longrightarrow> runs_to server options logger requests (run_start a) (\<sigma> i)"
  by (induction i) (auto simp: fair_execution_def intro: runs_to.intros)

text \<open>What no step undoes, and the waits a phase leaves for later.\<close>

fun waits_left :: "phase \<Rightarrow> nat" where
  "waits_left Selecting = 3"
| "waits_left (Draining t) = 2"
| "waits_left (ShuttingDown t) = 1"
| "waits_left (Finished e) = 0"

lemma waits_left_0: "waits_left p = 0 \<longleftrightarrow> (\<exists>e. p = Finished e)"
  by (cases p) auto

lemma step_forward:
  assumes "run_step server options logger requests s s'"
  shows "run_phase s' = run_phase s \<or> waits_left (run_phase s') < waits_left (run_phase s)"
    "run_canceled s \<Longrightarrow> run_canceled s'" "run_now s \<le> run_now s'"
  using assms
  by (auto elim!: run_stepE simp: take_result_def begin_shutdown_def take_cancellation_def drain_def finish_shutdown_def
      Let_def split: option.splits if_splits)

text \<open>Where \<open>Run\<close> can move on by itself, whatever the listener does.\<close>

lemma moves_on:
  "run_phase s = Selecting \<Longrightarrow> run_canceled s \<Longrightarrow> could_move_on server options logger requests s"
  "run_phase s = Draining t \<Longrightarrow> t \<le> run_now s \<Longrightarrow> could_move_on server options logger requests s"
  "run_phase s = ShuttingDown t \<Longrightarrow> could_move_on server options logger requests s"
proof -
  show "could_move_on server options logger requests s" if "run_phase s = Selecting" "run_canceled s"
    unfolding could_move_on_def
    by (rule exI, rule conjI, rule Select_done [OF that])
      (auto simp: that(1) take_cancellation_def drain_def begin_shutdown_def Let_def split: option.split)
  show "could_move_on server options logger requests s" if "run_phase s = Draining t" "t \<le> run_now s"
    unfolding could_move_on_def
    by (rule exI, rule conjI, rule Drain_timer [OF that]) (simp add: that(1) begin_shutdown_def)
  show "could_move_on server options logger requests s" if "run_phase s = ShuttingDown t"
    unfolding could_move_on_def
    by (rule exI, rule conjI, rule Shutdown_returns [OF that, where result = None]) (simp add: that finish_shutdown_def)
qed

lemma execution_goes_on:
  assumes fair: "fair_execution server options logger requests a \<sigma>" and canceled: "run_canceled (\<sigma> n)"
    and going: "waits_left (run_phase (\<sigma> n)) \<noteq> 0"
  shows "\<exists>i \<ge> n. run_phase (\<sigma> i) \<noteq> run_phase (\<sigma> n)"
proof (rule ccontr)
  assume "\<not> (\<exists>i \<ge> n. run_phase (\<sigma> i) \<noteq> run_phase (\<sigma> n))"
  then have same: "run_phase (\<sigma> i) = run_phase (\<sigma> n)" if "n \<le> i" for i using that by blast
  have step: "run_step server options logger requests (\<sigma> i) (\<sigma> (Suc i))" for i
    by (rule fair_executionD(1) [OF fair])
  have clocked: "(\<forall>i \<ge> n. \<forall>e. expires (run_phase (\<sigma> i)) = Some e \<longrightarrow> t \<le> e) \<longrightarrow> (\<exists>i \<ge> n. t \<le> run_now (\<sigma> i))" for t
    by (rule fair_executionD(3) [OF fair, THEN spec [of _ n], THEN spec [of _ t]])
  have kept: "run_canceled (\<sigma> i)" if "n \<le> i" for i
    using that
  proof (induction rule: dec_induct)
    case (step i)
    then show ?case by (intro step_forward(2) [OF \<open>\<And>i. run_step server options logger requests (\<sigma> i) (\<sigma> (Suc i))\<close>])
  qed (rule canceled)
  have clock: "run_now (\<sigma> i) \<le> run_now (\<sigma> j)" if "i \<le> j" for i j
    using lift_Suc_mono_le [of "\<lambda>i. run_now (\<sigma> i)", OF step_forward(3) [OF step] that] .
  have "\<exists>m \<ge> n. \<forall>i \<ge> m. could_move_on server options logger requests (\<sigma> i)"
  proof (cases "run_phase (\<sigma> n)")
    case Selecting
    show ?thesis
      by (intro exI [of _ n] conjI allI impI moves_on(1) order_refl) (simp_all add: same Selecting kept)
  next
    case (Draining t)
    have "\<forall>i \<ge> n. \<forall>e. expires (run_phase (\<sigma> i)) = Some e \<longrightarrow> t \<le> e"
      by (intro allI impI) (simp add: same Draining expires_def)
    with clocked obtain m where m: "n \<le> m" "t \<le> run_now (\<sigma> m)" by blast
    show ?thesis
    proof (intro exI [of _ m] conjI allI impI moves_on(2) [of _ t])
      fix i assume "m \<le> i"
      then show "run_phase (\<sigma> i) = Draining t" "t \<le> run_now (\<sigma> i)"
        using m same [of i] Draining clock [of m i] by simp_all
    qed (rule m(1))
  next
    case (ShuttingDown t)
    show ?thesis
      by (intro exI [of _ n] conjI allI impI moves_on(3) [of _ t] order_refl) (simp_all add: same ShuttingDown)
  qed (use going in simp)
  then obtain m where m: "n \<le> m" "\<forall>i \<ge> m. could_move_on server options logger requests (\<sigma> i)" by blast
  then obtain i where "m \<le> i" "run_phase (\<sigma> (Suc i)) \<noteq> run_phase (\<sigma> i)"
    using fair_executionD(2) [OF fair, THEN spec [of _ m]] by blast
  with m(1) same [of i] same [of "Suc i"] show False by simp
qed

lemma execution_finishes:
  assumes "fair_execution server options logger requests a \<sigma>" "run_canceled (\<sigma> n)"
  shows "\<exists>i e. run_phase (\<sigma> i) = Finished e"
  using assms(2)
proof (induction "waits_left (run_phase (\<sigma> n))" arbitrary: n rule: less_induct)
  case less
  have step: "run_step server options logger requests (\<sigma> i) (\<sigma> (Suc i))" for i
    by (rule fair_executionD(1) [OF assms(1)])
  show ?case
  proof (cases "waits_left (run_phase (\<sigma> n)) = 0")
    case True
    then show ?thesis unfolding waits_left_0 by blast
  next
    case False
    from execution_goes_on [OF assms(1) less.prems False] obtain i where i: "n \<le> i" "run_phase (\<sigma> i) \<noteq> run_phase (\<sigma> n)" by blast
    have "run_canceled (\<sigma> i) \<and> (run_phase (\<sigma> i) = run_phase (\<sigma> n) \<or> waits_left (run_phase (\<sigma> i)) < waits_left (run_phase (\<sigma> n)))"
      using i(1)
    proof (induction rule: dec_induct)
      case (step i)
      with step_forward(1,2) [OF \<open>\<And>i. run_step server options logger requests (\<sigma> i) (\<sigma> (Suc i))\<close>, of i] show ?case by auto
    qed (use less.prems in simp)
    with i(2) less.hyps [of i] show ?thesis by blast
  qed
qed

text \<open>The first position at which a run has returned, and how it got there.\<close>

lemma finishing_step:
  assumes "run_step server options logger requests s s'" "run_inv options (\<lambda>_. True) s"
    and "run_phase s' = Finished e" "\<nexists>e. run_phase s = Finished e" "0 \<le> sint (so_Timeout options)"
  shows "run_began s' = Some t0 \<Longrightarrow> run_now s' \<le> t0 + max 0 (sint (so_DrainDelay options)) + sint (so_Timeout options)"
    "e = None \<or> (\<exists>err. e = Some (Wrapped ''serve HTTP'' err) \<and> \<not> errors_Is err ErrServerClosed \<and> run_goroutine s' = Exited)
      \<or> (\<exists>err. e = Some (Wrapped ''shut down HTTP server'' err))"
  using assms
  by (auto elim!: run_stepE simp: run_inv_def take_result_def begin_shutdown_def take_cancellation_def drain_def finish_shutdown_def
      Let_def split: option.splits if_splits)

lemma execution_first_finish:
  assumes fair: "fair_execution server options logger requests a \<sigma>" and "run_canceled (\<sigma> n)"
    and drains: "so_BeginDrain options = Some f" "0 \<le> sint (so_Timeout options)"
  shows "\<exists>i e. run_phase (\<sigma> i) = Finished e
    \<and> (\<forall>t0. run_began (\<sigma> i) = Some t0 \<longrightarrow>
        run_now (\<sigma> i) \<le> t0 + max 0 (sint (so_DrainDelay options)) + sint (so_Timeout options))
    \<and> (e = None \<or> (\<exists>err. e = Some (Wrapped ''serve HTTP'' err) \<and> \<not> errors_Is err ErrServerClosed \<and> run_goroutine (\<sigma> i) = Exited)
      \<or> (\<exists>err. e = Some (Wrapped ''shut down HTTP server'' err)))
    \<and> card {j. j < i \<and> run_phase (\<sigma> (Suc j)) \<noteq> run_phase (\<sigma> j)} \<le> 3"
proof -
  let ?over = "\<lambda>i. \<exists>e. run_phase (\<sigma> i) = Finished e"
  have step: "run_step server options logger requests (\<sigma> i) (\<sigma> (Suc i))" for i
    by (rule fair_executionD(1) [OF fair])
  have start: "run_phase (\<sigma> 0) = Selecting" using fair by (simp add: fair_execution_def run_start_def)
  define k where "k = (LEAST i. ?over i)"
  have ended: "?over k" unfolding k_def by (rule LeastI_ex) (rule execution_finishes [OF fair assms(2)])
  then obtain e where e: "run_phase (\<sigma> k) = Finished e" by blast
  obtain j where j: "k = Suc j" using start e by (cases k) auto
  have before: "\<not> ?over j" using not_less_Least [of j ?over] j by (simp add: k_def)
  have inv: "run_inv options (\<lambda>_. True) (\<sigma> j)"
    by (rule runs_to_inv [OF execution_reaches [OF fair] drains(2,1)]) simp_all
  note finish = finishing_step [OF step [of j] inv _ before drains(2), folded j, OF e]
  have count: "card {j. j < i \<and> run_phase (\<sigma> (Suc j)) \<noteq> run_phase (\<sigma> j)} + waits_left (run_phase (\<sigma> i)) \<le> 3" for i
  proof (induction i)
    case 0
    show ?case by (simp add: start)
  next
    case (Suc i)
    let ?C = "\<lambda>i. {j. j < i \<and> run_phase (\<sigma> (Suc j)) \<noteq> run_phase (\<sigma> j)}"
    have "?C (Suc i) = (if run_phase (\<sigma> (Suc i)) \<noteq> run_phase (\<sigma> i) then insert i (?C i) else ?C i)"
      by (auto simp: less_Suc_eq)
    moreover have "card (insert i (?C i)) = Suc (card (?C i))" by (rule card_insert_disjoint) auto
    ultimately show ?case using Suc step_forward(1) [OF step, of i] by (auto split: if_splits)
  qed
  have "card {j. j < k \<and> run_phase (\<sigma> (Suc j)) \<noteq> run_phase (\<sigma> j)} \<le> 3" using count [of k] by simp
  with e finish show ?thesis by (intro exI [of _ k] exI [of _ e]) blast
qed

end
