(* ===== verification/Server_Properties.thy ===== *)
theory Server_Properties
  imports Http_Server App_Properties
begin

text \<open>
  The properties of a run of the server with the application behind it: what holds from the moment
  the run takes its cancellation, and that it ends.
\<close>

lemma app_request_keeps_switch:
  assumes "documented_chi chi" "Build chi validate cfg logger deps s0 = Inr (application, a0)"
    and "app_request chi (app_Handler application) a a'"
  shows "acceptingTraffic a' = acceptingTraffic a"
  using switch_kept_by_application [OF assms(1,2)] assms(3)
  by (auto simp: app_request_def app_Handler_def)

text \<open>
  C8. From the moment a run takes its cancellation, in every state it can reach, whatever requests
  are served meanwhile and however the steps interleave: the application is not accepting traffic;
  the shutdown does not begin before the drain delay has passed, unless serving has ended on its
  own; and the run does not wait beyond the drain delay and the shutdown timeout together.
\<close>

theorem shutdown_follows_the_drain:
  assumes "documented_chi chi" "Build chi validate cfg (Some l) deps s0 = Inr (application, a)"
    and "so_BeginDrain options = Some BeginDrain" "0 \<le> sint (so_DrainDelay options)" "0 \<le> sint (so_Timeout options)"
    and "runs_to server options logger (app_request chi (app_Handler application)) (run_start a) s" "run_began s = Some t0"
  shows "\<not> acceptingTraffic (run_app s)
    \<and> (case run_phase s of
         Selecting \<Rightarrow> False
       | Draining t \<Rightarrow> run_now s \<le> t0 + sint (so_DrainDelay options)
       | ShuttingDown t \<Rightarrow> (t0 + sint (so_DrainDelay options) \<le> run_now s \<or> run_goroutine s = Exited)
           \<and> run_now s \<le> t0 + sint (so_DrainDelay options) + sint (so_Timeout options)
       | Finished e \<Rightarrow> t0 + sint (so_DrainDelay options) \<le> run_now s \<or> run_goroutine s = Exited)"
proof -
  have "run_inv options (\<lambda>b. \<not> acceptingTraffic b) s"
    by (rule runs_to_inv [OF assms(6,5,3)])
      (use app_request_keeps_switch [OF assms(1,2)] in \<open>auto simp: BeginDrain_def\<close>)
  with assms(4,7) show ?thesis by (auto simp: run_inv_def max_def split: phase.splits)
qed

definition demo_shutdown :: "'s app_state ShutdownOptions" where
  "demo_shutdown = \<lparr>so_BeginDrain = Some BeginDrain, so_DrainDelay = seconds 5, so_Timeout = seconds 10\<rparr>"

definition demo_server :: "pg app_state mux \<Rightarrow> pg app_state Server" where
  "demo_server m = server_New (Config_HTTP (default_config ''postgres://db'')) m (Sink LevelInfo [] [])"

text \<open>The cancellation arrives at once and is taken.\<close>

lemma demo_run:
  "runs_to server demo_shutdown logger requests (run_start a)
     (take_cancellation demo_shutdown logger ((run_start a)\<lparr>run_canceled := True\<rparr>))"
proof -
  have "run_step server demo_shutdown logger requests (run_start a) ((run_start a)\<lparr>run_canceled := True\<rparr>)"
    by (rule Context_canceled) (simp add: run_start_def)
  moreover have "run_step server demo_shutdown logger requests ((run_start a)\<lparr>run_canceled := True\<rparr>)
      (take_cancellation demo_shutdown logger ((run_start a)\<lparr>run_canceled := True\<rparr>))"
    by (rule Select_done) (simp_all add: run_start_def)
  ultimately show ?thesis by (intro Run_goes_on [OF runs_step])
qed

lemma demo_began:
  "run_began (take_cancellation demo_shutdown logger ((run_start a)\<lparr>run_canceled := True\<rparr>)) = Some 0"
  by (simp add: take_cancellation_def demo_shutdown_def drain_def run_start_def Let_def)

theorem shutdown_follows_the_drain_witness:
  "\<not> acceptingTraffic (run_app (take_cancellation demo_shutdown (Sink LevelInfo [] [])
     ((run_start \<lparr>acceptingTraffic = True, app_inner = demo_pg\<rparr>)\<lparr>run_canceled := True\<rparr>)))"
proof -
  obtain application deps where
    build: "Build reference_chi demo_tags_validator (default_config ''postgres://db'') (Some (Sink LevelInfo [] [])) deps demo_pg
      = Inr (application, \<lparr>acceptingTraffic = True, app_inner = demo_pg\<rparr>)" by (rule demo_built)
  show ?thesis
    by (rule shutdown_follows_the_drain [where server = "demo_server (app_handler application)",
          OF reference_documented build _ _ _ demo_run demo_began, THEN conjunct1])
      (simp_all add: demo_shutdown_def)
qed

text \<open>
  C27. A run that is canceled ends, in every fair execution: whatever the listener does, also when it
  never returns, whatever requests are served and however slow they are, \<open>Run\<close> comes to return. It
  gets there with at most three steps of its own; and from the moment it took the cancellation no
  more time passes than the drain delay and the shutdown timeout together.
\<close>

theorem canceled_run_ends:
  assumes "fair_execution server options logger requests a \<sigma>" "run_canceled (\<sigma> n)"
    and "so_BeginDrain options = Some f" "0 \<le> sint (so_Timeout options)"
  shows "\<exists>i. (\<exists>e. run_phase (\<sigma> i) = Finished e)
    \<and> (\<forall>t0. run_began (\<sigma> i) = Some t0 \<longrightarrow>
        run_now (\<sigma> i) \<le> t0 + max 0 (sint (so_DrainDelay options)) + sint (so_Timeout options))
    \<and> card {j. j < i \<and> run_phase (\<sigma> (Suc j)) \<noteq> run_phase (\<sigma> j)} \<le> 3"
  using execution_first_finish [OF assms] by blast

text \<open>
  An execution in which the listener never returns: the cancellation arrives at once, the drain delay
  passes, the shutdown returns, and then only time goes on.
\<close>

definition demo_execution :: "slog_handler \<Rightarrow> 's app_state \<Rightarrow> nat \<Rightarrow> 's app_state run_state" where
  "demo_execution l a i =
     (let s1 = (run_start a)\<lparr>run_canceled := True\<rparr>; s2 = take_cancellation demo_shutdown l s1;
          s3 = s2\<lparr>run_now := 5000000000\<rparr>; s4 = begin_shutdown demo_shutdown s3; s5 = finish_shutdown l None s4
      in if i = 0 then run_start a else if i = 1 then s1 else if i = 2 then s2 else if i = 3 then s3
         else if i = 4 then s4 else s5\<lparr>run_now := 5000000000 + int (i - 5)\<rparr>)"

lemma demo_drain:
  "run_phase (take_cancellation demo_shutdown l ((run_start a)\<lparr>run_canceled := True\<rparr>)) = Draining 5000000000"
  "run_now (take_cancellation demo_shutdown l ((run_start a)\<lparr>run_canceled := True\<rparr>)) = 0"
  by (simp_all add: take_cancellation_def drain_def demo_shutdown_def run_start_def Let_def)

lemma demo_execution_step:
  "run_step server demo_shutdown l requests (demo_execution l a i) (demo_execution l a (Suc i))"
proof -
  consider "i = 0" | "i = 1" | "i = 2" | "i = 3" | "i = 4" | "5 \<le> i" by linarith
  then show ?thesis
  proof cases
    case 1
    have "run_step server demo_shutdown l requests (run_start a) ((run_start a)\<lparr>run_canceled := True\<rparr>)"
      by (rule Context_canceled) (simp add: run_start_def)
    with 1 show ?thesis by (simp add: demo_execution_def Let_def)
  next
    case 2
    have "run_step server demo_shutdown l requests ((run_start a)\<lparr>run_canceled := True\<rparr>)
        (take_cancellation demo_shutdown l ((run_start a)\<lparr>run_canceled := True\<rparr>))"
      by (rule Select_done) (simp_all add: run_start_def)
    with 2 show ?thesis by (simp add: demo_execution_def Let_def)
  next
    case 3
    let ?s = "take_cancellation demo_shutdown l ((run_start a)\<lparr>run_canceled := True\<rparr>)"
    have "run_step server demo_shutdown l requests ?s (?s\<lparr>run_now := 5000000000\<rparr>)"
      by (rule Time_passes) (simp_all add: demo_drain expires_def)
    with 3 show ?thesis by (simp add: demo_execution_def Let_def)
  next
    case 4
    let ?s = "(take_cancellation demo_shutdown l ((run_start a)\<lparr>run_canceled := True\<rparr>))\<lparr>run_now := 5000000000\<rparr>"
    have "run_step server demo_shutdown l requests ?s (begin_shutdown demo_shutdown ?s)"
      by (rule Drain_timer [where t = 5000000000]) (simp_all add: demo_drain)
    with 4 show ?thesis by (simp add: demo_execution_def Let_def)
  next
    case 5
    let ?s = "begin_shutdown demo_shutdown ((take_cancellation demo_shutdown l ((run_start a)\<lparr>run_canceled := True\<rparr>))
      \<lparr>run_now := 5000000000\<rparr>)"
    have "run_step server demo_shutdown l requests ?s (finish_shutdown l None ?s)"
      by (rule Shutdown_returns) (simp add: begin_shutdown_def)
    moreover have "(finish_shutdown l None ?s)\<lparr>run_now := 5000000000\<rparr> = finish_shutdown l None ?s"
      by (simp add: finish_shutdown_def begin_shutdown_def run_info_def)
    ultimately show ?thesis using 5 by (simp add: demo_execution_def Let_def)
  next
    case 6
    have step: "run_step server demo_shutdown l requests (s\<lparr>run_now := t\<rparr>) (s\<lparr>run_now := t + 1\<rparr>)"
      if "run_phase s = Finished None" for s t
      using Time_passes [of "s\<lparr>run_now := t\<rparr>" "t + 1" server demo_shutdown l requests] that by (simp add: expires_def)
    let ?s = "finish_shutdown l None (begin_shutdown demo_shutdown ((take_cancellation demo_shutdown l
      ((run_start a)\<lparr>run_canceled := True\<rparr>))\<lparr>run_now := 5000000000\<rparr>))"
    have "run_phase ?s = Finished None" by (simp add: finish_shutdown_def)
    from step [OF this, of "5000000000 + int (i - 5)"] 6 show ?thesis
      by (simp add: demo_execution_def Let_def Suc_diff_le add.assoc add.commute)
  qed
qed

lemma demo_execution_fair: "fair_execution server demo_shutdown l requests a (demo_execution l a)"
  unfolding fair_execution_def
proof (intro conjI allI impI)
  show "demo_execution l a 0 = run_start a" by (simp add: demo_execution_def Let_def)
  show "run_step server demo_shutdown l requests (demo_execution l a i) (demo_execution l a (Suc i))" for i
    by (rule demo_execution_step)
next
  fix n
  assume "\<forall>i \<ge> n. could_move_on server demo_shutdown l requests (demo_execution l a i)"
  then have "could_move_on server demo_shutdown l requests (demo_execution l a (n + 5))" by simp
  moreover have "run_phase (demo_execution l a (n + 5)) = Finished None"
    by (simp add: demo_execution_def Let_def finish_shutdown_def)
  ultimately have False using step_forward(1) by (fastforce simp: could_move_on_def)
  then show "\<exists>i \<ge> n. run_phase (demo_execution l a (Suc i)) \<noteq> run_phase (demo_execution l a i)" ..
next
  fix n t
  have "run_now (demo_execution l a (n + nat t + 5)) = 5000000000 + int n + int (nat t)"
    by (simp add: demo_execution_def Let_def)
  then show "\<exists>i \<ge> n. t \<le> run_now (demo_execution l a i)" by (intro exI [of _ "n + nat t + 5"]) simp
qed

lemma demo_execution_canceled: "run_canceled (demo_execution l a 1)"
  by (simp add: demo_execution_def Let_def)

theorem canceled_run_ends_witness:
  "\<exists>i e. run_phase (demo_execution (Sink LevelInfo [] []) \<lparr>acceptingTraffic = True, app_inner = demo_pg\<rparr> i) = Finished e"
proof -
  have "so_BeginDrain demo_shutdown = Some BeginDrain" "0 \<le> sint (so_Timeout demo_shutdown)" by (simp_all add: demo_shutdown_def)
  from canceled_run_ends [OF demo_execution_fair demo_execution_canceled this] show ?thesis by blast
qed

end
