(* ===== verification/Cmd_Migrate.thy ===== *)
theory Cmd_Migrate
  imports Database Http_Log
begin

text \<open>
  The migration job (\<open>cmd/migrate/main.go\<close>, with \<open>db/embed.go\<close>): it reads three variables of the
  environment, runs the pending migrations and reports the outcome in one record and its exit
  status. The embedded file system is a parameter.
\<close>

section \<open>The settings of the job\<close>

definition defaultTimeout :: duration where
  "defaultTimeout = seconds 300"

definition defaultLockTimeout :: duration where
  "defaultLockTimeout = seconds 5"

text \<open>\<open>os.Getenv\<close>: a variable that is not set reads as the empty text.\<close>

definition Getenv :: "env \<Rightarrow> gostring \<Rightarrow> gostring" where
  "Getenv env name = (case env name of None \<Rightarrow> [] | Some v \<Rightarrow> v)"

definition migrationLockTimeout :: "env \<Rightarrow> gerror + duration" where
  "migrationLockTimeout env =
     (let v = TrimSpace (Getenv env ''MIGRATE_LOCK_TIMEOUT'') in
      if v = [] then Inr defaultLockTimeout
      else case ParseDuration v of
        Inl err \<Rightarrow> Inl (Wrapped ''parse MIGRATE_LOCK_TIMEOUT'' err)
      | Inr timeout \<Rightarrow>
          if sint timeout < 0 then Inl (NewError ''MIGRATE_LOCK_TIMEOUT must not be negative'') else Inr timeout)"

definition migrationTimeout :: "env \<Rightarrow> gerror + duration" where
  "migrationTimeout env =
     (let v = TrimSpace (Getenv env ''MIGRATE_TIMEOUT'') in
      if v = [] then Inr defaultTimeout
      else case ParseDuration v of
        Inl err \<Rightarrow> Inl (Wrapped ''parse MIGRATE_TIMEOUT'' err)
      | Inr timeout \<Rightarrow>
          if sint timeout \<le> 0 then Inl (NewError ''MIGRATE_TIMEOUT must be positive'') else Inr timeout)"

section \<open>The embedded migrations\<close>

text \<open>\<open>fs_Sub\<close> is \<open>fs.Sub\<close> on the embedded file system; a missing directory makes it panic.\<close>

definition Migrations :: "(gostring \<Rightarrow> gerror + 'fs) \<Rightarrow> gostring + 'fs" where
  "Migrations fs_Sub = (case fs_Sub ''migrations'' of
       Inl err \<Rightarrow> Inl (''embedded migrations are missing: '' @ error_text err)
     | Inr migrations \<Rightarrow> Inr migrations)"

section \<open>The job\<close>

text \<open>\<open>run\<close>, started at the time \<open>now\<close>: the value of a panic, or the result with the new state.\<close>

definition migrate_run ::
  "('s, 'c, 'fs, 'd, 'p) goose \<Rightarrow> (gostring \<Rightarrow> gerror + 'fs) \<Rightarrow> env \<Rightarrow> slog_handler \<Rightarrow> int \<Rightarrow> 's
    \<Rightarrow> gostring + (int64 list \<times> gerror option) \<times> 's" where
  "migrate_run lib fs_Sub env logger now s =
     (let databaseURL = TrimSpace (Getenv env ''DATABASE_URL'') in
      if databaseURL = [] then Inr (([], Some (NewError ''DATABASE_URL must not be empty'')), s)
      else case migrationTimeout env of
        Inl err \<Rightarrow> Inr (([], Some err), s)
      | Inr timeout \<Rightarrow>
          (case migrationLockTimeout env of
             Inl err \<Rightarrow> Inr (([], Some err), s)
           | Inr lockTimeout \<Rightarrow>
               (case Migrations fs_Sub of
                  Inl panic \<Rightarrow> Inl panic
                | Inr migrations \<Rightarrow>
                    Inr (Migrate lib (WithTimeout now (sint timeout) background) databaseURL migrations
                      \<lparr>LockTimeout = lockTimeout, Logger = Some logger\<rparr> s))))"

text \<open>The records of one call of a logger without a request.\<close>

definition log_records :: "slog_handler \<Rightarrow> level \<Rightarrow> gostring \<Rightarrow> (gostring \<times> attr_value) list \<Rightarrow> log_record list" where
  "log_records logger lv msg attrs =
     (if enabled logger lv
      then Handle logger background \<lparr>lr_level = lv, lr_message = msg, lr_attrs = map (\<lambda>(k, v). ([k], v)) attrs\<rparr>
      else [])"

text \<open>\<open>main\<close>: the exit status, the records it writes itself, and the new state. A panic exits with 2.\<close>

definition migrate_main ::
  "('s, 'c, 'fs, 'd, 'p) goose \<Rightarrow> (gostring \<Rightarrow> gerror + 'fs) \<Rightarrow> env \<Rightarrow> int \<Rightarrow> 's \<Rightarrow> nat \<times> log_record list \<times> 's" where
  "migrate_main lib fs_Sub env now s =
     (let logger = Sink LevelInfo [] [] in
      case migrate_run lib fs_Sub env logger now s of
        Inl panic \<Rightarrow> (2, [], s)
      | Inr ((applied, Some err), s) \<Rightarrow>
          (1, log_records logger LevelError ''migrations failed''
             [(''error'', AttrString (error_text err)), (''applied'', AttrInts applied)], s)
      | Inr ((applied, None), s) \<Rightarrow>
          (0, log_records logger LevelInfo ''migrations applied''
             [(''count'', AttrInt (int (length applied))), (''versions'', AttrInts applied)], s))"

end
