(* ===== verification/Cmd_Api.thy ===== *)
theory Cmd_Api
  imports Http_Server Cmd_Migrate
begin

text \<open>
  The API process (\<open>cmd/api/main.go\<close>): it loads the configuration, opens the pool, assembles the
  application and runs the server until its context is canceled by a signal. The pool is closed
  when \<open>run\<close> returns, in whichever way.
\<close>

section \<open>Starting\<close>

definition newLogger :: "gostring \<Rightarrow> slog_handler" where
  "newLogger environment =
     (let level = (if environment = ''development'' then LevelDebug else LevelInfo) in Sink level [] [])"

text \<open>How far \<open>run\<close> gets before it serves: an error, a panic, or all the server is run with.\<close>

datatype 's startup =
    StartupFailed gerror
  | StartupPanicked gostring
  | Serving slog_handler "'s pool" "'s App" "'s app_state Server" "'s app_state ShutdownOptions" "'s app_state"

definition api_setup ::
  "('s, 'c) pgxpool \<Rightarrow> 's app_state chi \<Rightarrow> ((gostring \<Rightarrow> gostring \<Rightarrow> gostring) \<Rightarrow> CreateWidgetJSONRequestBody \<Rightarrow> validation)
    \<Rightarrow> env \<Rightarrow> int \<Rightarrow> 's \<Rightarrow> 's startup \<times> 's \<times> log_record list" where
  "api_setup lib chi validate env now s =
     (case Load env of
        Inl err \<Rightarrow> (StartupFailed (Wrapped ''load configuration'' err), s, [])
      | Inr cfg \<Rightarrow>
          (let logger = newLogger (Environment cfg);
               records = log_records logger LevelInfo ''application starting'' [(''environment'', AttrString (Environment cfg))]
           in case Open lib now background (Config_Database cfg) s of
                (Inl err, s) \<Rightarrow> (StartupFailed err, s, records)
              | (Inr pool, s) \<Rightarrow>
                  (case app_New chi validate cfg (Some logger) (Some pool) s of
                     Inl panic \<Rightarrow> (StartupPanicked panic, pool_Close pool s, records)
                   | Inr (application, a) \<Rightarrow>
                       (Serving logger pool application
                          (server_New (Config_HTTP cfg) (app_Handler application) logger)
                          \<lparr>so_BeginDrain = Some BeginDrain, so_DrainDelay = ShutdownDrainDelay cfg, so_Timeout = ShutdownTimeout cfg\<rparr>
                          a, s, records))))"

section \<open>The whole process\<close>

text \<open>
  \<open>run\<close>: its error, the state it leaves and the records it writes. Serving is any run of the
  server with the application behind it, up to its end.
\<close>

inductive api_run ::
  "('s, 'c) pgxpool \<Rightarrow> 's app_state chi \<Rightarrow> ((gostring \<Rightarrow> gostring \<Rightarrow> gostring) \<Rightarrow> CreateWidgetJSONRequestBody \<Rightarrow> validation)
    \<Rightarrow> env \<Rightarrow> int \<Rightarrow> 's \<Rightarrow> gerror option \<Rightarrow> 's \<Rightarrow> log_record list \<Rightarrow> bool"
  for lib chi validate env now s where
  Run_does_not_start: "api_setup lib chi validate env now s = (StartupFailed err, s', records) \<Longrightarrow>
    api_run lib chi validate env now s (Some err) s' records"
| Run_serves: "api_setup lib chi validate env now s = (Serving logger pool application server shutdown a, s', records) \<Longrightarrow>
    runs_to server shutdown logger (app_request chi (srv_Handler server)) (run_start a) z \<Longrightarrow> run_phase z = Finished err \<Longrightarrow>
    api_run lib chi validate env now s err (pool_Close pool (app_inner (run_app z))) (records @ run_log z)"

text \<open>\<open>main\<close>: the exit status and the text on standard error.\<close>

definition api_exit :: "gerror option \<Rightarrow> nat \<times> gostring" where
  "api_exit result = (case result of
       Some err \<Rightarrow> (1, error_text err @ [CHR 0x0A])
     | None \<Rightarrow> (0, []))"

end
