(* ===== verification/Cmd_Properties.thy ===== *)
theory Cmd_Properties
  imports Cmd_Api Server_Properties Database_Properties
begin

text \<open>
  The properties of the two processes: what has been checked when the API serves, that it ends
  cleanly and leaves no pool open, what holds of its data throughout, and what the migration job
  reads and reports.
\<close>

section \<open>The start of the API\<close>

text \<open>How the server of a started process came about.\<close>

lemma Serving_cases:
  assumes "api_setup lib chi validate env now s = (Serving logger pool application server shutdown a, s', records)"
  obtains cfg where "Load env = Inr cfg" "logger = newLogger (Environment cfg)"
    "Open lib now background (Config_Database cfg) s = (Inr pool, s')"
    "app_New chi validate cfg (Some logger) (Some pool) s' = Inr (application, a)"
    "server = server_New (Config_HTTP cfg) (app_Handler application) logger"
    "shutdown = \<lparr>so_BeginDrain = Some BeginDrain, so_DrainDelay = ShutdownDrainDelay cfg, so_Timeout = ShutdownTimeout cfg\<rparr>"
  using assms that by (auto simp: api_setup_def Let_def split: sum.splits prod.splits)

lemma setup_refused: "isl (Load env) \<Longrightarrow> \<exists>err. api_setup lib chi validate env now s = (StartupFailed err, s, [])"
  by (cases "Load env") (simp_all add: api_setup_def)

text \<open>
  A start for a loaded configuration is decided by the database alone, in terms of the facts that
  opening the pool establishes.
\<close>

lemma setup_loaded:
  assumes "Load env = Inr cfg" "accepts_client_ip chi"
    and "Open lib now background (Config_Database cfg) s = (opened, s1)"
  shows "case opened of
      Inl err \<Rightarrow> \<exists>records. api_setup lib chi validate env now s = (StartupFailed err, s1, records)
    | Inr pool \<Rightarrow> \<exists>application records. api_setup lib chi validate env now s =
        (Serving (newLogger (Environment cfg)) pool application
           (server_New (Config_HTTP cfg) (app_handler application) (newLogger (Environment cfg)))
           \<lparr>so_BeginDrain = Some BeginDrain, so_DrainDelay = ShutdownDrainDelay cfg, so_Timeout = ShutdownTimeout cfg\<rparr>
           \<lparr>acceptingTraffic = True, app_inner = s1\<rparr>, s1, records)"
proof (cases opened)
  case (Inl err)
  with assms show ?thesis by (simp add: api_setup_def Let_def)
next
  case (Inr pool)
  obtain application where "app_New chi validate cfg (Some (newLogger (Environment cfg))) (Some pool) s1
      = Inr (application, \<lparr>acceptingTraffic = True, app_inner = s1\<rparr>)"
    using app_New_succeeds [OF loaded_valid [OF assms(1)] assms(2)] by blast
  with Inr assms(1,3) show ?thesis by (simp add: api_setup_def Let_def app_Handler_def)
qed

text \<open>
  C28. What has been checked before the API serves. A configuration that does not load stops the
  process with nothing opened and nothing logged; the start never panics and leaves no pool behind
  when it fails. When the process serves, exactly one pool is open, the application accepts
  traffic on the state of the database, every timeout of the server is positive, and the server is
  stopped by draining that application, with a delay that is not negative and a positive timeout.
\<close>

theorem process_starts_checked:
  assumes "accepts_client_ip chi" "documented_pgxpool opened lib"
    and "api_setup lib chi validate env now s = (result, s', records)"
  shows "case result of
      StartupPanicked p \<Rightarrow> False
    | StartupFailed err \<Rightarrow> opened s' = opened s \<and> (isl (Load env) \<longrightarrow> s' = s \<and> records = [])
    | Serving logger pool application server shutdown a \<Rightarrow>
        opened s' = opened s + 1 \<and> documented_pool opened pool \<and> a = \<lparr>acceptingTraffic = True, app_inner = s'\<rparr>
        \<and> srv_Handler server = app_handler application
        \<and> (\<forall>t \<in> {srv_ReadHeaderTimeout server, srv_ReadTimeout server, srv_WriteTimeout server, srv_IdleTimeout server}. 0 < sint t)
        \<and> so_BeginDrain shutdown = Some BeginDrain \<and> 0 \<le> sint (so_DrainDelay shutdown) \<and> 0 < sint (so_Timeout shutdown)"
proof (cases "Load env")
  case (Inl e)
  then obtain err where "api_setup lib chi validate env now s = (StartupFailed err, s, [])"
    using setup_refused [of env] by fastforce
  with assms(3) show ?thesis by auto
next
  case (Inr cfg)
  obtain made s1 where made: "Open lib now background (Config_Database cfg) s = (made, s1)" by fastforce
  note start = setup_loaded [OF Inr assms(1) made, of validate] and pool = open_counts [OF assms(2) made]
  show ?thesis
  proof (cases made)
    case (Inl err)
    with start pool assms(3) Inr show ?thesis by auto
  next
    case (Inr p)
    with start pool assms(3) loaded_valid [OF \<open>Load env = Inr cfg\<close>] show ?thesis
      by (auto simp: server_New_def valid_config_def valid_http_def)
  qed
qed

text \<open>A process on a database that answers the ping, and on one that does not.\<close>

lemma demo_serving:
  obtains logger pool application server shutdown a records where
    "api_setup (counting_pgxpool None) reference_chi (\<lambda>tag b. Valid) (only_database ''postgres://db'') 0 0
      = (Serving logger pool application server shutdown a, 1, records)"
    "shutdown = demo_shutdown" "a = \<lparr>acceptingTraffic = True, app_inner = 1\<rparr>"
proof -
  have "\<exists>pool. Open (counting_pgxpool None) 0 background (Config_Database (default_config ''postgres://db'')) 0 = (Inr pool, 1)"
    by (simp add: Open_def counting_pgxpool_def)
  then obtain pool where
    "Open (counting_pgxpool None) 0 background (Config_Database (default_config ''postgres://db'')) 0 = (Inr pool, 1)" by blast
  from setup_loaded [OF default_loads reference_accepts this, of "\<lambda>tag b. Valid"]
  show thesis by (auto simp: demo_shutdown_def default_config_def intro: that)
qed

theorem process_starts_checked_witness:
  "\<exists>logger pool application server shutdown a records.
     api_setup (counting_pgxpool None) reference_chi (\<lambda>tag b. Valid) (only_database ''postgres://db'') 0 0
       = (Serving logger pool application server shutdown a, 1, records) \<and> 0 < sint (so_Timeout shutdown)"
proof -
  obtain logger pool application server shutdown a records where start:
    "api_setup (counting_pgxpool None) reference_chi (\<lambda>tag b. Valid) (only_database ''postgres://db'') 0 0
      = (Serving logger pool application server shutdown a, 1, records)" by (rule demo_serving)
  from process_starts_checked [OF reference_accepts counting_documented start] start show ?thesis by auto
qed

section \<open>The life of the API\<close>

text \<open>The server of a started process, on the application behind it.\<close>

lemma Serving_server:
  assumes "api_setup lib chi validate env now s = (Serving logger pool application server shutdown a, s', records)"
  obtains cfg where "srv_Handler server = app_handler application" "so_BeginDrain shutdown = Some BeginDrain"
    "0 \<le> sint (so_Timeout shutdown)" "a = \<lparr>acceptingTraffic = True, app_inner = s'\<rparr>"
    "Build chi validate cfg (Some logger)
      \<lparr>WidgetService = Some (service_over (repository_over (pool_DBTX pool))), ReadinessChecks = [Some (pool_Ping pool)]\<rparr> s'
      = Inr (application, a)"
proof -
  from assms obtain cfg where cfg: "Load env = Inr cfg"
      "app_New chi validate cfg (Some logger) (Some pool) s' = Inr (application, a)"
      "server = server_New (Config_HTTP cfg) (app_Handler application) logger"
      "shutdown = \<lparr>so_BeginDrain = Some BeginDrain, so_DrainDelay = ShutdownDrainDelay cfg, so_Timeout = ShutdownTimeout cfg\<rparr>"
    by (rule Serving_cases)
  have "a = \<lparr>acceptingTraffic = True, app_inner = s'\<rparr>"
    using cfg(2) by (auto simp: app_New_Build Build_def Let_def split: if_splits sum.splits)
  with cfg loaded_valid [OF cfg(1)] show thesis
    by (intro that [of cfg]) (simp_all add: server_New_def app_Handler_def valid_config_def app_New_Build)
qed

text \<open>What the statements and the ping of its pool keep, every state of the process keeps.\<close>

lemma process_keeps:
  assumes "documented_chi chi"
    and "api_setup lib chi validate env now s = (Serving logger pool application server shutdown a, s', records)"
    and "runs_to server shutdown logger (app_request chi (srv_Handler server)) (run_start a) z"
    and "service_moves R (service_over (repository_over (pool_DBTX pool)))" "check_moves R (pool_Ping pool)"
    and "reflp R" "transp R"
  shows "R s' (app_inner (run_app z)) \<and> (acceptingTraffic (run_app z) \<longleftrightarrow> run_began z = None)"
proof -
  from assms(2) obtain cfg where server: "srv_Handler server = app_handler application"
    and drain: "so_BeginDrain shutdown = Some BeginDrain" and a: "a = \<lparr>acceptingTraffic = True, app_inner = s'\<rparr>"
    and build: "Build chi validate cfg (Some logger)
      \<lparr>WidgetService = Some (service_over (repository_over (pool_DBTX pool))), ReadinessChecks = [Some (pool_Ping pool)]\<rparr> s'
      = Inr (application, a)" by (rule Serving_server)
  have moves: "state_moves (app_moves R) (chi_ServeHTTP chi (app_handler application))"
    by (rule moves_by_application [OF assms(1) build _ assms(4) _ assms(6,7)]) (simp_all add: assms(5))
  have request: "app_moves R b b'" if "app_request chi (srv_Handler server) b b'" for b b'
    using that state_movesD [OF moves] by (auto simp: app_request_def server)
  let ?P = "\<lambda>began b. R s' (app_inner b) \<and> (acceptingTraffic b \<longleftrightarrow> \<not> began)"
  have "?P (run_began z \<noteq> None) (run_app z)"
  proof (rule runs_to_app [where P = ?P, OF assms(3) drain])
    show "?P False a" using reflpD [OF assms(6)] by (simp add: a)
    show "?P True (BeginDrain b)" if "?P began b" for began b using that by (simp add: BeginDrain_def)
    show "?P began b'" if "?P began b" "app_request chi (srv_Handler server) b b'" for began b b'
      using that(1) request [OF that(2)] transpD [OF assms(7), of s' "app_inner b" "app_inner b'"] by (simp add: app_moves_def)
  qed
  then show ?thesis by simp
qed

text \<open>The service over a pool keeps what the statements keep.\<close>

lemma service_over_pool_moves:
  assumes "documented_pool opened pool"
  shows "service_moves (\<lambda>s s'. opened s' = opened s) (service_over (repository_over (pool_DBTX pool)))"
proof -
  have stays: "opened (snd (Exec (pool_DBTX pool) c sql args s)) = opened s"
    "opened (snd (Query (pool_DBTX pool) c sql args s)) = opened s"
    "opened (snd (QueryRow (pool_DBTX pool) c sql args s)) = opened s" for c sql args s
    using assms by (simp_all add: documented_pool_def)
  have pg: "opened (snd (pg_Create r c name s)) = opened s" "opened (snd (pg_Get r c i s)) = opened s"
    "opened (snd (pg_List r c opts s)) = opened s" "opened (snd (pg_Delete r c i s)) = opened s"
    if "queries_db (queries r) = pool_DBTX pool" for r c name i opts s
    using stays that
    by (simp_all add: pg_Create_def pg_Get_def pg_List_def pg_Delete_def CreateWidget_def GetWidget_def ListWidgets_def
        ListWidgetsAfter_def DeleteWidget_def bind_result_def split_beta split: sum.split option.split)
  show ?thesis
    by (simp add: service_moves_def service_over_def repository_over_def pg_repository_def dbgen_New_def service_Create_def
        service_Get_def service_List_def service_Delete_def wrap_result_def Let_def pg split_beta split: sum.split)
qed

text \<open>
  C11. A process leaves no pool open, however it ends: refused by its configuration, by the database
  or by the address it serves on, or canceled and drained, after any requests and with any
  interleaving of its steps.
\<close>

theorem process_leaves_no_pool:
  assumes "documented_chi chi" "documented_pgxpool opened lib"
    and "accepts_client_ip chi" "api_run lib chi validate env now s err s' records"
  shows "opened s' = opened s"
  using assms(4)
proof cases
  case Run_does_not_start
  show ?thesis
  proof (cases "Load env")
    case (Inl e)
    with setup_refused [of env lib chi validate now s] Run_does_not_start show ?thesis by auto
  next
    case (Inr cfg)
    obtain made s1 where made: "Open lib now background (Config_Database cfg) s = (made, s1)" by fastforce
    from setup_loaded [OF Inr assms(3) made, of validate] open_counts [OF assms(2) made] Run_does_not_start
    show ?thesis by (auto split: sum.splits)
  qed
next
  case (Run_serves logger pool application server shutdown a s1 log z)
  from Run_serves(3) obtain cfg :: Config where "Open lib now background (Config_Database cfg) s = (Inr pool, s1)"
    by (rule Serving_cases) blast
  from open_counts [OF assms(2) this] have pool: "opened s1 = opened s + 1" "documented_pool opened pool" by simp_all
  then have "check_moves (\<lambda>s s'. opened s' = opened s) (pool_Ping pool)" "opened (pool_Close pool x) = opened x - 1" for x
    by (simp_all add: documented_pool_def check_moves_def)
  with process_keeps [OF assms(1) Run_serves(3,4) service_over_pool_moves [OF pool(2)]] pool(1) Run_serves(1)
  show ?thesis by (simp add: reflp_def transp_def)
qed

text \<open>A start on a database that does not answer.\<close>

theorem process_leaves_no_pool_witness:
  "\<exists>err s' records. api_run (counting_pgxpool (Some Canceled)) reference_chi (\<lambda>tag b. Valid)
     (only_database ''postgres://db'') 0 0 (Some err) s' records \<and> s' = 0"
proof -
  obtain err s1 where "Open (counting_pgxpool (Some Canceled)) 0 background (Config_Database (default_config ''postgres://db'')) 0
      = (Inl err, s1)" by (simp add: Open_def counting_pgxpool_def)
  from setup_loaded [OF default_loads reference_accepts this, of "\<lambda>tag b. Valid"]
  obtain records where "api_setup (counting_pgxpool (Some Canceled)) reference_chi (\<lambda>tag b. Valid)
      (only_database ''postgres://db'') 0 0 = (StartupFailed err, s1, records)" by auto
  from Run_does_not_start [OF this] have run: "api_run (counting_pgxpool (Some Canceled)) reference_chi (\<lambda>tag b. Valid)
      (only_database ''postgres://db'') 0 0 (Some err) s1 records" .
  from process_leaves_no_pool [OF reference_documented counting_documented reference_accepts run] run show ?thesis by auto
qed



text \<open>
  C10. When the process is ready. In every state that a serving process can reach, after any
  requests, a readiness probe is answered, and with 200 exactly when the cancellation has not been
  taken yet and the database answers its ping, which is bounded in time; with 503 otherwise.
\<close>

theorem process_readiness:
  assumes "documented_chi chi"
    and "api_setup lib chi validate env now s = (Serving logger pool application server shutdown a, s', records)"
    and "runs_to server shutdown logger (app_request chi (srv_Handler server)) (run_start a) z"
    and "unwritten (wd_resp w)" "wd_state w = run_app z" "rq_method r = ''GET''" "rq_path r = ''/health/ready''"
    and "chi_ServeHTTP chi (srv_Handler server) r w = (out, w')"
  shows "out = Returned \<and> (\<exists>c. ctx_deadline c \<noteq> None \<and> rs_status (wd_resp w') =
    (if run_began z = None \<and> fst (pool_Ping pool c (app_inner (run_app z))) = None then 200 else 503))"
proof -
  from assms(2) obtain cfg where server: "srv_Handler server = app_handler application"
    and build: "Build chi validate cfg (Some logger)
      \<lparr>WidgetService = Some (service_over (repository_over (pool_DBTX pool))), ReadinessChecks = [Some (pool_Ping pool)]\<rparr> s'
      = Inr (application, a)" by (rule Serving_server)
  have switch: "acceptingTraffic (run_app z) \<longleftrightarrow> run_began z = None"
    using process_keeps [OF assms(1-3), of "\<lambda>_ _. True"] by (simp add: service_moves_def check_moves_def reflp_def transp_def)
  let ?probe = "readiness (app_checks [Some (pool_Ping pool)])"
  have "(rq_path r, ?probe) \<in> {(''/health/live'', liveness), (''/health/ready'', readiness (app_checks
      (ReadinessChecks \<lparr>WidgetService = Some (service_over (repository_over (pool_DBTX pool))), ReadinessChecks = [Some (pool_Ping pool)]\<rparr>)))}"
    by (simp add: assms(7))
  from assms(1) build assms(4,6) this obtain r2 x w1 where x: "unwritten (wd_resp x)" "wd_state x = wd_state w"
    and served: "chi_ServeHTTP chi (app_handler application) r w = (Returned, w1)"
    and status: "rs_status (wd_resp w1) = rs_status (wd_resp (snd (?probe r2 x)))"
    by (rule application_probe)
  let ?c = "WithTimeout (wd_now x) (sint readinessCheckTimeout) (rq_ctx r2)"
  have ping: "fst (run_checks (app_checks [Some (pool_Ping pool)]) ?c (wd_state x)) = None
      \<longleftrightarrow> run_began z = None \<and> fst (pool_Ping pool ?c (app_inner (run_app z))) = None"
    by (simp add: app_checks_def checkAcceptingTraffic_def switch [symmetric] x(2) assms(5) lift_check_def on_inner_def split_beta
        split: option.split)
  have "rs_status (wd_resp w1) = (if fst (run_checks (app_checks [Some (pool_Ping pool)]) ?c (wd_state x)) = None then 200 else 503)"
    unfolding status using x(1) by (auto simp: readiness_response split_beta)
  then have "rs_status (wd_resp w1) = (if run_began z = None \<and> fst (pool_Ping pool ?c (app_inner (run_app z))) = None then 200 else 503)"
    by (simp only: ping)
  moreover have "ctx_deadline ?c \<noteq> None" by (simp add: WithTimeout_def)
  ultimately show ?thesis using served assms(8) by (auto simp: server)
qed

theorem process_readiness_witness:
  "\<exists>server w'. chi_ServeHTTP reference_chi (srv_Handler (server :: int app_state Server)) (health_request ''/health/ready'')
     (fresh_world \<lparr>acceptingTraffic = True, app_inner = 1\<rparr>) = (Returned, w') \<and> rs_status (wd_resp w') = 200"
proof -
  obtain logger pool application server shutdown a records where start:
    "api_setup (counting_pgxpool None) reference_chi (\<lambda>tag b. Valid) (only_database ''postgres://db'') 0 0
      = (Serving logger pool application server shutdown a, 1, records)"
    and a: "a = \<lparr>acceptingTraffic = True, app_inner = 1\<rparr>" by (rule demo_serving)
  obtain out w' where run: "chi_ServeHTTP reference_chi (srv_Handler server) (health_request ''/health/ready'') (fresh_world a)
      = (out, w')" by fastforce
  have ping: "pool_Ping pool c x = (None, x)" for c x
    using start by (rule Serving_cases) (auto simp: Open_def counting_pgxpool_def)
  from process_readiness [OF reference_documented start Run_starts unwritten_fresh(1) _ _ _ run] run
  show ?thesis by (intro exI [of _ server] exI [of _ w']) (auto simp: a run_start_def health_request_def fresh_world_def ping)
qed

text \<open>
  C3. The data of a whole process over PostgreSQL. Whatever requests are sent to the assembled
  application, at whatever moments of its life and with whatever failures and lost answers of the
  database: in every state the process can reach, every widget was stored before it started or has
  a trimmed name of 1 to 120 characters, which the schema alone does not ensure; the identifiers
  are distinct and the listing is strictly newest first.
\<close>

theorem process_stores_proper_names:
  assumes "documented_chi chi"
    and "api_setup lib chi validate env now s = (Serving logger pool application server shutdown a, s', records)"
    and "runs_to server shutdown logger (app_request chi (srv_Handler server)) (run_start a) z"
    and "pool_DBTX pool = pg_db" "pg_inv s'"
    and "\<And>c t. pg_inv t \<Longrightarrow> pg_inv (snd (pool_Ping pool c t)) \<and> pg_rows (snd (pool_Ping pool c t)) = pg_rows t"
    and "ws = pg_rows (app_inner (run_app z))"
  shows "(\<forall>w \<in> set ws - set (pg_rows s'). proper_name (Name w)) \<and> newest_first ws \<and> distinct (map ID ws)"
proof -
  define R where "R = (\<lambda>t t'. pg_inv t \<longrightarrow> pg_inv t' \<and> (\<forall>w \<in> set (pg_rows t') - set (pg_rows t). proper_name (Name w)))"
  have call: "R t (run_call pg_service c call t)" for c call t
    unfolding R_def using pg.adapter.run_call_inv [of t c call] store_step_accounts(1) [OF call_steps [of call t c]] by blast
  have "service_moves R (service_over pg_service)"
    using call [of _ _ "CallCreate _"] call [of _ _ "CallGet _"] call [of _ _ "CallList _"] call [of _ _ "CallDelete _"]
    by (simp add: service_moves_def service_over_def)
  moreover have "check_moves R (pool_Ping pool)" using assms(6) by (simp add: check_moves_def R_def)
  moreover have "reflp R" by (simp add: reflp_def R_def)
  moreover have "transp R" unfolding transp_def R_def by blast
  ultimately have "R s' (app_inner (run_app z))"
    using process_keeps [OF assms(1-3), of R] assms(4) by simp
  with pg_rows_well_formed [of "app_inner (run_app z)"] assms(5) show ?thesis unfolding assms(7) R_def by simp
qed

text \<open>A pool over the reference database.\<close>

definition table_pgxpool :: "(pg, unit) pgxpool" where
  "table_pgxpool =
     \<lparr>pgxpool_ParseConfig = (\<lambda>url. Inr \<lparr>pc_MaxConns = 4, pc_MinConns = 0, pc_MaxConnLifetime = 0, pc_MaxConnIdleTime = 0,
        pc_HealthCheckPeriod = 0, pc_RuntimeParams = Map.empty, pc_Connection = ()\<rparr>),
      pgxpool_NewWithConfig = (\<lambda>c cfg s. (Inr demo_pool, s))\<rparr>"

lemma table_serving:
  obtains logger application server shutdown records where
    "api_setup table_pgxpool reference_chi demo_tags_validator (only_database ''postgres://db'') 0 demo_pg
      = (Serving logger demo_pool application server shutdown \<lparr>acceptingTraffic = True, app_inner = demo_pg\<rparr>, demo_pg, records)"
proof -
  have "Open table_pgxpool 0 background (Config_Database (default_config ''postgres://db'')) demo_pg = (Inr demo_pool, demo_pg)"
    by (simp add: Open_def table_pgxpool_def demo_pool_def)
  from setup_loaded [OF default_loads reference_accepts this, of demo_tags_validator] show thesis by (auto intro: that)
qed

text \<open>One request, as soon as the server listens.\<close>

lemma one_request:
  "runs_to server shutdown logger (app_request chi (srv_Handler server)) (run_start (wd_state w))
     (((run_info logger ''HTTP server started'' [(''address'', AttrString (srv_Addr server))] (run_start (wd_state w)))
       \<lparr>run_goroutine := Listening\<rparr>)\<lparr>run_app := wd_state (snd (chi_ServeHTTP chi (srv_Handler server) r w))\<rparr>)"
proof (rule Run_goes_on [OF runs_step])
  show "run_step server shutdown logger (app_request chi (srv_Handler server)) (run_start (wd_state w))
     ((run_info logger ''HTTP server started'' [(''address'', AttrString (srv_Addr server))] (run_start (wd_state w)))
       \<lparr>run_goroutine := Listening\<rparr>)"
    by (rule Goroutine_starts) (simp add: run_start_def)
  show "run_step server shutdown logger (app_request chi (srv_Handler server))
     ((run_info logger ''HTTP server started'' [(''address'', AttrString (srv_Addr server))] (run_start (wd_state w)))
       \<lparr>run_goroutine := Listening\<rparr>)
     (((run_info logger ''HTTP server started'' [(''address'', AttrString (srv_Addr server))] (run_start (wd_state w)))
       \<lparr>run_goroutine := Listening\<rparr>)\<lparr>run_app := wd_state (snd (chi_ServeHTTP chi (srv_Handler server) r w))\<rparr>)"
    by (rule Request_served) (auto simp: app_request_def run_start_def)
qed

theorem process_stores_proper_names_witness:
  "\<exists>server :: pg app_state Server. list_all (\<lambda>w. w \<in> set (pg_rows demo_pg) \<or> proper_name (Name w))
     (pg_rows (app_inner (wd_state (snd (chi_ServeHTTP reference_chi (srv_Handler server)
     (demo_request\<lparr>rq_method := ''POST'', rq_path := ''/v1/widgets''\<rparr>)
     (fresh_world \<lparr>acceptingTraffic = True, app_inner = demo_pg\<rparr>))))))"
proof -
  let ?w = "fresh_world \<lparr>acceptingTraffic = True, app_inner = demo_pg\<rparr>"
  let ?r = "demo_request\<lparr>rq_method := ''POST'', rq_path := ''/v1/widgets''\<rparr>"
  obtain logger application server shutdown records where start:
    "api_setup table_pgxpool reference_chi demo_tags_validator (only_database ''postgres://db'') 0 demo_pg
      = (Serving logger demo_pool application server shutdown (wd_state ?w), demo_pg, records)"
    using table_serving by (metis (no_types, lifting) fresh_world_def world.select_convs(2))
  have "pool_DBTX demo_pool = pg_db"
    "\<And>c t. pg_inv t \<Longrightarrow> pg_inv (snd (pool_Ping demo_pool c t)) \<and> pg_rows (snd (pool_Ping demo_pool c t)) = pg_rows t"
    by (simp_all add: demo_pool_def)
  from process_stores_proper_names [OF reference_documented start one_request [where r = ?r] this(1) demo_inv this(2) refl]
  show ?thesis by (intro exI [of _ server]) (auto simp: list_all_iff)
qed

section \<open>The migration job\<close>

text \<open>A duration in the environment that is left out, or parses and is in range.\<close>

definition usable_duration :: "env \<Rightarrow> gostring \<Rightarrow> (int \<Rightarrow> bool) \<Rightarrow> bool" where
  "usable_duration env name ok \<longleftrightarrow>
     TrimSpace (Getenv env name) = [] \<or> (\<exists>t. ParseDuration (TrimSpace (Getenv env name)) = Inr t \<and> ok (sint t))"

lemma migrationTimeout_usable:
  "usable_duration env ''MIGRATE_TIMEOUT'' (\<lambda>n. 0 < n) \<Longrightarrow> \<exists>t. migrationTimeout env = Inr t \<and> 0 < sint t
     \<and> (TrimSpace (Getenv env ''MIGRATE_TIMEOUT'') = [] \<longrightarrow> t = defaultTimeout)"
  by (auto simp: usable_duration_def migrationTimeout_def Let_def defaultTimeout_def)

lemma migrationLockTimeout_usable:
  "usable_duration env ''MIGRATE_LOCK_TIMEOUT'' (\<lambda>n. 0 \<le> n) \<Longrightarrow> \<exists>t. migrationLockTimeout env = Inr t \<and> 0 \<le> sint t
     \<and> (TrimSpace (Getenv env ''MIGRATE_LOCK_TIMEOUT'') = [] \<longrightarrow> t = defaultLockTimeout)"
  by (auto simp: usable_duration_def migrationLockTimeout_def Let_def defaultLockTimeout_def)

text \<open>The two error texts of an unusable duration both name the variable.\<close>

lemma unusable_timeouts:
  "\<not> usable_duration env ''MIGRATE_TIMEOUT'' (\<lambda>n. 0 < n) \<Longrightarrow>
     \<exists>err. migrationTimeout env = Inl err \<and> (\<exists>pre post. error_text err = pre @ ''MIGRATE_TIMEOUT'' @ post)"
  "\<not> usable_duration env ''MIGRATE_LOCK_TIMEOUT'' (\<lambda>n. 0 \<le> n) \<Longrightarrow>
     \<exists>err. migrationLockTimeout env = Inl err \<and> (\<exists>pre post. error_text err = pre @ ''MIGRATE_LOCK_TIMEOUT'' @ post)"
proof -
  have named: "\<exists>pre post. error_text (Wrapped (''parse '' @ name) e) = pre @ name @ post"
    "\<exists>pre post. error_text (NewError (name @ rest)) = pre @ name @ post" for name rest e
  proof -
    show "\<exists>pre post. error_text (Wrapped (''parse '' @ name) e) = pre @ name @ post"
      by (intro exI [of _ "''parse ''"] exI [of _ "'': '' @ error_text e"]) simp
    show "\<exists>pre post. error_text (NewError (name @ rest)) = pre @ name @ post"
      by (intro exI [of _ "[]"] exI [of _ rest]) simp
  qed
  show "\<exists>err. migrationTimeout env = Inl err \<and> (\<exists>pre post. error_text err = pre @ ''MIGRATE_TIMEOUT'' @ post)"
    if "\<not> usable_duration env ''MIGRATE_TIMEOUT'' (\<lambda>n. 0 < n)"
    using that named(1) [of "''MIGRATE_TIMEOUT''"] named(2) [of "''MIGRATE_TIMEOUT''" "'' must be positive''"]
    by (cases "ParseDuration (TrimSpace (Getenv env ''MIGRATE_TIMEOUT''))")
      (simp_all add: usable_duration_def migrationTimeout_def Let_def)
  show "\<exists>err. migrationLockTimeout env = Inl err \<and> (\<exists>pre post. error_text err = pre @ ''MIGRATE_LOCK_TIMEOUT'' @ post)"
    if "\<not> usable_duration env ''MIGRATE_LOCK_TIMEOUT'' (\<lambda>n. 0 \<le> n)"
    using that named(1) [of "''MIGRATE_LOCK_TIMEOUT''"] named(2) [of "''MIGRATE_LOCK_TIMEOUT''" "'' must not be negative''"]
    by (cases "ParseDuration (TrimSpace (Getenv env ''MIGRATE_LOCK_TIMEOUT''))")
      (simp_all add: usable_duration_def migrationLockTimeout_def Let_def)
qed

text \<open>
  C33. What the migration job checks before it connects. Only when the URL is not blank and both
  durations are usable, left out or in range, does it reach the database, and then with a positive
  time for the whole run and the given timeout for its locks, 5 minutes and 5 seconds when they are
  left out. Otherwise nothing is touched and the error names the first variable at fault.
\<close>

theorem migration_job_checks_first:
  assumes "fs_Sub ''migrations'' = Inr fs" "url = TrimSpace (Getenv env ''DATABASE_URL'')"
  shows "if url = [] \<or> \<not> usable_duration env ''MIGRATE_TIMEOUT'' (\<lambda>n. 0 < n)
        \<or> \<not> usable_duration env ''MIGRATE_LOCK_TIMEOUT'' (\<lambda>n. 0 \<le> n)
    then \<exists>err pre post. migrate_run lib fs_Sub env logger now s = Inr (([], Some err), s)
      \<and> error_text err = pre @ (if url = [] then ''DATABASE_URL''
          else if \<not> usable_duration env ''MIGRATE_TIMEOUT'' (\<lambda>n. 0 < n) then ''MIGRATE_TIMEOUT'' else ''MIGRATE_LOCK_TIMEOUT'') @ post
    else \<exists>(t :: duration) lock. migrate_run lib fs_Sub env logger now s = Inr (Migrate lib (background\<lparr>ctx_deadline := Some (now + sint t)\<rparr>)
          url fs \<lparr>LockTimeout = lock, Logger = Some logger\<rparr> s)
      \<and> 0 < sint t \<and> (TrimSpace (Getenv env ''MIGRATE_TIMEOUT'') = [] \<longrightarrow> sint t = 300000000000)
      \<and> 0 \<le> sint lock \<and> (TrimSpace (Getenv env ''MIGRATE_LOCK_TIMEOUT'') = [] \<longrightarrow> sint lock = 5000000000)"
proof (cases "url = []")
  case True
  have "error_text (NewError ''DATABASE_URL must not be empty'') = [] @ ''DATABASE_URL'' @ '' must not be empty''" by simp
  with True show ?thesis by (auto simp: migrate_run_def Let_def assms(2) simp del: error_text.simps)
next
  case url: False
  show ?thesis
  proof (cases "usable_duration env ''MIGRATE_TIMEOUT'' (\<lambda>n. 0 < n)")
    case False
    then obtain err pre post where "migrationTimeout env = Inl err" "error_text err = pre @ ''MIGRATE_TIMEOUT'' @ post"
      using unusable_timeouts(1) by blast
    with False url show ?thesis by (auto simp: migrate_run_def Let_def assms(2))
  next
    case run: True
    then obtain t where t: "migrationTimeout env = Inr t" "0 < sint t"
      "TrimSpace (Getenv env ''MIGRATE_TIMEOUT'') = [] \<longrightarrow> t = defaultTimeout"
      using migrationTimeout_usable by blast
    show ?thesis
    proof (cases "usable_duration env ''MIGRATE_LOCK_TIMEOUT'' (\<lambda>n. 0 \<le> n)")
      case False
      then obtain err pre post where "migrationLockTimeout env = Inl err" "error_text err = pre @ ''MIGRATE_LOCK_TIMEOUT'' @ post"
        using unusable_timeouts(2) by blast
      with False url run t(1) show ?thesis by (auto simp: migrate_run_def Let_def assms(2))
    next
      case True
      then obtain lock where lock: "migrationLockTimeout env = Inr lock" "0 \<le> sint lock"
        "TrimSpace (Getenv env ''MIGRATE_LOCK_TIMEOUT'') = [] \<longrightarrow> lock = defaultLockTimeout"
        using migrationLockTimeout_usable by blast
      have eq: "migrate_run lib fs_Sub env logger now s = Inr (Migrate lib (background\<lparr>ctx_deadline := Some (now + sint t)\<rparr>)
          url fs \<lparr>LockTimeout = lock, Logger = Some logger\<rparr> s)"
        using url t(1) lock(1) assms(1) by (simp add: migrate_run_def Let_def assms(2) Migrations_def WithTimeout_def background_def)
      have "sint defaultTimeout = 300000000000" "sint defaultLockTimeout = 5000000000"
        by (simp_all add: defaultTimeout_def defaultLockTimeout_def)
      with t lock eq show ?thesis
        by (simp only: url run True if_False not_True_eq_False simp_thms)
          (rule exI [of _ t], rule exI [of _ lock], auto)
    qed
  qed
qed

definition no_variables :: env where
  "no_variables = Map.empty"

theorem migration_job_checks_first_witness:
  "\<exists>err. migrate_run (demo_goose [] None) (\<lambda>d. Inr ()) no_variables (Sink LevelInfo [] []) 0 ({}, 0) = Inr (([], Some err), ({}, 0))"
proof -
  have "TrimSpace (Getenv no_variables ''DATABASE_URL'') = []" by (simp add: Getenv_def no_variables_def TrimSpace_Nil)
  with migration_job_checks_first [where fs_Sub = "\<lambda>d. Inr ()" and fs = "()" and env = no_variables
      and lib = "demo_goose [] None" and logger = "Sink LevelInfo [] []" and now = 0 and s = "({}, 0)", OF _ refl]
  show ?thesis by auto
qed

lemma migrate_run_cases:
  assumes "fs_Sub ''migrations'' = Inr fs"
  obtains err where "migrate_run lib fs_Sub env logger now s = Inr (([], Some err), s)"
  | c url options where "migrate_run lib fs_Sub env logger now s = Inr (Migrate lib c url fs options s)"
proof -
  have "Migrations fs_Sub = Inr fs" by (simp add: Migrations_def assms)
  then have "(\<exists>err. migrate_run lib fs_Sub env logger now s = Inr (([], Some err), s))
      \<or> (\<exists>c url options. migrate_run lib fs_Sub env logger now s = Inr (Migrate lib c url fs options s))"
    by (auto simp: migrate_run_def Let_def split: sum.split)
  with that show thesis by blast
qed

text \<open>
  C32. What the migration job reports. It writes one record of the outcome of its run, and the
  versions in it are exactly those that landed in the database by it, whether it succeeded or failed
  at any point; the exit status is 0, with a record of success, only when the library applied all it
  had to without an error, and 1, with a record of the error, otherwise; and at most one connection
  was opened and closed.
\<close>

theorem migration_job_reports:
  assumes "documented_goose versions closed lib" "fs_Sub ''migrations'' = Inr fs"
    and "migrate_main lib fs_Sub env now s = (status, records, s')"
  shows "\<exists>applied err. migrate_run lib fs_Sub env (Sink LevelInfo [] []) now s = Inr ((applied, err), s')
    \<and> versions s' = versions s \<union> set applied \<and> closed s' \<le> closed s + 1
    \<and> (case err of
         None \<Rightarrow> status = 0 \<and> records = [\<lparr>lr_level = LevelInfo, lr_message = ''migrations applied'',
             lr_attrs = [([''count''], AttrInt (int (length applied))), ([''versions''], AttrInts applied)]\<rparr>]
           \<and> (\<exists>p c s1 results s2. provider_Up lib p c s1 = ((results, None), s2) \<and> applied = map Source_Version results)
       | Some e \<Rightarrow> status = 1 \<and> records = [\<lparr>lr_level = LevelError, lr_message = ''migrations failed'',
           lr_attrs = [([''error''], AttrString (error_text e)), ([''applied''], AttrInts applied)]\<rparr>])"
proof -
  obtain applied err s1 where run: "migrate_run lib fs_Sub env (Sink LevelInfo [] []) now s = Inr ((applied, err), s1)"
    and landed: "versions s1 = versions s \<union> set applied" "closed s1 \<le> closed s + 1"
    and applied: "err = None \<Longrightarrow> \<exists>p c s1 results s2. provider_Up lib p c s1 = ((results, None), s2) \<and> applied = map Source_Version results"
  proof (rule migrate_run_cases [where fs_Sub = fs_Sub, OF assms(2), of lib env "Sink LevelInfo [] []" now s])
    fix err
    assume "migrate_run lib fs_Sub env (Sink LevelInfo [] []) now s = Inr (([], Some err), s)"
    then show thesis by (rule that) simp_all
  next
    fix c url options
    assume ran: "migrate_run lib fs_Sub env (Sink LevelInfo [] []) now s = Inr (Migrate lib c url fs options s)"
    obtain applied err s1 where result: "Migrate lib c url fs options s = ((applied, err), s1)" by (metis prod.exhaust)
    have "\<exists>p c s1 results s2. provider_Up lib p c s1 = ((results, None), s2) \<and> applied = map Source_Version results" if "err = None"
      using migrate_succeeded [of lib c url fs options s applied s1] result that by blast
    with migrate_lands [OF assms(1) result] ran result show thesis by (intro that [of applied err s1]) (auto split: if_splits)
  qed
  show ?thesis
  proof (cases err)
    case None
    with run landed assms(3) applied show ?thesis
      by (intro exI [of _ applied] exI [of _ None]) (auto simp: migrate_main_def Let_def log_records_def)
  next
    case (Some e)
    with run landed assms(3) show ?thesis
      by (intro exI [of _ applied] exI [of _ "Some e"]) (auto simp: migrate_main_def Let_def log_records_def)
  qed
qed

definition only_url :: env where
  "only_url = [''DATABASE_URL'' \<mapsto> ''postgres://db'']"

theorem migration_job_reports_witness:
  "\<exists>applied. fst (snd (snd (migrate_main (demo_goose [] (Some (DeadlineExceeded, Some [\<lparr>Source_Version = 1\<rparr>])))
     (\<lambda>d. Inr ()) only_url 0 ({}, 0)))) = set applied"
  using migration_job_reports [where fs_Sub = "\<lambda>d. Inr ()" and fs = "()" and env = only_url and now = 0 and s = "({}, 0)",
      OF demo_goose_documented _ prod.collapse [symmetric, THEN trans, OF arg_cong [where f = "Pair _", OF prod.collapse [symmetric]]]]
  by auto

end
