(* ===== verification/Spec2Isabelle.thy ===== *)
theory Spec2Isabelle
  imports Widget_Properties Http_Properties Config_Properties Database_Properties App_Properties
    Server_Properties Cmd_Properties
begin

text \<open>
  A verification development of the widget service: an HTTP API over PostgreSQL with the job that
  migrates its schema, written in Go.

  The parts and how they interact.

  A request enters the server (\<open>internal/platform/httpserver\<close>), which hands it to the router of
  \<open>internal/httpapi\<close>: correlation identifier, security headers, request log, panic guard, deadline
  and CORS stand around the routes. Two probes are routes of the router itself; the four endpoints
  of \<open>/v1/widgets\<close> are handlers of \<open>internal/widget/widgethttp\<close>, which decode and answer with
  \<open>internal/platform/httpkit\<close>, call the use cases of \<open>internal/widget\<close>, and these the repository of
  \<open>internal/widget/widgetpostgres\<close> with its generated queries. \<open>internal/app\<close> composes the parts and
  holds the switch that takes the process out of readiness; \<open>cmd/api\<close> loads the configuration
  (\<open>internal/platform/config\<close>), opens the pool (\<open>internal/platform/database\<close>) and runs the server
  until a signal; \<open>cmd/migrate\<close> runs the embedded migrations.

  Theories, from the language upwards.

  Prelude: machine integers, strings as bytes, errors with \<open>errors.Is\<close>, \<open>errors.As\<close>,
  \<open>errors.Join\<close> and \<open>Error\<close>, request contexts.
  Go_Strings, Go_Strconv, Go_Utf8, Go_Time, Go_Duration, Go_Base64, Go_Json, Go_Net, Go_Netip: what
  the program uses of the standard library, byte for byte: trimming and splitting, decimal numbers,
  runes, RFC 3339 times and the calendar, durations with their double precision fractions, the URL
  alphabet of base 64, the streaming JSON decoder and the encoder, media types and queries, prefixes
  of IP addresses.
  Http and Http_Log: response writers, requests, handlers that may panic, loggers; the log handler
  of \<open>internal/httpapi/logging.go\<close>.
  Widget: \<open>internal/widget\<close>, the data, the use cases and the page cut, over the locales
  \<open>widget_repository\<close> and its extensions, the contract of a repository. Widget_Dbgen and
  Widget_Postgres: the generated queries and the adapter, over the locale \<open>postgres_widgets\<close>, the
  contract of the database; the adapter is a sublocale of the repository. Postgres_Table: a
  reference table that executes the five statements with a clock and with failures, lost answers
  included; it interprets all of these locales, and the properties rest on its facts.
  Apigen, Httpkit, Widget_Http, Widget_Client: the API types, the decoder and the responses, the four
  handlers, and a client that walks the list endpoint.
  Http_Middleware and Http_Router: the middleware as functions between handlers and the router over
  the locale \<open>well_behaved\<close>, the contract of a handler, interpreted by both probes, by the fallbacks
  and, in App_Wiring, by the four endpoints.
  Config: \<open>internal/platform/config\<close>, reading in a state monad and validation. Database: the pool and
  a migration run. App and App_Wiring: the composition, and how a request reaches an endpoint
  through it; \<open>state_moves\<close> there carries what the parts do to the state through the whole router.
  Http_Server: \<open>Run\<close> as an inductive step relation. Cmd_Migrate and Cmd_Api: the two processes.

  State. A handler works on a \<open>world\<close>: the response, the state behind it, the log, the clock, the
  time at which the client hung up, the random bytes. The state of the application is the
  readiness switch and the state of the services; that of a run of the server is the phase \<open>Run\<close>
  is in, its goroutine, the channel, the cancellation, the time, the application and the log.

  What the properties show.

  Widget_Properties: pages, walks by cursors under concurrent writes and failures, what creating,
  reading and deleting do to the table, an account of the stored rows after any history (each one a row
  of the start or a creation of the history under its trimmed name, less the deletions), the cursor
  token, the bounds of a page request, how errors and oversize bodies reach the client. Http_Properties: what is on every response, containment of
  panics, the probes, JSON that reads back, which bodies are accepted, which records name the request.
  Config_Properties: loading as an independent reading of each setting, and the bounds the rest
  relies on. Database_Properties: what a pool is set to, setting by setting, that none is left open, and
  what a migration run reports, in which order it closes, and what it limits. App_Properties: a loaded configuration assembles, the endpoints of the
  assembled application are the capability's, draining. Server_Properties: the order and the bounds of
  the shutdown, and that a canceled run ends in every fair execution. Cmd_Properties: the whole
  processes, from the environment to the exit status, the readiness and the stored names over every
  reachable state, and the exit of a signaled process in every fair execution.

  Bounds and recursion. JSON nests to the 10000 levels of the library. No definition takes fuel: the
  loops of the program run over lists, headers or bytes, and trimming and parsing by a measure. A run
  of the server need not end. An execution is a sequence of its states; it is fair when the time does
  not stand still and a goroutine that could go on all the time does so eventually
  (\<open>fair_execution\<close> in Http_Server). That a canceled run ends holds of every fair execution, the
  ones in which the listener never returns included.

  Parameters. chi with its middleware for CORS and client addresses is a record of functions, its
  documented behaviour the hypothesis \<open>documented_chi\<close>, which \<open>reference_chi\<close> in Http_Router meets; the
  constructors of the client address middleware accept what validation accepts
  (\<open>accepts_client_ip\<close>). The validation library is a function on the decoded value and the tag
  name. The driver, its pool and the migration library are records with the hypotheses
  \<open>documented_pgxpool\<close> and \<open>documented_goose\<close>, each met by an instance in Database_Properties.
  Of the migration library only this is relied on: the versions it reports, in its results or in its
  partial error, are the ones it applied, and a connection is closed when it is told to. The
  embedded file system is a function from directories.

  Not modelled. Requests are served one at a time against the state; the interleaving of statements of
  two requests is covered for the walks by cursors, which allow any calls between two pages. The
  internals of chi, pgx and goose, the network and the operating system are outside. A context handed
  to a library is its values and its deadline; a cancellation reaches the library as an error it may
  return at any time. A panic in \<open>main\<close> is an exit status. The update trigger and the index of the
  schema do nothing to the statements of the program. The aliases and parameter structs of the
  generated API types are used by no code. The harness of the integration tests
  (\<open>internal/testkit\<close>) is not part of a process. The message of an invalid prefix stands unquoted.
\<close>

end
